(* ===== verification/Prelude.thy ===== *)
theory Prelude
  imports Main "HOL-Library.Word" "HOL-Library.Sublist"
begin

text \<open>
  What every component shares: the machine integers and byte strings of the Rust
  sources, the fact collections of the library, and generic lemmas on lists and options.

  \<^item> A \<open>usize\<close> is a natural number; the code runs on 64-bit targets, so the additions
    that can wrap do it modulo \<open>2 ^ 64\<close> and say so.
  \<^item> \<open>AtomicU64\<close>, \<open>u32\<close>, \<open>u16\<close> and \<open>u8\<close> values are words of their width.
  \<^item> \<open>Bytes\<close>, \<open>BytesMut\<close>, \<open>&[u8]\<close> and \<open>Vec<u8>\<close> are lists of bytes. Their operations
    that panic out of range return \<open>None\<close> there.
  \<^item> A Rust \<open>Result<T, E>\<close> is a value of \<open>E + T\<close>: \<open>Inl\<close> is \<open>Err\<close>, \<open>Inr\<close> is \<open>Ok\<close>.
\<close>

type_synonym u8 = "8 word"
type_synonym u16 = "16 word"
type_synonym u32 = "32 word"
type_synonym u64 = "64 word"
type_synonym bytes = "u8 list"

text \<open>Rewrite rules for the byte operations, and introduction rules for panic freedom.\<close>

named_theorems byte_simps
named_theorems no_panic

definition usize_max :: nat where
  "usize_max = 2 ^ 64 - 1"

definition usize_add :: "nat \<Rightarrow> nat \<Rightarrow> nat" where
  "usize_add a b = (a + b) mod 2 ^ 64"

lemma usize_add_exact [byte_simps]: "a + b < 2 ^ 64 \<Longrightarrow> usize_add a b = a + b"
  by (simp add: usize_add_def)

section \<open>Slices and buffers\<close>

text \<open>\<open>iter().position(p)\<close>: the index of the first element satisfying the predicate.\<close>

fun position :: "('a \<Rightarrow> bool) \<Rightarrow> 'a list \<Rightarrow> nat option" where
  "position p [] = None"
| "position p (x # xs) = (if p x then Some 0 else map_option Suc (position p xs))"

lemma position_None_iff [byte_simps]: "position p xs = None \<longleftrightarrow> (\<forall>x \<in> set xs. \<not> p x)"
  by (induction xs) auto

lemma position_SomeD:
  assumes "position p xs = Some i"
  shows "i < length xs" and "p (xs ! i)" and "\<forall>j < i. \<not> p (xs ! j)"
proof -
  have "i < length xs \<and> p (xs ! i) \<and> (\<forall>j < i. \<not> p (xs ! j))"
    using assms
  proof (induction xs arbitrary: i)
    case (Cons x xs)
    then show ?case
      by (cases i) (force simp: nth_Cons less_Suc_eq_0_disj split: if_splits nat.splits)+
  qed simp
  then show "i < length xs" and "p (xs ! i)" and "\<forall>j < i. \<not> p (xs ! j)"
    by auto
qed

lemma position_append:
  "position p (xs @ ys) =
     (case position p xs of Some i \<Rightarrow> Some i
      | None \<Rightarrow> map_option ((+) (length xs)) (position p ys))"
proof (induction xs)
  case Nil
  then show ?case by (cases "position p ys") simp_all
next
  case (Cons x xs)
  then show ?case by (cases "position p ys") (auto split: option.splits)
qed

lemma position_append_Some [byte_simps]:
  "position p xs = Some i \<Longrightarrow> position p (xs @ ys) = Some i"
  by (simp add: position_append)

lemma position_skip [byte_simps]:
  "\<forall>x \<in> set xs. \<not> p x \<Longrightarrow> p y \<Longrightarrow> position p (xs @ y # ys) = Some (length xs)"
  by (induction xs) auto

text \<open>\<open>buf.get(from..to)\<close>: the sub-slice, or \<open>None\<close> where the range is not inside it.\<close>

definition get_range :: "nat \<Rightarrow> nat \<Rightarrow> 'a list \<Rightarrow> 'a list option" where
  "get_range from to xs =
     (if from \<le> to \<and> to \<le> length xs then Some (take (to - from) (drop from xs)) else None)"

lemma get_range_length: "get_range i j xs = Some ys \<Longrightarrow> length ys = j - i"
  by (auto simp: get_range_def split: if_splits)

lemma get_range_append [byte_simps]:
  "get_range i j xs = Some ys \<Longrightarrow> get_range i j (xs @ zs) = Some ys"
  by (auto simp: get_range_def split: if_splits)

lemma get_range_middle [byte_simps]:
  "get_range (length xs) (length xs + length ys) (xs @ ys @ zs) = Some ys"
  by (simp add: get_range_def)

text \<open>
  \<open>Buf::advance\<close> and \<open>BytesMut::split_to\<close> drop a prefix of the buffer; a count past its
  end is a panic.
\<close>

definition advance :: "nat \<Rightarrow> 'a list \<Rightarrow> 'a list option" where
  "advance n xs = (if n \<le> length xs then Some (drop n xs) else None)"

lemma advance_in_range [byte_simps]: "n \<le> length xs \<Longrightarrow> advance n xs = Some (drop n xs)"
  by (simp add: advance_def)

section \<open>Lists\<close>

lemma suffix_drop_trans: "suffix ys xs \<Longrightarrow> suffix (drop n ys) xs"
  by (meson suffix_drop suffix_order.trans)

lemma take_append_le: "n \<le> length xs \<Longrightarrow> take n (xs @ ys) = take n xs"
  by simp

lemma drop_append_le: "n \<le> length xs \<Longrightarrow> drop n (xs @ ys) = drop n xs @ ys"
  by simp

lemma take_min_append:
  "take (min (length xs) n) xs = take (min (length xs) n) ps \<Longrightarrow> n \<le> length xs \<Longrightarrow>
   take n (xs @ ys) = take n ps"
  by (simp add: min_def split: if_splits)

end
