(* ===== verification/Rust_Std.thy ===== *)
theory Rust_Std
  imports Prelude
begin

text \<open>
  The parts of the Rust standard library the sources call on data of their own: decimal
  parsing and printing of unsigned integers, UTF-8 validation, big-endian integers, and
  the string tests \<open>starts_with\<close>, \<open>contains\<close>, \<open>trim_start_matches\<close> and \<open>split\<close>.
\<close>

section \<open>Decimal numbers\<close>

definition is_digit :: "u8 \<Rightarrow> bool" where
  "is_digit b \<longleftrightarrow> 48 \<le> b \<and> b \<le> 57"

definition digit_val :: "u8 \<Rightarrow> nat" where
  "digit_val b = unat b - 48"

text \<open>
  \<open>str::parse\<close> at an unsigned type whose largest value is \<open>m\<close>: an optional plus sign, at
  least one digit, digits only, and no intermediate value above \<open>m\<close>.
\<close>

fun parse_digits :: "nat \<Rightarrow> nat \<Rightarrow> bytes \<Rightarrow> nat option" where
  "parse_digits m acc [] = Some acc"
| "parse_digits m acc (b # bs) =
     (if is_digit b \<and> acc * 10 + digit_val b \<le> m
      then parse_digits m (acc * 10 + digit_val b) bs else None)"

definition parse_uint :: "nat \<Rightarrow> bytes \<Rightarrow> nat option" where
  "parse_uint m bs =
     (case bs of [] \<Rightarrow> None
      | b # r \<Rightarrow> (if b = 43 then (if r = [] then None else parse_digits m 0 r)
                 else parse_digits m 0 bs))"

text \<open>\<open>to_string\<close> of an unsigned integer: its decimal digits, without leading zeros.\<close>

definition digit_byte :: "nat \<Rightarrow> u8" where
  "digit_byte d = of_nat (48 + d)"

fun decimal :: "nat \<Rightarrow> bytes" where
  "decimal n = (if n < 10 then [digit_byte n] else decimal (n div 10) @ [digit_byte (n mod 10)])"

declare decimal.simps [simp del]

lemma unat_digit_byte: "d < 10 \<Longrightarrow> unat (digit_byte d) = 48 + d"
proof -
  assume "d < 10"
  then have "(48 + d) mod 256 = 48 + d" by simp
  then show ?thesis
    by (simp only: digit_byte_def unat_of_nat) simp
qed

lemma is_digit_digit_byte: "d < 10 \<Longrightarrow> is_digit (digit_byte d)"
  by (simp add: is_digit_def word_le_nat_alt unat_digit_byte)

lemma digit_val_digit_byte: "d < 10 \<Longrightarrow> digit_val (digit_byte d) = d"
  by (simp add: digit_val_def unat_digit_byte)

lemma decimal_nonempty [simp]: "decimal n \<noteq> []"
  by (subst decimal.simps) simp

lemma decimal_digits: "b \<in> set (decimal n) \<Longrightarrow> is_digit b"
proof (induction n rule: decimal.induct)
  case (1 n)
  show ?case
  proof (cases "n < 10")
    case True
    with "1.prems" show ?thesis
      by (simp add: decimal.simps [of n] is_digit_digit_byte)
  next
    case False
    with "1.prems" consider "b \<in> set (decimal (n div 10))" | "b = digit_byte (n mod 10)"
      by (auto simp: decimal.simps [of n])
    then show ?thesis
      using "1.IH" False by cases (auto simp: is_digit_digit_byte)
  qed
qed

lemma hd_decimal: "0 < n \<Longrightarrow> 49 \<le> hd (decimal n) \<and> hd (decimal n) \<le> 57"
proof (induction n rule: decimal.induct)
  case (1 n)
  show ?case
  proof (cases "n < 10")
    case True
    with "1.prems" show ?thesis
      by (simp add: decimal.simps [of n] word_le_nat_alt unat_digit_byte)
  next
    case False
    then have "0 < n div 10" by simp
    with "1.IH" False have "49 \<le> hd (decimal (n div 10)) \<and> hd (decimal (n div 10)) \<le> 57"
      by simp
    with False show ?thesis
      by (simp add: decimal.simps [of n])
  qed
qed

lemma length_decimal_le: "length (decimal n) \<le> Suc n"
proof (induction n rule: decimal.induct)
  case (1 n)
  show ?case
  proof (cases "n < 10")
    case False
    with "1.IH" have "length (decimal (n div 10)) \<le> Suc (n div 10)"
      by simp
    with False show ?thesis
      by (simp add: decimal.simps [of n])
  qed (simp add: decimal.simps [of n])
qed

lemma parse_digits_snoc:
  "parse_digits m acc (bs @ [b]) =
     (case parse_digits m acc bs of None \<Rightarrow> None
      | Some v \<Rightarrow> if is_digit b \<and> v * 10 + digit_val b \<le> m then Some (v * 10 + digit_val b)
                  else None)"
  by (induction bs arbitrary: acc) auto

lemma parse_digits_decimal: "n \<le> m \<Longrightarrow> parse_digits m 0 (decimal n) = Some n"
proof (induction n rule: decimal.induct)
  case (1 n)
  show ?case
  proof (cases "n < 10")
    case True
    with "1.prems" show ?thesis
      by (simp add: decimal.simps [of n] is_digit_digit_byte digit_val_digit_byte)
  next
    case False
    moreover from "1.prems" have "n div 10 \<le> m" by arith
    ultimately have "parse_digits m 0 (decimal (n div 10)) = Some (n div 10)"
      using "1.IH" by simp
    moreover have "n div 10 * 10 + n mod 10 = n" by arith
    ultimately show ?thesis
      using False "1.prems"
      by (simp add: decimal.simps [of n] parse_digits_snoc is_digit_digit_byte
          digit_val_digit_byte)
  qed
qed

lemma parse_uint_decimal: "n \<le> m \<Longrightarrow> parse_uint m (decimal n) = Some n"
proof -
  assume n: "n \<le> m"
  obtain b r where d: "decimal n = b # r"
    by (cases "decimal n") auto
  then have "is_digit b"
    using decimal_digits [of b n] by simp
  then have "b \<noteq> 43"
    by (auto simp: is_digit_def)
  with d parse_digits_decimal [OF n] show ?thesis
    by (simp add: parse_uint_def)
qed

lemma parse_digits_bound: "parse_digits m acc bs = Some v \<Longrightarrow> acc \<le> m \<Longrightarrow> v \<le> m"
  by (induction bs arbitrary: acc) (auto split: if_splits)

lemma parse_uint_bound: "parse_uint m bs = Some v \<Longrightarrow> v \<le> m"
  by (auto simp: parse_uint_def dest: parse_digits_bound split: list.splits if_splits)

section \<open>UTF-8\<close>

text \<open>
  \<open>std::str::from_utf8\<close> accepts exactly the well-formed sequences of the Unicode
  standard. For a lead byte of a multi-byte sequence: the range of its second byte and how
  many further continuation bytes follow it.
\<close>

definition utf8_lead :: "u8 \<Rightarrow> (u8 \<times> u8 \<times> nat) option" where
  "utf8_lead b =
     (if 0xC2 \<le> b \<and> b \<le> 0xDF then Some (0x80, 0xBF, 0)
      else if b = 0xE0 then Some (0xA0, 0xBF, 1)
      else if 0xE1 \<le> b \<and> b \<le> 0xEC then Some (0x80, 0xBF, 1)
      else if b = 0xED then Some (0x80, 0x9F, 1)
      else if 0xEE \<le> b \<and> b \<le> 0xEF then Some (0x80, 0xBF, 1)
      else if b = 0xF0 then Some (0x90, 0xBF, 2)
      else if 0xF1 \<le> b \<and> b \<le> 0xF3 then Some (0x80, 0xBF, 2)
      else if b = 0xF4 then Some (0x80, 0x8F, 2)
      else None)"

definition is_continuation :: "u8 \<Rightarrow> bool" where
  "is_continuation b \<longleftrightarrow> 0x80 \<le> b \<and> b \<le> 0xBF"

fun valid_utf8 :: "bytes \<Rightarrow> bool" where
  "valid_utf8 [] = True"
| "valid_utf8 (b # bs) =
     (if b < 0x80 then valid_utf8 bs
      else case utf8_lead b of
        None \<Rightarrow> False
      | Some (lo, hi, n) \<Rightarrow>
          (case bs of
             [] \<Rightarrow> False
           | c # cs \<Rightarrow> lo \<le> c \<and> c \<le> hi \<and> n \<le> length cs
               \<and> list_all is_continuation (take n cs) \<and> valid_utf8 (drop n cs)))"

lemma valid_utf8_ascii: "\<forall>b \<in> set bs. b < 0x80 \<Longrightarrow> valid_utf8 bs"
  by (induction bs) auto

lemma valid_utf8_append: "valid_utf8 xs \<Longrightarrow> valid_utf8 ys \<Longrightarrow> valid_utf8 (xs @ ys)"
proof (induction xs rule: valid_utf8.induct)
  case (2 b bs)
  show ?case
  proof (cases bs)
    case Nil
    with "2.prems" show ?thesis by (auto split: if_splits option.splits)
  next
    case (Cons c cs)
    with "2" show ?thesis by (auto split: if_splits option.splits prod.splits)
  qed
qed simp

section \<open>Big-endian integers\<close>

definition u16_from_be :: "u8 \<Rightarrow> u8 \<Rightarrow> u16" where
  "u16_from_be a b = of_nat (unat a * 256 + unat b)"

definition u32_from_be :: "u8 \<Rightarrow> u8 \<Rightarrow> u8 \<Rightarrow> u8 \<Rightarrow> u32" where
  "u32_from_be a b c d = of_nat (((unat a * 256 + unat b) * 256 + unat c) * 256 + unat d)"

definition u16_to_be :: "u16 \<Rightarrow> bytes" where
  "u16_to_be w = [of_nat (unat w div 256), of_nat (unat w)]"

definition u32_to_be :: "u32 \<Rightarrow> bytes" where
  "u32_to_be w =
     [of_nat (unat w div 2 ^ 24), of_nat (unat w div 2 ^ 16), of_nat (unat w div 2 ^ 8),
      of_nat (unat w)]"

lemma length_u16_to_be [simp]: "length (u16_to_be w) = 2"
  by (simp add: u16_to_be_def)

lemma length_u32_to_be [simp]: "length (u32_to_be w) = 4"
  by (simp add: u32_to_be_def)

lemma unat_of_nat_u8: "unat (of_nat n :: u8) = n mod 256"
  by (simp only: unat_of_nat) simp

lemma unat_less_256: "unat (b :: u8) < 256"
  using unsigned_less [of b] by simp

lemma unat_u16_from_be: "unat (u16_from_be a b) = unat a * 256 + unat b"
proof -
  have "unat a * 256 + unat b < 2 ^ LENGTH(16)"
    using unat_less_256 [of a] unat_less_256 [of b] by simp
  then show ?thesis
    unfolding u16_from_be_def by (simp only: unat_of_nat mod_less)
qed

lemma unat_u32_from_be:
  "unat (u32_from_be a b c d) = ((unat a * 256 + unat b) * 256 + unat c) * 256 + unat d"
proof -
  have "((unat a * 256 + unat b) * 256 + unat c) * 256 + unat d < 2 ^ LENGTH(32)"
    using unat_less_256 [of a] unat_less_256 [of b] unat_less_256 [of c] unat_less_256 [of d]
    by simp
  then show ?thesis
    unfolding u32_from_be_def by (simp only: unat_of_nat mod_less)
qed

lemma u16_from_to_be: "u16_from_be (u16_to_be w ! 0) (u16_to_be w ! 1) = w"
proof -
  have "unat w < 65536"
    using unsigned_less [of w] by simp
  then have "unat w div 256 mod 256 * 256 + unat w mod 256 = unat w"
    by simp
  then have "unat (u16_from_be (u16_to_be w ! 0) (u16_to_be w ! 1)) = unat w"
    by (simp only: unat_u16_from_be u16_to_be_def nth_Cons_0 nth_Cons_Suc One_nat_def
        unat_of_nat_u8)
  then show ?thesis by (simp only: word_unat_eq_iff)
qed

lemma byte_digits:
  fixes n :: nat
  assumes "n < 2 ^ 32"
  shows "((n div 2 ^ 24 mod 256 * 256 + n div 2 ^ 16 mod 256) * 256 + n div 2 ^ 8 mod 256) * 256
     + n mod 256 = n"
proof -
  define a b c where "a = n div 256" and "b = a div 256" and "c = b div 256"
  have "n div 2 ^ 24 = c" and "n div 2 ^ 16 = b" and "n div 2 ^ 8 = a"
    by (simp_all add: a_def b_def c_def div_mult2_eq [symmetric])
  moreover have "c < 256"
    using assms by (simp add: a_def b_def c_def)
  moreover have "n = a * 256 + n mod 256" and "a = b * 256 + a mod 256" and "b = c * 256 + b mod 256"
    by (simp_all add: a_def b_def c_def)
  ultimately show ?thesis
    by simp
qed

lemma u32_from_to_be:
  "u32_from_be (u32_to_be w ! 0) (u32_to_be w ! 1) (u32_to_be w ! 2) (u32_to_be w ! 3) = w"
proof -
  have nth: "u32_to_be w ! 0 = of_nat (unat w div 2 ^ 24)"
    "u32_to_be w ! 1 = of_nat (unat w div 2 ^ 16)"
    "u32_to_be w ! 2 = of_nat (unat w div 2 ^ 8)" "u32_to_be w ! 3 = of_nat (unat w)"
    by (simp_all add: u32_to_be_def)
  have "unat w < 2 ^ 32"
    using unsigned_less [of w] by simp
  then have "unat (u32_from_be (u32_to_be w ! 0) (u32_to_be w ! 1) (u32_to_be w ! 2)
      (u32_to_be w ! 3)) = unat w"
    unfolding unat_u32_from_be nth unat_of_nat_u8 by (rule byte_digits)
  then show ?thesis by (simp only: word_unat_eq_iff)
qed

section \<open>Strings\<close>

text \<open>\<open>starts_with\<close>, \<open>contains\<close> and \<open>trim_start_matches\<close> with a string pattern.\<close>

definition starts_with :: "'a list \<Rightarrow> 'a list \<Rightarrow> bool" where
  "starts_with s pat \<longleftrightarrow> take (length pat) s = pat"

fun contains :: "'a list \<Rightarrow> 'a list \<Rightarrow> bool" where
  "contains [] pat \<longleftrightarrow> pat = []"
| "contains (x # s) pat \<longleftrightarrow> starts_with (x # s) pat \<or> contains s pat"

function trim_start_matches :: "'a list \<Rightarrow> 'a list \<Rightarrow> 'a list" where
  "trim_start_matches s pat =
     (if pat \<noteq> [] \<and> starts_with s pat then trim_start_matches (drop (length pat) s) pat else s)"
  by pat_completeness auto
termination
  by (relation "measure (\<lambda>(s, pat). length s)")
    (auto simp: starts_with_def intro: diff_less)

declare trim_start_matches.simps [simp del]

text \<open>\<open>split(c)\<close>: the pieces between the separators, empty ones included.\<close>

fun split_on :: "'a \<Rightarrow> 'a list \<Rightarrow> 'a list list" where
  "split_on c [] = [[]]"
| "split_on c (x # xs) =
     (if x = c then [] # split_on c xs
      else case split_on c xs of [] \<Rightarrow> [[x]] | p # ps \<Rightarrow> (x # p) # ps)"

lemma starts_with_iff_prefix: "starts_with s pat \<longleftrightarrow> prefix pat s"
  by (auto simp: starts_with_def prefix_def) (metis append_take_drop_id)

lemma starts_with_append [simp]: "starts_with (pat @ s) pat"
  by (simp add: starts_with_def)

lemma trim_start_matches_once:
  "pat \<noteq> [] \<Longrightarrow> \<not> starts_with s pat \<Longrightarrow> trim_start_matches (pat @ s) pat = s"
  by (simp add: trim_start_matches.simps)

lemma split_on_nonempty [simp]: "split_on c xs \<noteq> []"
  by (induction xs) (auto split: list.splits)

end
