(* ===== verification/Http_Types.thy ===== *)
theory Http_Types
  imports Rust_Std "HOL-Library.Monad_Syntax"
begin

text \<open>
  What the HTTP half of the program uses of the \<open>http\<close> crate. The crate is not part of the
  repository: its header map, header names and values, and response builder are the
  operations of a record \<open>('hm, 'b) http\<close> that the definitions take as a parameter, and
  \<open>http_ok\<close> names what its documentation promises. Requests and responses are records of
  the parts the sources read.

  \<open>simple_http\<close> is an instance on association lists, for evaluation on concrete inputs.
\<close>

section \<open>Numbers and text\<close>

text \<open>\<open>to_string\<close> and \<open>parse\<close> of an unsigned integer on text.\<close>

definition to_string :: "nat \<Rightarrow> string" where
  "to_string n = map (char_of \<circ> unat) (decimal n)"

text \<open>\<open>as_bytes\<close>: the bytes of a text.\<close>

definition as_bytes :: "string \<Rightarrow> bytes" where
  "as_bytes s = map (\<lambda>c. of_nat (of_char c)) s"

definition parse_str :: "nat \<Rightarrow> string \<Rightarrow> nat option" where
  "parse_str m s = parse_uint m (as_bytes s)"

lemma of_char_char_of_unat: "of_nat (of_char (char_of (unat b))) = (b :: u8)"
proof -
  have "(of_char (char_of (unat b)) :: nat) = unat b"
    using unat_less_256 [of b] by simp
  moreover have "of_nat (unat b) = b"
    by simp
  ultimately show ?thesis
    by (simp only:)
qed

lemma as_bytes_to_string: "as_bytes (to_string n) = decimal n"
  by (simp add: as_bytes_def to_string_def comp_def of_char_char_of_unat del: of_char_of)

lemma parse_str_to_string: "n \<le> m \<Longrightarrow> parse_str m (to_string n) = Some n"
  by (simp add: parse_str_def as_bytes_to_string parse_uint_decimal)

text \<open>Characters a header value shows as text: visible ASCII and the space.\<close>

definition visible :: "char \<Rightarrow> bool" where
  "visible c \<longleftrightarrow> 32 \<le> (of_char c :: nat) \<and> (of_char c :: nat) < 127"

definition token_char :: "char \<Rightarrow> bool" where
  "token_char c \<longleftrightarrow> c = CHR ''-'' \<or> (97 \<le> (of_char c :: nat) \<and> (of_char c :: nat) \<le> 122)"

lemma visible_to_string: "c \<in> set (to_string n) \<Longrightarrow> visible c"
proof -
  assume "c \<in> set (to_string n)"
  then obtain b where b: "b \<in> set (decimal n)" "c = char_of (unat b)"
    by (auto simp: to_string_def)
  then have "48 \<le> unat b" "unat b \<le> 57"
    using decimal_digits [OF b(1)] by (simp_all add: is_digit_def word_le_nat_alt)
  moreover have "(of_char c :: nat) = unat b"
    using unat_less_256 [of b] b(2) by simp
  ultimately show ?thesis
    by (simp add: visible_def)
qed

section \<open>The http crate\<close>

record ('hm, 'b) http =
  header_map_new :: 'hm
  header_map_insert :: "'hm \<Rightarrow> string \<Rightarrow> bytes \<Rightarrow> 'hm"
  header_map_get :: "'hm \<Rightarrow> string \<Rightarrow> bytes option"
  header_map_iter :: "'hm \<Rightarrow> (string \<times> bytes) list"
  header_name :: "string \<Rightarrow> string option"
  header_value :: "string \<Rightarrow> bytes option"
  header_value_of_string :: "string \<Rightarrow> bytes option"
  header_value_to_str :: "bytes \<Rightarrow> string option"
  builder_status :: "u16 \<Rightarrow> 'b"
  builder_header :: "'b \<Rightarrow> string \<Rightarrow> string \<Rightarrow> 'b"
  builder_headers_mut :: "'b \<Rightarrow> 'hm option"
  builder_set_headers :: "'b \<Rightarrow> 'hm \<Rightarrow> 'b"
  builder_parts :: "'b \<Rightarrow> (u16 \<times> 'hm) option"

text \<open>
  \<^item> header maps: \<open>insert\<close> replaces the value of its name and keeps the others, \<open>get\<close> finds
    the first value in iteration order and reads its key without regard to case;
  \<^item> names of lower-case letters and dashes are header names in normal form, and a name is
    brought into normal form once; visible text is a header value, parsed from a borrowed
    text (\<open>header_value\<close>) or converted from an owned one (\<open>header_value_of_string\<close>, which may
    accept more), and \<open>to_str\<close> gives it back;
  \<^item> the builder: a status outside 100 to 999 makes \<open>headers_mut\<close> answer \<open>None\<close> and \<open>body\<close>
    fail; a header is added to the map; what is written through \<open>headers_mut\<close> stays.
\<close>

definition header_map_ok :: "('hm, 'b) http \<Rightarrow> bool" where
  "header_map_ok H \<longleftrightarrow>
     (\<forall>k. header_map_get H (header_map_new H) k = None) \<and>
     (\<forall>m k v k'. header_name H k = Some k \<longrightarrow> header_name H k' = Some k' \<longrightarrow>
        header_map_get H (header_map_insert H m k v) k' = (if k' = k then Some v else header_map_get H m k')) \<and>
     (\<forall>m k. header_name H k = Some k \<longrightarrow> header_map_get H m k = map_of (header_map_iter H m) k)"

definition header_text_ok :: "('hm, 'b) http \<Rightarrow> bool" where
  "header_text_ok H \<longleftrightarrow>
     (\<forall>k. k \<noteq> [] \<longrightarrow> list_all token_char k \<longrightarrow> header_name H k = Some k) \<and>
     (\<forall>s. list_all visible s \<longrightarrow>
        (\<exists>v. header_value H s = Some v \<and> header_value_to_str H v = Some s) \<and>
        (\<exists>v. header_value_of_string H s = Some v \<and> header_value_to_str H v = Some s)) \<and>
     (\<forall>k k'. header_name H k = Some k' \<longrightarrow> header_name H k' = Some k')"

definition builder_ok :: "('hm, 'b) http \<Rightarrow> bool" where
  "builder_ok H \<longleftrightarrow>
     (\<forall>n. builder_parts H (builder_status H n)
        = (if 100 \<le> n \<and> n < 1000 then Some (n, header_map_new H) else None)) \<and>
     (\<forall>b. builder_headers_mut H b = map_option snd (builder_parts H b)) \<and>
     (\<forall>b n m m'. builder_parts H b = Some (n, m) \<longrightarrow>
        builder_parts H (builder_set_headers H b m') = Some (n, m')) \<and>
     (\<forall>b n m k v v'. builder_parts H b = Some (n, m) \<longrightarrow> header_name H k = Some k \<longrightarrow>
        header_value H v = Some v' \<longrightarrow> header_map_get H m k = None \<longrightarrow>
        builder_parts H (builder_header H b k v) = Some (n, header_map_insert H m k v'))"

definition http_ok :: "('hm, 'b) http \<Rightarrow> bool" where
  "http_ok H \<longleftrightarrow> header_map_ok H \<and> header_text_ok H \<and> builder_ok H"

section \<open>Requests\<close>

record 'hm HyperRequest =
  request_method :: string
  uri_host :: "string option"
  uri_path :: string
  uri_query :: "string option"
  request_headers :: 'hm
  request_body :: bytes

text \<open>\<open>headers().get(key)\<close> followed by \<open>to_str\<close>, where both succeed.\<close>

definition header_str :: "('hm, 'b) http \<Rightarrow> 'hm \<Rightarrow> string \<Rightarrow> string option" where
  "header_str H m key = Option.bind (header_map_get H m key) (header_value_to_str H)"

section \<open>Consequences of the laws\<close>

lemma header_name_token:
  "http_ok H \<Longrightarrow> k \<noteq> [] \<Longrightarrow> list_all token_char k \<Longrightarrow> header_name H k = Some k"
  by (simp add: http_ok_def header_text_ok_def)

lemma header_value_visible:
  "http_ok H \<Longrightarrow> list_all visible s \<Longrightarrow>
   \<exists>v. header_value H s = Some v \<and> header_value_to_str H v = Some s"
  by (simp add: http_ok_def header_text_ok_def)

lemma header_value_of_string_visible:
  "http_ok H \<Longrightarrow> list_all visible s \<Longrightarrow>
   \<exists>v. header_value_of_string H s = Some v \<and> header_value_to_str H v = Some s"
  by (simp add: http_ok_def header_text_ok_def)

lemma header_name_normal: "http_ok H \<Longrightarrow> header_name H k = Some k' \<Longrightarrow> header_name H k' = Some k'"
  unfolding http_ok_def header_text_ok_def by blast

lemma header_map_get_new: "http_ok H \<Longrightarrow> header_map_get H (header_map_new H) k = None"
  by (simp add: http_ok_def header_map_ok_def)

lemma header_map_get_insert:
  "http_ok H \<Longrightarrow> header_name H k = Some k \<Longrightarrow> header_name H k' = Some k' \<Longrightarrow>
   header_map_get H (header_map_insert H m k v) k' = (if k' = k then Some v else header_map_get H m k')"
  unfolding http_ok_def header_map_ok_def by blast

lemma builder_parts_status:
  "http_ok H \<Longrightarrow> builder_parts H (builder_status H n)
     = (if 100 \<le> n \<and> n < 1000 then Some (n, header_map_new H) else None)"
  by (simp add: http_ok_def builder_ok_def)

lemma builder_headers_mut_parts:
  "http_ok H \<Longrightarrow> builder_headers_mut H b = map_option snd (builder_parts H b)"
  by (simp add: http_ok_def builder_ok_def)

lemma builder_parts_set_headers:
  "http_ok H \<Longrightarrow> builder_parts H b = Some (n, m) \<Longrightarrow>
   builder_parts H (builder_set_headers H b m') = Some (n, m')"
  by (simp add: http_ok_def builder_ok_def)

lemma builder_parts_header:
  assumes "http_ok H" and "100 \<le> n" and "n < 1000" and "k \<noteq> []" and "list_all token_char k"
    and "list_all visible v"
  obtains v' where "header_value H v = Some v'" and "header_value_to_str H v' = Some v"
    and "builder_parts H (builder_header H (builder_status H n) k v)
      = Some (n, header_map_insert H (header_map_new H) k v')"
proof -
  obtain v' where v': "header_value H v = Some v'" "header_value_to_str H v' = Some v"
    using header_value_visible [OF assms(1,6)] by blast
  have "builder_parts H (builder_status H n) = Some (n, header_map_new H)"
    using assms(1-3) by (simp add: builder_parts_status)
  moreover have "header_name H k = Some k" "header_map_get H (header_map_new H) k = None"
    using assms by (simp_all add: header_name_token header_map_get_new)
  ultimately have "builder_parts H (builder_header H (builder_status H n) k v)
      = Some (n, header_map_insert H (header_map_new H) k v')"
    using assms(1) v'(1) unfolding http_ok_def builder_ok_def by blast
  with v' show ?thesis
    using that by blast
qed

section \<open>An instance on association lists\<close>

definition ascii_lower :: "char \<Rightarrow> char" where
  "ascii_lower c =
     (if 65 \<le> (of_char c :: nat) \<and> (of_char c :: nat) \<le> 90 then char_of ((of_char c :: nat) + 32) else c)"

definition simple_http :: "((string \<times> bytes) list, (u16 \<times> (string \<times> bytes) list) option) http" where
  "simple_http =
     \<lparr>header_map_new = [],
      header_map_insert = (\<lambda>m k v. (k, v) # filter (\<lambda>(k', _). k' \<noteq> k) m),
      header_map_get = (\<lambda>m k. map_of m (map ascii_lower k)),
      header_map_iter = (\<lambda>m. m),
      header_name = (\<lambda>k. let k' = map ascii_lower k in if k \<noteq> [] \<and> list_all token_char k' then Some k' else None),
      header_value = (\<lambda>s. if list_all visible s then Some (as_bytes s) else None),
      header_value_of_string = (\<lambda>s.
        if list_all (\<lambda>c. 32 \<le> (of_char c :: nat) \<and> (of_char c :: nat) \<noteq> 127) s then Some (as_bytes s) else None),
      header_value_to_str = (\<lambda>v. let s = map (char_of \<circ> unat) v in if list_all visible s then Some s else None),
      builder_status = (\<lambda>n. if 100 \<le> n \<and> n < 1000 then Some (n, []) else None),
      builder_header = (\<lambda>b k v.
        case b of Some (n, m) \<Rightarrow> if list_all visible v then Some (n, (k, as_bytes v) # m) else None
        | None \<Rightarrow> None),
      builder_headers_mut = map_option snd,
      builder_set_headers = (\<lambda>b m. map_option (\<lambda>(n, _). (n, m)) b),
      builder_parts = (\<lambda>b. b)\<rparr>"

lemma char_of_of_char_u8: "char_of (unat (of_nat (of_char c) :: u8)) = c"
  by (simp only: unat_of_nat_u8) simp

lemma ascii_lower_token_id: "token_char c \<Longrightarrow> ascii_lower c = c"
  by (auto simp: ascii_lower_def token_char_def)

lemma map_ascii_lower_token: "list_all token_char k \<Longrightarrow> map ascii_lower k = k"
  by (induction k) (auto simp: ascii_lower_token_id)

lemma map_of_filter_key:
  "map_of (filter (\<lambda>(k', _). k' \<noteq> k) m) k' = (if k' = k then None else map_of m k')"
  by (induction m) auto

lemma simple_header_name: "header_name simple_http k = Some k \<Longrightarrow> map ascii_lower k = k"
  by (auto simp: simple_http_def Let_def split: if_splits)

lemma simple_header_map:
  "header_map_get simple_http m k = map_of m (map ascii_lower k)"
  "header_map_insert simple_http m k v = (k, v) # filter (\<lambda>(k', _). k' \<noteq> k) m"
  "header_map_new simple_http = []" "header_map_iter simple_http m = m"
  by (simp_all only: simple_http_def http.select_convs)

lemma simple_header_map_ok: "header_map_ok simple_http"
  unfolding header_map_ok_def simple_header_map
proof (intro conjI allI impI)
  fix m :: "(string \<times> bytes) list" and k v k'
  assume "header_name simple_http k' = Some k'"
  then show "map_of ((k, v) # filter (\<lambda>(k', _). k' \<noteq> k) m) (map ascii_lower k')
      = (if k' = k then Some v else map_of m (map ascii_lower k'))"
    by (simp only: simple_header_name map_of.simps fst_conv snd_conv fun_upd_apply map_of_filter_key)
      simp
qed (simp_all only: simple_header_name map_of.simps)

lemma simple_header_text:
  assumes "list_all visible s"
  shows "header_value simple_http s = Some (as_bytes s)"
    and "header_value_of_string simple_http s = Some (as_bytes s)"
    and "header_value_to_str simple_http (as_bytes s) = Some s"
proof -
  have "list_all (\<lambda>c. 32 \<le> (of_char c :: nat) \<and> (of_char c :: nat) \<noteq> 127) s"
    using assms by (fastforce simp: list_all_iff visible_def)
  moreover
  have "map (char_of \<circ> unat) (as_bytes s) = s"
    by (simp add: as_bytes_def comp_def char_of_of_char_u8 del: unat_of_nat)
  ultimately show "header_value simple_http s = Some (as_bytes s)"
      and "header_value_of_string simple_http s = Some (as_bytes s)"
      and "header_value_to_str simple_http (as_bytes s) = Some s"
    using assms by (simp_all add: simple_http_def Let_def)
qed

lemma simple_header_text_ok: "header_text_ok simple_http"
proof -
  have "header_name simple_http k = Some k" if "k \<noteq> []" "list_all token_char k" for k
    using that by (simp add: simple_http_def map_ascii_lower_token)
  moreover have "header_name simple_http k' = Some k'" if "header_name simple_http k = Some k'" for k k'
    using that by (auto simp: simple_http_def Let_def map_ascii_lower_token split: if_splits)
  ultimately show ?thesis
    using simple_header_text unfolding header_text_ok_def by blast
qed

lemma simple_builder_ok: "builder_ok simple_http"
  unfolding builder_ok_def
proof (intro conjI allI impI)
  fix b n m k v v'
  assume b: "builder_parts simple_http b = Some (n, m)" and k: "header_name simple_http k = Some k"
    and v: "header_value simple_http v = Some v'" and new: "header_map_get simple_http m k = None"
  have "map_of m k = None"
    using new simple_header_name [OF k] by (simp add: simple_http_def)
  then have "filter (\<lambda>(k', _). k' \<noteq> k) m = m"
    by (auto simp: map_of_eq_None_iff filter_id_conv image_iff)
  moreover have "list_all visible v" "v' = as_bytes v" "b = Some (n, m)"
    using b v by (simp_all add: simple_http_def split: if_splits)
  ultimately show "builder_parts simple_http (builder_header simple_http b k v)
      = Some (n, header_map_insert simple_http m k v')"
    by (simp add: simple_http_def)
qed (simp_all add: simple_http_def)

lemma simple_http_ok: "http_ok simple_http"
  by (simp add: http_ok_def simple_header_map_ok simple_header_text_ok simple_builder_ok)

end
