(* ===== verification/Proxy.thy ===== *)
theory Proxy
  imports Rust_Std "HOL-Library.Monad_Syntax"
begin

unbundle bit_operations_syntax

text \<open>
  The PROXY protocol v2 header parser of \<open>syslog/proxy.rs\<close>. \<open>parse\<close> is called on the
  front of a growing buffer; \<open>None\<close> is a panic (an index or a slice out of range), the
  sum inside is the Rust \<open>Result\<close>. An \<open>IpAddr\<close> carries its octets.

  The contract of a parser that is called again as input arrives is the locale
  \<open>incremental_parser\<close>; the header reader of \<open>syslog.rs\<close> is its client.
\<close>

section \<open>The data\<close>

definition SIGNATURE :: bytes where
  "SIGNATURE = [0x0d, 0x0a, 0x0d, 0x0a, 0x00, 0x0d, 0x0a, 0x51, 0x55, 0x49, 0x54, 0x0a]"

definition V1_SIGNATURE :: bytes where
  "V1_SIGNATURE = [80, 82, 79, 88, 89, 32]"

definition PREFIX_LEN :: nat where
  "PREFIX_LEN = 16"

datatype ProxyError = Signature | Version | Command | Family | TooLong

fun ProxyError_as_str :: "ProxyError \<Rightarrow> string" where
  "ProxyError_as_str Signature = ''signature''"
| "ProxyError_as_str Version = ''version''"
| "ProxyError_as_str Command = ''command''"
| "ProxyError_as_str Family = ''family''"
| "ProxyError_as_str TooLong = ''too_long''"

datatype IpAddr = V4 bytes | V6 bytes

datatype ProxyHeader = Incomplete | Complete "IpAddr option" nat

section \<open>The parser\<close>

text \<open>\<open>buf[i]\<close>: a panic where \<open>i\<close> is out of range.\<close>

definition index :: "'a list \<Rightarrow> nat \<Rightarrow> 'a option" where
  "index xs i = (if i < length xs then Some (xs ! i) else None)"

definition parse_source :: "bytes \<Rightarrow> u8 \<Rightarrow> u8 \<Rightarrow> nat \<Rightarrow> (ProxyError + IpAddr option) option" where
  "parse_source buf command family address_length =
     (if command = 0x0 then Some (Inr None)
      else if family = 0x11 \<or> family = 0x12 then
        (if address_length < 12 then Some (Inl Family)
         else do { octets \<leftarrow> get_range 16 20 buf; Some (Inr (Some (V4 octets))) })
      else if family = 0x21 \<or> family = 0x22 then
        (if address_length < 36 then Some (Inl Family)
         else do { octets \<leftarrow> get_range 16 32 buf; Some (Inr (Some (V6 octets))) })
      else if family = 0x00 \<or> family = 0x31 \<or> family = 0x32 then Some (Inr None)
      else Some (Inl Family))"

definition parse :: "bytes \<Rightarrow> nat \<Rightarrow> (ProxyError + ProxyHeader) option" where
  "parse buf max_length =
     (if buf = [] then Some (Inr Incomplete)
      else if (let seen = min (length buf) (length V1_SIGNATURE)
               in take seen buf = take seen V1_SIGNATURE) then Some (Inl Version)
      else if (let seen = min (length buf) (length SIGNATURE)
               in take seen buf \<noteq> take seen SIGNATURE) then Some (Inl Signature)
      else if length buf < PREFIX_LEN then Some (Inr Incomplete)
      else do {
        version_command \<leftarrow> index buf 12;
        if drop_bit 4 version_command \<noteq> 0x2 then Some (Inl Version)
        else let command = version_command AND 0x0f in
        if command > 0x1 then Some (Inl Command)
        else do {
          family \<leftarrow> index buf 13;
          hi \<leftarrow> index buf 14;
          lo \<leftarrow> index buf 15;
          let address_length = unat (u16_from_be hi lo); len = PREFIX_LEN + address_length in
          if len > max_length then Some (Inl TooLong)
          else if length buf < len then Some (Inr Incomplete)
          else do {
            source \<leftarrow> parse_source buf command family address_length;
            Some (map_sum id (\<lambda>s. Complete s len) source)
          }
        }
      })"

text \<open>A header as the tests of the parser build it.\<close>

definition v2_header :: "u8 \<Rightarrow> u8 \<Rightarrow> bytes \<Rightarrow> bytes" where
  "v2_header family command address =
     SIGNATURE @ [0x20 OR command] @ [family] @ u16_to_be (of_nat (length address)) @ address"

section \<open>The three stages of a parse\<close>

lemma index_in_range [byte_simps]: "i < length xs \<Longrightarrow> index xs i = Some (xs ! i)"
  by (simp add: index_def)

lemma length_SIGNATURE [simp]: "length SIGNATURE = 12"
  by (simp add: SIGNATURE_def)

lemma length_V1_SIGNATURE [simp]: "length V1_SIGNATURE = 6"
  by (simp add: V1_SIGNATURE_def)

text \<open>Which test a buffer fails first, or that it starts like a v2 header.\<close>

definition like_v1 :: "bytes \<Rightarrow> bool" where
  "like_v1 buf \<longleftrightarrow> take (min (length buf) 6) buf = take (min (length buf) 6) V1_SIGNATURE"

definition like_v2 :: "bytes \<Rightarrow> bool" where
  "like_v2 buf \<longleftrightarrow> take (min (length buf) 12) buf = take (min (length buf) 12) SIGNATURE"

definition address_length :: "bytes \<Rightarrow> nat" where
  "address_length buf = unat (u16_from_be (buf ! 14) (buf ! 15))"

text \<open>What the parser answers once the sixteen bytes of the prefix are there.\<close>

definition parse_prefix :: "bytes \<Rightarrow> nat \<Rightarrow> (ProxyError + ProxyHeader) option" where
  "parse_prefix buf max_length =
     (if drop_bit 4 (buf ! 12) \<noteq> 0x2 then Some (Inl Version)
      else if buf ! 12 AND 0x0f > 0x1 then Some (Inl Command)
      else if 16 + address_length buf > max_length then Some (Inl TooLong)
      else if length buf < 16 + address_length buf then Some (Inr Incomplete)
      else do {
        source \<leftarrow> parse_source buf (buf ! 12 AND 0x0f) (buf ! 13) (address_length buf);
        Some (map_sum id (\<lambda>s. Complete s (16 + address_length buf)) source)
      })"

lemma parse_eq:
  "parse buf max_length =
     (if buf = [] then Some (Inr Incomplete)
      else if like_v1 buf then Some (Inl Version)
      else if \<not> like_v2 buf then Some (Inl Signature)
      else if length buf < 16 then Some (Inr Incomplete)
      else parse_prefix buf max_length)"
  by (simp add: parse_def like_v1_def like_v2_def parse_prefix_def PREFIX_LEN_def
      address_length_def byte_simps Let_def not_less)

lemma like_v2_shorter: "like_v2 (buf @ more) \<Longrightarrow> like_v2 buf"
proof -
  assume "like_v2 (buf @ more)"
  then have "take (min (length buf) 12) (take (min (length (buf @ more)) 12) (buf @ more))
      = take (min (length buf) 12) (take (min (length (buf @ more)) 12) SIGNATURE)"
    by (simp only: like_v2_def)
  then show ?thesis
    by (simp add: like_v2_def min_def split: if_splits)
qed

lemma like_v1_not_v2: "buf \<noteq> [] \<Longrightarrow> like_v1 buf \<Longrightarrow> \<not> like_v2 buf"
  by (cases buf) (simp_all add: like_v1_def like_v2_def V1_SIGNATURE_def SIGNATURE_def min_def
      take_Cons' split: if_splits)

lemma like_v2_length: "like_v2 buf \<Longrightarrow> 12 \<le> length buf \<Longrightarrow> take 12 buf = SIGNATURE"
  by (simp add: like_v2_def)

lemma like_v2_append: "12 \<le> length buf \<Longrightarrow> like_v2 (buf @ more) \<longleftrightarrow> like_v2 buf"
  by (simp add: like_v2_def)

lemma nth_append_prefix: "16 \<le> length buf \<Longrightarrow> i < 16 \<Longrightarrow> (buf @ more) ! i = buf ! i"
  by (simp add: nth_append)

lemma address_length_append:
  "16 \<le> length buf \<Longrightarrow> address_length (buf @ more) = address_length buf"
  by (simp add: address_length_def nth_append)

lemma parse_source_total [no_panic]:
  "16 + n \<le> length buf \<Longrightarrow> parse_source buf command family n \<noteq> None"
  by (auto simp: parse_source_def get_range_def)

lemma parse_source_append:
  "16 + n \<le> length buf \<Longrightarrow>
   parse_source (buf @ more) command family n = parse_source buf command family n"
  by (auto simp: parse_source_def get_range_def)

lemma parse_prefix_append:
  assumes "16 \<le> length buf" and "parse_prefix buf max_length \<noteq> Some (Inr Incomplete)"
  shows "parse_prefix (buf @ more) max_length = parse_prefix buf max_length"
  using assms
  by (auto simp: parse_prefix_def nth_append_prefix address_length_append parse_source_append
      split: if_splits)

lemma parse_total [no_panic]: "parse buf max_length \<noteq> None"
proof (cases "length buf < 16 + address_length buf")
  case True
  then show ?thesis
    by (simp add: parse_eq parse_prefix_def)
next
  case False
  then obtain source where
    "parse_source buf (buf ! 12 AND 0x0f) (buf ! 13) (address_length buf) = Some source"
    using parse_source_total [of "address_length buf" buf] by fastforce
  with False show ?thesis
    by (simp add: parse_eq parse_prefix_def)
qed

section \<open>Parsers called on a growing buffer\<close>

text \<open>
  The contract between the header parser and the loop that reads more input while the
  parser is undecided: a verdict never changes with more input.
\<close>

locale incremental_parser =
  fixes parser :: "bytes \<Rightarrow> 'r"
    and undecided :: "'r \<Rightarrow> bool"
    and same_verdict :: "'r \<Rightarrow> 'r \<Rightarrow> bool"
  assumes still_decided: "\<not> undecided (parser buf) \<Longrightarrow> \<not> undecided (parser (buf @ more))"
    and same_verdict: "\<not> undecided (parser buf) \<Longrightarrow> same_verdict (parser buf) (parser (buf @ more))"
begin

lemma undecided_shorter: "undecided (parser (buf @ more)) \<Longrightarrow> undecided (parser buf)"
  using still_decided by blast

text \<open>
  Reading piece by piece until the parser decides: the loop stops, and with the verdict
  the whole input would have got.
\<close>

lemma reads_decide:
  "\<not> undecided (parser (buf @ concat chunks)) \<Longrightarrow>
   \<exists>now later. chunks = now @ later \<and> \<not> undecided (parser (buf @ concat now))
     \<and> (\<forall>k < length now. undecided (parser (buf @ concat (take k now))))
     \<and> same_verdict (parser (buf @ concat now)) (parser (buf @ concat chunks))"
proof (induction chunks arbitrary: buf)
  case Nil
  then have "same_verdict (parser buf) (parser (buf @ []))"
    by (intro same_verdict) simp
  with Nil show ?case by simp
next
  case (Cons c cs)
  show ?case
  proof (cases "undecided (parser buf)")
    case False
    then have "same_verdict (parser buf) (parser (buf @ concat (c # cs)))"
      by (rule same_verdict)
    with False show ?thesis
      by (intro exI [of _ "[]"] exI [of _ "c # cs"]) simp
  next
    case True
    from Cons.IH [of "buf @ c"] Cons.prems obtain now later where
      IH: "cs = now @ later" "\<not> undecided (parser ((buf @ c) @ concat now))"
        "\<forall>k < length now. undecided (parser ((buf @ c) @ concat (take k now)))"
        "same_verdict (parser ((buf @ c) @ concat now)) (parser ((buf @ c) @ concat cs))"
      by auto
    have "undecided (parser (buf @ concat (take k (c # now))))" if "k < length (c # now)" for k
      using that True IH(3) by (cases k) simp_all
    with IH show ?thesis
      by (intro exI [of _ "c # now"] exI [of _ later]) simp
  qed
qed

end

text \<open>
  The header parser meets it: a complete header stays what it is, and a rejected buffer
  stays rejected. (The reason of a rejection may change: \<open>P\<close> alone is taken for a version 1
  header, \<open>PX\<close> for a wrong signature.)
\<close>

definition parse_undecided :: "(ProxyError + ProxyHeader) option \<Rightarrow> bool" where
  "parse_undecided r \<longleftrightarrow> r = Some (Inr Incomplete)"

definition parse_same_verdict ::
  "(ProxyError + ProxyHeader) option \<Rightarrow> (ProxyError + ProxyHeader) option \<Rightarrow> bool" where
  "parse_same_verdict r r' =
     (case r of Some (Inl e) \<Rightarrow> (case r' of Some (Inl e') \<Rightarrow> True | _ \<Rightarrow> False) | _ \<Rightarrow> r' = r)"

lemma parse_append_verdict:
  assumes "parse buf max_length \<noteq> Some (Inr Incomplete)"
  shows "parse_same_verdict (parse buf max_length) (parse (buf @ more) max_length)"
proof -
  have ne: "buf \<noteq> []"
    using assms by (auto simp: parse_eq)
  show ?thesis
  proof (cases "like_v2 buf")
    case False
    then have "\<not> like_v2 (buf @ more)"
      using like_v2_shorter by blast
    with False ne show ?thesis
      by (auto simp: parse_eq parse_same_verdict_def)
  next
    case True
    then have v1: "\<not> like_v1 buf"
      using like_v1_not_v2 ne by blast
    with True ne assms have len: "16 \<le> length buf"
        and undec: "parse_prefix buf max_length \<noteq> Some (Inr Incomplete)"
      by (auto simp: parse_eq split: if_splits)
    then have v2: "like_v2 (buf @ more)"
      using True like_v2_append by simp
    moreover from v2 ne have "\<not> like_v1 (buf @ more)"
      using like_v1_not_v2 by blast
    ultimately have "parse (buf @ more) max_length = parse buf max_length"
      using ne v1 True len parse_prefix_append [OF len undec] by (simp add: parse_eq)
    then show ?thesis
      by (simp add: parse_same_verdict_def split: option.splits sum.splits)
  qed
qed

interpretation header: incremental_parser "\<lambda>buf. parse buf max_length" parse_undecided parse_same_verdict
proof
  fix buf more
  assume "\<not> parse_undecided (parse buf max_length)"
  then have "parse_same_verdict (parse buf max_length) (parse (buf @ more) max_length)"
      and "parse buf max_length \<noteq> Some (Inr Incomplete)"
    by (auto simp: parse_undecided_def intro: parse_append_verdict)
  then show "parse_same_verdict (parse buf max_length) (parse (buf @ more) max_length)"
      and "\<not> parse_undecided (parse (buf @ more) max_length)"
    by (auto simp: parse_undecided_def parse_same_verdict_def split: option.splits sum.splits)
qed

end
