(* ===== verification/Std_Net.thy ===== *)
theory Std_Net
  imports Http_Types Proxy
begin

text \<open>
  The addresses of \<open>std::net\<close> as the sources print and read them: \<open>to_string\<close> of an \<open>IpAddr\<close>
  (the peer of a message) and of a \<open>SocketAddr\<close> (an error message), and \<open>str::parse\<close> at
  \<open>SocketAddr\<close> (the bind addresses of the configuration).

  A reader takes the text from where it stands and returns what it read with the rest, or
  \<open>None\<close>; a reader that fails has consumed nothing (\<open>read_atomically\<close>). The main results:
  whatever address is printed, reading the text gives that address back.
\<close>

datatype SocketAddr = SocketAddrV4 bytes u16 | SocketAddrV6 bytes u16 u32 u32

section \<open>Printing\<close>

definition digit_char :: "nat \<Rightarrow> char" where
  "digit_char d = char_of (if d < 10 then 48 + d else 87 + d)"

text \<open>\<open>{:x}\<close>, and any other radix.\<close>

fun radix_text :: "nat \<Rightarrow> nat \<Rightarrow> string" where
  "radix_text r n =
     (if r < 2 \<or> n < r then [digit_char n] else radix_text r (n div r) @ [digit_char (n mod r)])"

declare radix_text.simps [simp del]

fun dotted :: "bytes \<Rightarrow> string" where
  "dotted [] = []"
| "dotted [b] = to_string (unat b)"
| "dotted (b # bs) = to_string (unat b) @ ''.'' @ dotted bs"

text \<open>The eight segments of an IPv6 address.\<close>

fun segments :: "bytes \<Rightarrow> u16 list" where
  "segments (a # b # bs) = u16_from_be a b # segments bs"
| "segments _ = []"

text \<open>The first of the longest runs of zero segments: its start and its length.\<close>

fun zero_run :: "nat \<Rightarrow> nat \<times> nat \<Rightarrow> nat \<times> nat \<Rightarrow> u16 list \<Rightarrow> nat \<times> nat" where
  "zero_run i current longest [] = longest"
| "zero_run i current longest (s # ss) =
     (if s = 0 then
        let current = (if snd current = 0 then i else fst current, snd current + 1) in
        zero_run (i + 1) current (if snd current > snd longest then current else longest) ss
      else zero_run (i + 1) (0, 0) longest ss)"

fun more_segments :: "u16 list \<Rightarrow> string" where
  "more_segments [] = []"
| "more_segments (s # ss) = '':'' @ radix_text 16 (unat s) @ more_segments ss"

fun fmt_subslice :: "u16 list \<Rightarrow> string" where
  "fmt_subslice [] = []"
| "fmt_subslice (s # ss) = radix_text 16 (unat s) @ more_segments ss"

definition to_ipv4_mapped :: "bytes \<Rightarrow> bytes option" where
  "to_ipv4_mapped bs = (if take 12 bs = replicate 10 0 @ [0xff, 0xff] then Some (drop 12 bs) else None)"

definition ipv6_text :: "bytes \<Rightarrow> string" where
  "ipv6_text bs =
     (case to_ipv4_mapped bs of
        Some ipv4 \<Rightarrow> ''::ffff:'' @ dotted ipv4
      | None \<Rightarrow>
          (case zero_run 0 (0, 0) (0, 0) (segments bs) of (start, len) \<Rightarrow>
             if len > 1
             then fmt_subslice (take start (segments bs)) @ ''::'' @ fmt_subslice (drop (start + len) (segments bs))
             else fmt_subslice (segments bs)))"

fun IpAddr_to_string :: "IpAddr \<Rightarrow> string" where
  "IpAddr_to_string (V4 bs) = dotted bs"
| "IpAddr_to_string (V6 bs) = ipv6_text bs"

fun SocketAddr_to_string :: "SocketAddr \<Rightarrow> string" where
  "SocketAddr_to_string (SocketAddrV4 ip port) = dotted ip @ '':'' @ to_string (unat port)"
| "SocketAddr_to_string (SocketAddrV6 ip port flowinfo scope_id) =
     ''['' @ ipv6_text ip @ (if scope_id = 0 then [] else ''%'' @ to_string (unat scope_id)) @ '']:''
     @ to_string (unat port)"

fun SocketAddr_ip :: "SocketAddr \<Rightarrow> IpAddr" where
  "SocketAddr_ip (SocketAddrV4 ip port) = V4 ip"
| "SocketAddr_ip (SocketAddrV6 ip port flowinfo scope_id) = V6 ip"

section \<open>Reading\<close>

definition to_digit :: "nat \<Rightarrow> char \<Rightarrow> nat option" where
  "to_digit radix c =
     (let n = of_char c;
          d = (if 48 \<le> n \<and> n \<le> 57 then n - 48 else if 97 \<le> n \<and> n \<le> 122 then n - 87
               else if 65 \<le> n \<and> n \<le> 90 then n - 55 else 36)
      in if d < radix then Some d else None)"

text \<open>
  The digits of a number whose type has the largest value \<open>m\<close>: with a limit on their number, or
  with checked arithmetic.
\<close>

fun digit_loop :: "nat \<Rightarrow> nat option \<Rightarrow> nat \<Rightarrow> nat \<Rightarrow> nat \<Rightarrow> string \<Rightarrow> (nat \<times> nat \<times> string) option" where
  "digit_loop radix max_digits m result digit_count [] = Some (result, digit_count, [])"
| "digit_loop radix max_digits m result digit_count (c # p) =
     (case to_digit radix c of
        None \<Rightarrow> Some (result, digit_count, c # p)
      | Some digit \<Rightarrow>
          if (case max_digits of Some k \<Rightarrow> digit_count + 1 > k | None \<Rightarrow> result * radix + digit > m) then None
          else digit_loop radix max_digits m (result * radix + digit) (digit_count + 1) p)"

definition read_number :: "nat \<Rightarrow> nat option \<Rightarrow> bool \<Rightarrow> nat \<Rightarrow> string \<Rightarrow> (nat \<times> string) option" where
  "read_number radix max_digits allow_zero_prefix m p =
     (case digit_loop radix max_digits m 0 0 p of
        None \<Rightarrow> None
      | Some (result, digit_count, p') \<Rightarrow>
          if digit_count = 0 then None
          else if \<not> allow_zero_prefix \<and> hd p = CHR ''0'' \<and> digit_count > 1 then None
          else if result > m then None
          else Some (result, p'))"

fun read_given_char :: "char \<Rightarrow> string \<Rightarrow> string option" where
  "read_given_char target [] = None"
| "read_given_char target (c # p) = (if c = target then Some p else None)"

definition read_separator :: "char \<Rightarrow> nat \<Rightarrow> (string \<Rightarrow> 'a option) \<Rightarrow> string \<Rightarrow> 'a option" where
  "read_separator sep i inner p = do {
     p' \<leftarrow> (if i > 0 then read_given_char sep p else Some p);
     inner p'
   }"

fun read_octets :: "nat \<Rightarrow> nat \<Rightarrow> string \<Rightarrow> (bytes \<times> string) option" where
  "read_octets 0 i p = Some ([], p)"
| "read_octets (Suc n) i p = do {
     (octet, p') \<leftarrow> read_separator (CHR ''.'') i (read_number 10 (Some 3) False 255) p;
     (octets, p'') \<leftarrow> read_octets n (i + 1) p';
     Some (of_nat octet # octets, p'')
   }"

definition read_ipv4_addr :: "string \<Rightarrow> (bytes \<times> string) option" where
  "read_ipv4_addr p = read_octets 4 0 p"

text \<open>Up to \<open>n\<close> further segments, the first with index \<open>i\<close>, and whether an IPv4 address came last.\<close>

fun read_groups :: "nat \<Rightarrow> nat \<Rightarrow> string \<Rightarrow> u16 list \<times> bool \<times> string" where
  "read_groups 0 i p = ([], False, p)"
| "read_groups (Suc n) i p =
     (case (if n > 0 then read_separator (CHR '':'') i read_ipv4_addr p else None) of
        Some (octets, p') \<Rightarrow> (segments octets, True, p')
      | None \<Rightarrow>
          (case read_separator (CHR '':'') i (read_number 16 (Some 4) True 65535) p of
             Some (g, p') \<Rightarrow>
               (case read_groups n (i + 1) p' of (gs, v4, p'') \<Rightarrow> (of_nat g # gs, v4, p''))
           | None \<Rightarrow> ([], False, p)))"

definition read_ipv6_addr :: "string \<Rightarrow> (bytes \<times> string) option" where
  "read_ipv6_addr p =
     (case read_groups 8 0 p of (head, head_ipv4, p1) \<Rightarrow>
        if length head = 8 then Some (concat (map u16_to_be head), p1)
        else if head_ipv4 then None
        else do {
          p2 \<leftarrow> read_given_char (CHR '':'') p1;
          p3 \<leftarrow> read_given_char (CHR '':'') p2;
          case read_groups (8 - (length head + 1)) 0 p3 of (tail, _, p4) \<Rightarrow>
            Some (concat (map u16_to_be (head @ replicate (8 - length head - length tail) 0 @ tail)), p4)
        })"

definition read_port :: "string \<Rightarrow> (u16 \<times> string) option" where
  "read_port p = do {
     p' \<leftarrow> read_given_char (CHR '':'') p;
     (port, p'') \<leftarrow> read_number 10 None True 65535 p';
     Some (of_nat port, p'')
   }"

definition read_scope_id :: "string \<Rightarrow> (u32 \<times> string) option" where
  "read_scope_id p = do {
     p' \<leftarrow> read_given_char (CHR ''%'') p;
     (n, p'') \<leftarrow> read_number 10 None True (2 ^ 32 - 1) p';
     Some (of_nat n, p'')
   }"

definition read_socket_addr_v4 :: "string \<Rightarrow> (SocketAddr \<times> string) option" where
  "read_socket_addr_v4 p = do {
     (ip, p') \<leftarrow> read_ipv4_addr p;
     (port, p'') \<leftarrow> read_port p';
     Some (SocketAddrV4 ip port, p'')
   }"

definition read_socket_addr_v6 :: "string \<Rightarrow> (SocketAddr \<times> string) option" where
  "read_socket_addr_v6 p = do {
     p1 \<leftarrow> read_given_char (CHR ''['') p;
     (ip, p2) \<leftarrow> read_ipv6_addr p1;
     (scope_id, p3) \<leftarrow> (case read_scope_id p2 of Some r \<Rightarrow> Some r | None \<Rightarrow> Some (0, p2));
     p4 \<leftarrow> read_given_char (CHR '']'') p3;
     (port, p5) \<leftarrow> read_port p4;
     Some (SocketAddrV6 ip port 0 scope_id, p5)
   }"

definition read_socket_addr :: "string \<Rightarrow> (SocketAddr \<times> string) option" where
  "read_socket_addr p = (case read_socket_addr_v4 p of Some r \<Rightarrow> Some r | None \<Rightarrow> read_socket_addr_v6 p)"

definition SocketAddr_parse :: "string \<Rightarrow> string + SocketAddr" where
  "SocketAddr_parse s =
     (case read_socket_addr s of
        Some (address, []) \<Rightarrow> Inr address
      | _ \<Rightarrow> Inl ''invalid socket address syntax'')"

section \<open>A printed number is read back\<close>

text \<open>Where a number ends.\<close>

definition stops :: "nat \<Rightarrow> string \<Rightarrow> bool" where
  "stops radix p \<longleftrightarrow> p = [] \<or> to_digit radix (hd p) = None"

lemma to_digit_digit_char: "d < r \<Longrightarrow> r \<le> 16 \<Longrightarrow> to_digit r (digit_char d) = Some d"
  by (auto simp: to_digit_def digit_char_def)

lemma of_char_digit_char: "d < 16 \<Longrightarrow> of_char (digit_char d) = (if d < 10 then 48 + d else 87 + d)"
  by (simp add: digit_char_def)

lemma digit_char_zero: "d < 16 \<Longrightarrow> digit_char d = CHR ''0'' \<longleftrightarrow> d = 0"
  using of_char_eq_iff [of "digit_char d" "CHR ''0''", where 'a = nat]
  by (auto simp: of_char_digit_char split: if_splits)

lemma digit_loop_text:
  assumes "2 \<le> r" "r \<le> 16"
  shows "(case md of Some k \<Rightarrow> length (radix_text r n) \<le> k | None \<Rightarrow> n \<le> m) \<Longrightarrow>
    digit_loop r md m 0 0 (radix_text r n @ p) = digit_loop r md m n (length (radix_text r n)) p"
proof (induction n arbitrary: p rule: less_induct)
  case (less n)
  show ?case
  proof (cases "n < r")
    case True
    with less.prems assms show ?thesis
      by (auto simp: radix_text.simps [of r n] to_digit_digit_char split: option.splits)
  next
    case False
    then have step: "radix_text r n = radix_text r (n div r) @ [digit_char (n mod r)]"
      using assms by (simp add: radix_text.simps [of r n])
    have "n div r < n" "n div r \<le> n" "n mod r < r" "n div r * r + n mod r = n"
      using False assms by simp_all
    with less.prems less.IH [of "n div r" "digit_char (n mod r) # p"] assms show ?thesis
      by (auto simp: step to_digit_digit_char split: option.splits)
  qed
qed

lemma length_radix_text: "2 \<le> r \<Longrightarrow> n < r ^ Suc k \<Longrightarrow> length (radix_text r n) \<le> Suc k"
proof (induction k arbitrary: n)
  case 0
  then show ?case by (simp add: radix_text.simps [of r n])
next
  case (Suc k)
  then have "n div r < r ^ Suc k"
    by (intro less_mult_imp_div_less) (simp add: mult.commute)
  with Suc show ?case
    by (simp add: radix_text.simps [of r n])
qed

lemma radix_text_nonempty [simp]: "radix_text r n \<noteq> []"
  by (subst radix_text.simps) simp

lemma hd_radix_text: "2 \<le> r \<Longrightarrow> r \<le> 16 \<Longrightarrow> 0 < n \<Longrightarrow> hd (radix_text r n) \<noteq> CHR ''0''"
proof (induction n rule: less_induct)
  case (less n)
  show ?case
  proof (cases "n < r")
    case True
    with less.prems show ?thesis
      by (simp add: radix_text.simps [of r n] digit_char_zero)
  next
    case False
    with less.prems have "n div r < n" "0 < n div r"
      by (simp_all add: div_greater_zero_iff)
    with less False show ?thesis
      by (simp add: radix_text.simps [of r n])
  qed
qed

lemma read_number_text:
  assumes "2 \<le> r" "r \<le> 16" "n \<le> m" "stops r p"
    and "case md of Some k \<Rightarrow> length (radix_text r n) \<le> k | None \<Rightarrow> True"
  shows "read_number r md allow m (radix_text r n @ p) = Some (n, p)"
proof -
  have "digit_loop r md m 0 0 (radix_text r n @ p) = Some (n, length (radix_text r n), p)"
    using digit_loop_text [OF assms(1,2), where md = md and n = n and m = m and p = p] assms(3-5)
    by (cases p) (auto simp: stops_def split: option.splits)
  moreover have "length (radix_text r n) > 1 \<Longrightarrow> hd (radix_text r n) \<noteq> CHR ''0''"
    using hd_radix_text [OF assms(1,2), of n] assms(1) by (cases "n = 0") (simp_all add: radix_text.simps [of r 0])
  ultimately show ?thesis
    using assms(3) by (auto simp: read_number_def)
qed

lemma read_number_none: "stops r p \<Longrightarrow> read_number r md allow m p = None"
  by (cases p) (auto simp: read_number_def stops_def)

lemma to_string_radix: "to_string n = radix_text 10 n"
proof (induction n rule: less_induct)
  case (less n)
  have digit: "char_of (unat (digit_byte d)) = digit_char d" if "d < 10" for d
    using that by (simp add: unat_digit_byte digit_char_def)
  show ?case
  proof (cases "n < 10")
    case True
    then show ?thesis
      by (simp add: to_string_def decimal.simps [of n] radix_text.simps [of 10 n] digit)
  next
    case False
    with less.IH [of "n div 10"] show ?thesis
      by (simp add: to_string_def decimal.simps [of n] radix_text.simps [of 10 n] digit)
  qed
qed

section \<open>A printed address is read back\<close>

lemma read_separator_simps [simp]:
  "read_separator sep 0 inner p = inner p"
  "read_separator sep (Suc i) inner (sep # p) = inner p"
  "c \<noteq> sep \<Longrightarrow> read_separator sep (Suc i) inner (c # p) = None"
  "read_separator sep (Suc i) inner [] = None"
  by (simp_all add: read_separator_def)

lemma stops_simps [simp]:
  "stops r []" "r \<le> 16 \<Longrightarrow> stops r (CHR ''.'' # p)" "r \<le> 16 \<Longrightarrow> stops r (CHR '':'' # p)"
  "r \<le> 16 \<Longrightarrow> stops r (CHR '']'' # p)" "r \<le> 16 \<Longrightarrow> stops r (CHR ''%'' # p)"
  "r \<le> 16 \<Longrightarrow> stops r (CHR ''['' # p)"
  by (simp_all add: stops_def to_digit_def)

lemma unat_u16_le: "unat (w :: u16) \<le> 65535"
proof -
  have "unat w < 65536"
    using unsigned_less [of w] by simp
  then show ?thesis by simp
qed

lemma read_ipv4_unfold: "read_ipv4_addr p = read_octets (Suc (Suc (Suc (Suc 0)))) 0 p"
  by (simp add: read_ipv4_addr_def eval_nat_numeral)

lemma read_octet:
  assumes "stops 10 p"
  shows "read_number 10 (Some 3) False 255 (to_string (unat (b :: u8)) @ p) = Some (unat b, p)"
proof -
  have "unat b < 256"
    by (rule unat_less_256)
  then show ?thesis
    using length_radix_text [of 10 "unat b" 2] assms
    by (simp add: to_string_radix read_number_text)
qed

lemma read_group:
  assumes "stops 16 p"
  shows "read_number 16 (Some 4) True 65535 (radix_text 16 (unat (w :: u16)) @ p) = Some (unat w, p)"
  using length_radix_text [of 16 "unat w" 3] unat_u16_le [of w] assms by (simp add: read_number_text)

lemma read_dotted:
  assumes "stops 10 p" and "length ip = 4"
  shows "read_ipv4_addr (dotted ip @ p) = Some (ip, p)"
proof -
  obtain a b c d where "ip = [a, b, c, d]"
    using assms(2) by (auto simp: numeral_eq_Suc length_Suc_conv)
  with assms(1) show ?thesis
    by (simp add: read_ipv4_unfold read_octet)
qed

text \<open>A text that has no dot after its leading digits is not taken for an IPv4 address.\<close>

lemma digit_loop_rest:
  "digit_loop r md m result count p = Some (v, k, p') \<Longrightarrow> p' = dropWhile (\<lambda>c. to_digit r c \<noteq> None) p"
  by (induction r md m result count p rule: digit_loop.induct) (auto split: option.splits if_splits)

lemma read_ipv4_none:
  assumes "CHR ''.'' \<notin> set s" and "p = [] \<or> hd p \<noteq> CHR ''.'' \<and> stops 10 p"
  shows "read_ipv4_addr (s @ p) = None"
proof -
  let ?digit = "\<lambda>c. to_digit 10 c \<noteq> None"
  have "dropWhile ?digit (s @ p) = [] \<or> hd (dropWhile ?digit (s @ p)) \<noteq> CHR ''.''"
    using assms by (induction s) (cases p, auto simp: stops_def)
  moreover have "p' = dropWhile ?digit (s @ p)"
    if "read_number 10 (Some 3) False 255 (s @ p) = Some (v, p')" for v p'
    using that by (auto simp: read_number_def split: option.splits if_splits dest: digit_loop_rest)
  ultimately have "p' = [] \<or> hd p' \<noteq> CHR ''.''"
    if "read_number 10 (Some 3) False 255 (s @ p) = Some (v, p')" for v p'
    using that by blast
  then have "read_octets (Suc (Suc (Suc 0))) (Suc 0) p' = None"
    if "read_number 10 (Some 3) False 255 (s @ p) = Some (v, p')" for v p'
    using that by (cases p') fastforce+
  then show ?thesis
    by (subst read_ipv4_unfold, subst read_octets.simps) (auto split: bind_splits)
qed

lemma radix_text_chars: "r \<le> 16 \<Longrightarrow> 2 \<le> r \<Longrightarrow> c \<in> set (radix_text r n) \<Longrightarrow> to_digit r c \<noteq> None"
proof (induction n rule: less_induct)
  case (less n)
  show ?case
  proof (cases "n < r")
    case True
    with less.prems show ?thesis
      by (simp add: radix_text.simps [of r n] to_digit_digit_char)
  next
    case False
    with less.prems have "c \<in> set (radix_text r (n div r)) \<or> c = digit_char (n mod r)" "n div r < n" "n mod r < r"
      by (auto simp: radix_text.simps [of r n])
    with less show ?thesis
      by (auto simp: to_digit_digit_char)
  qed
qed

lemma no_dot: "CHR ''.'' \<notin> set (radix_text 16 n)"
  using radix_text_chars [of 16 "CHR ''.''" n] by (auto simp: to_digit_def)

text \<open>What may follow the segments of an address: nothing, the end of the brackets, or \<open>::\<close>.\<close>

definition ends_groups :: "string \<Rightarrow> bool" where
  "ends_groups p \<longleftrightarrow> p = [] \<or> hd p = CHR '']'' \<or> hd p = CHR ''%'' \<or> take 2 p = ''::''"

lemma ends_groups_cases [consumes 1]:
  assumes "ends_groups p"
  obtains "p = []" | q where "p = CHR '']'' # q" | q where "p = CHR ''%'' # q" | q where "p = '':'' @ '':'' @ q"
  using assms by (cases p; cases "tl p") (auto simp: ends_groups_def)

lemma ends_groups_stops: "ends_groups p \<Longrightarrow> r \<le> 16 \<Longrightarrow> stops r p"
  by (cases rule: ends_groups_cases) auto

lemma read_groups_end: "ends_groups p \<Longrightarrow> read_groups n i p = ([], False, p)"
proof (cases n)
  case (Suc n')
  assume "ends_groups p"
  then show ?thesis
    using read_ipv4_none [of "[]" p] read_ipv4_none [of "[]" "tl p"]
    by (cases i; cases rule: ends_groups_cases) (auto simp: Suc read_number_none split: option.splits)
qed simp

lemma stops_more_segments: "ends_groups p \<Longrightarrow> stops 16 (more_segments ss @ p)"
  by (cases ss) (simp_all add: ends_groups_stops)

lemma read_ipv4_group:
  "ends_groups p \<Longrightarrow> read_ipv4_addr (radix_text 16 n @ more_segments ss @ p) = None"
  by (rule read_ipv4_none [OF no_dot])
    (cases ss; fastforce elim: ends_groups_cases intro: ends_groups_stops)

lemma read_groups_more:
  "ends_groups p \<Longrightarrow> length ss \<le> n \<Longrightarrow> read_groups n (Suc i) (more_segments ss @ p) = (ss, False, p)"
proof (induction ss arbitrary: n i)
  case Nil
  then show ?case by (simp add: read_groups_end)
next
  case (Cons s ss)
  then obtain n' where "n = Suc n'" "length ss \<le> n'"
    by (cases n) auto
  with Cons show ?case
    by (cases "n' = 0") (simp_all add: read_ipv4_group read_group stops_more_segments ends_groups_stops)
qed

lemma read_groups_fmt:
  assumes "ends_groups p" "length ss \<le> n"
  shows "read_groups n 0 (fmt_subslice ss @ p) = (ss, False, p)"
proof (cases ss)
  case Nil
  with assms(1) show ?thesis by (simp add: read_groups_end)
next
  case (Cons s ss')
  with assms(2) obtain n' where "n = Suc n'" "length ss' \<le> n'"
    by (cases n) auto
  with Cons assms(1) show ?thesis
    by (cases "n' = 0") (simp_all add: read_ipv4_group read_group stops_more_segments ends_groups_stops read_groups_more)
qed

text \<open>The run that is left out consists of zeros.\<close>

definition zeros_at :: "nat \<times> nat \<Rightarrow> u16 list \<Rightarrow> bool" where
  "zeros_at run ss \<longleftrightarrow> (\<exists>u v. ss = u @ replicate (snd run) 0 @ v \<and> (snd run > 0 \<longrightarrow> length u = fst run))"

lemma zeros_at_append: "zeros_at run ss \<Longrightarrow> zeros_at run (ss @ ts)"
  unfolding zeros_at_def by (metis append.assoc)

definition ends_zeros :: "nat \<times> nat \<Rightarrow> u16 list \<Rightarrow> bool" where
  "ends_zeros run ss \<longleftrightarrow> (\<exists>u. ss = u @ replicate (snd run) 0 \<and> (snd run > 0 \<longrightarrow> length u = fst run))"

lemma ends_zeros_zeros_at: "ends_zeros run ss \<Longrightarrow> zeros_at run ss"
  by (auto simp: ends_zeros_def zeros_at_def intro: exI [of _ "[]"])

lemma ends_zeros_snoc:
  assumes "ends_zeros (start, len) ss"
  shows "ends_zeros (if len = 0 then length ss else start, len + 1) (ss @ [0])"
proof -
  obtain u where "ss = u @ replicate len 0" "len > 0 \<longrightarrow> length u = start"
    using assms by (auto simp: ends_zeros_def)
  then have "ss @ [0] = u @ replicate (len + 1) 0" "length u = (if len = 0 then length ss else start)"
    by (simp_all add: replicate_append_same)
  then show ?thesis
    unfolding ends_zeros_def by (intro exI [of _ u]) simp
qed

lemma zero_run_zeros:
  "zeros_at longest pre \<Longrightarrow> ends_zeros current pre \<Longrightarrow>
   zeros_at (zero_run (length pre) current longest ss) (pre @ ss)"
proof (induction ss arbitrary: pre current longest)
  case (Cons s ss)
  show ?case
  proof (cases "s = 0")
    case True
    obtain start len where current: "current = (start, len)"
      by (cases current)
    let ?current = "(if len = 0 then length pre else start, len + 1)"
    have run: "ends_zeros ?current (pre @ [0])"
      using Cons.prems(2) unfolding current by (rule ends_zeros_snoc)
    then have "zeros_at (if len + 1 > snd longest then ?current else longest) (pre @ [0])"
      using ends_zeros_zeros_at [OF run] zeros_at_append [OF Cons.prems(1)] by (simp only: split: if_split) blast
    from Cons.IH [OF this run] show ?thesis
      by (cases "len = 0"; cases "len + 1 > snd longest") (simp_all add: True current Let_def)
  next
    case False
    have "ends_zeros (0, 0) (pre @ [s])"
      by (simp add: ends_zeros_def)
    from Cons.IH [OF zeros_at_append [OF Cons.prems(1)] this] False show ?thesis
      by simp
  qed
qed simp

lemma zero_run_split:
  assumes "zero_run 0 (0, 0) (0, 0) ss = (start, len)" and "len > 0"
  shows "ss = take start ss @ replicate len 0 @ drop (start + len) ss" and "start + len \<le> length ss"
proof -
  have "zeros_at (start, len) ss"
    using zero_run_zeros [of "(0, 0)" "[]" "(0, 0)" ss] assms(1) by (simp add: zeros_at_def ends_zeros_def)
  then obtain u v where "ss = u @ replicate len 0 @ v" "length u = start"
    using assms(2) by (auto simp: zeros_at_def)
  then show "ss = take start ss @ replicate len 0 @ drop (start + len) ss" and "start + len \<le> length ss"
    by simp_all
qed

text \<open>The segments hold the bytes.\<close>

lemma u16_to_from_be: "u16_to_be (u16_from_be a b) = [a, b]"
proof -
  have "(unat a * 256 + unat b) div 256 = unat a"
    using unat_less_256 [of b] by simp
  moreover have "(of_nat (unat a * 256 + unat b) :: u8) = b"
    by (rule word_unat_eq_iff [THEN iffD2]) (simp only: unat_of_nat_u8, simp add: unat_less_256)
  ultimately show ?thesis
    by (simp only: u16_to_be_def unat_u16_from_be) simp
qed

lemma segments_bytes: "even (length bs) \<Longrightarrow> concat (map u16_to_be (segments bs)) = bs"
  by (induction bs rule: segments.induct) (simp_all add: u16_to_from_be)

lemma length_segments: "length (segments bs) = length bs div 2"
  by (induction bs rule: segments.induct) simp_all

lemma read_mapped:
  assumes "stops 10 p" and "length ipv4 = 4"
  shows "read_groups (Suc (Suc (Suc n))) 0 (''ffff:'' @ dotted ipv4 @ p) = (0xffff # segments ipv4, True, p)"
proof -
  have "read_ipv4_addr (''ffff'' @ '':'' @ dotted ipv4 @ p) = None"
    by (rule read_ipv4_none) simp_all
  moreover have "read_number 16 (Some 4) True 65535 (radix_text 16 (unat (0xffff :: u16)) @ '':'' @ dotted ipv4 @ p)
      = Some (unat (0xffff :: u16), '':'' @ dotted ipv4 @ p)"
    by (rule read_group) simp
  moreover have "radix_text 16 65535 = ''ffff''"
    by (simp add: radix_text.simps digit_char_def) code_simp
  ultimately show ?thesis
    using read_dotted [OF assms] by simp
qed

lemma read_ipv6_text:
  assumes "length ip = 16" and "p = [] \<or> hd p = CHR '']'' \<or> hd p = CHR ''%''"
  shows "read_ipv6_addr (ipv6_text ip @ p) = Some (ip, p)"
proof (cases "to_ipv4_mapped ip")
  case None
  obtain start len where run: "zero_run 0 (0, 0) (0, 0) (segments ip) = (start, len)"
    by fastforce
  define ss where "ss = segments ip"
  have ss: "length ss = 8" "concat (map u16_to_be ss) = ip"
    using assms(1) by (simp_all add: ss_def length_segments segments_bytes)
  have p: "ends_groups p"
    using assms(2) by (auto simp: ends_groups_def)
  show ?thesis
  proof (cases "len > 1")
    case True
    then have split: "ss = take start ss @ replicate len 0 @ drop (start + len) ss" "start + len \<le> 8"
      using zero_run_split [of ss start len] run ss(1) by (simp_all flip: ss_def)
    have "read_groups 8 0 (fmt_subslice (take start ss) @ ''::'' @ fmt_subslice (drop (start + len) ss) @ p)
        = (take start ss, False, ''::'' @ fmt_subslice (drop (start + len) ss) @ p)"
      using ss(1) by (intro read_groups_fmt) (simp_all add: ends_groups_def)
    moreover have "read_groups (8 - (start + 1)) 0 (fmt_subslice (drop (start + len) ss) @ p)
        = (drop (start + len) ss, False, p)"
      using ss(1) True split(2) by (intro read_groups_fmt [OF p]) simp
    moreover have "8 - start - (8 - (start + len)) = len" "min 8 start = start" "start \<noteq> 8"
      using split(2) True by simp_all
    moreover have "concat (map u16_to_be (take start ss @ replicate len 0 @ drop (start + len) ss)) = ip"
      unfolding split(1) [symmetric] by (rule ss(2))
    ultimately show ?thesis
      using True run ss(1) None
      by (simp add: ipv6_text_def read_ipv6_addr_def flip: ss_def)
  next
    case False
    with None run ss p show ?thesis
      by (simp add: ipv6_text_def read_ipv6_addr_def read_groups_fmt flip: ss_def)
  qed
next
  case (Some ipv4)
  then have take: "take 12 ip = replicate 10 0 @ [0xff, 0xff]" and ipv4: "ipv4 = drop 12 ip" "length ipv4 = 4"
    using assms(1) by (auto simp: to_ipv4_mapped_def split: if_splits)
  then have ip: "ip = replicate 10 0 @ [0xff, 0xff] @ ipv4"
    by (metis append.assoc append_take_drop_id)
  obtain a b c d where abcd: "ipv4 = [a, b, c, d]"
    using ipv4(2) by (auto simp: numeral_eq_Suc length_Suc_conv)
  have p: "stops 10 p"
    using assms(2) by (cases p) auto
  have "read_groups 8 0 (''::'' @ ''ffff:'' @ dotted ipv4 @ p) = ([], False, ''::'' @ ''ffff:'' @ dotted ipv4 @ p)"
    by (rule read_groups_end) (simp add: ends_groups_def)
  moreover have "read_groups 7 0 (''ffff:'' @ dotted ipv4 @ p) = ([0xffff, u16_from_be a b, u16_from_be c d], True, p)"
    using read_mapped [OF p ipv4(2), of 4] abcd by simp
  moreover have "u16_to_be 0 = [0, 0]" "u16_to_be 0xffff = [0xff, 0xff]"
    by (simp_all add: u16_to_be_def)
  moreover have "concat (replicate 5 [0, 0]) = replicate 10 (0 :: u8)"
    by (simp add: numeral_eq_Suc)
  ultimately show ?thesis
    using Some abcd ip by (simp add: ipv6_text_def read_ipv6_addr_def u16_to_from_be)
qed

text \<open>The addresses there are: four or sixteen octets. What is read has no flow information.\<close>

fun ip_wf :: "IpAddr \<Rightarrow> bool" where
  "ip_wf (V4 ip) \<longleftrightarrow> length ip = 4"
| "ip_wf (V6 ip) \<longleftrightarrow> length ip = 16"

fun readable :: "SocketAddr \<Rightarrow> bool" where
  "readable (SocketAddrV4 ip port) \<longleftrightarrow> length ip = 4"
| "readable (SocketAddrV6 ip port flowinfo scope_id) \<longleftrightarrow> length ip = 16 \<and> flowinfo = 0"

lemma read_port_text: "read_port (CHR '':'' # to_string (unat port)) = Some (port, [])"
  using read_number_text [of 10 "unat port" 65535 "[]" None True] unat_u16_le [of port]
  by (simp add: read_port_def to_string_radix)

lemma read_scope_text:
  "read_scope_id (CHR ''%'' # to_string (unat scope_id) @ CHR '']'' # p) = Some (scope_id, CHR '']'' # p)"
proof -
  have "unat scope_id < 2 ^ 32"
    using unsigned_less [of scope_id] by simp
  then show ?thesis
    using read_number_text [of 10 "unat scope_id" "2 ^ 32 - 1" "CHR '']'' # p" None True]
    by (simp add: read_scope_id_def to_string_radix)
qed

lemma SocketAddr_parse_to_string: "readable a \<Longrightarrow> SocketAddr_parse (SocketAddr_to_string a) = Inr a"
proof (cases a)
  case (SocketAddrV4 ip port)
  assume "readable a"
  with SocketAddrV4 show ?thesis
    by (simp add: SocketAddr_parse_def read_socket_addr_def read_socket_addr_v4_def read_dotted read_port_text)
next
  case (SocketAddrV6 ip port flowinfo scope_id)
  assume "readable a"
  with SocketAddrV6 have ip: "length ip = 16" "flowinfo = 0"
    by simp_all
  have "read_ipv4_addr (CHR ''['' # p) = None" for p
    using read_ipv4_none [of "[]" "CHR ''['' # p"] by simp
  moreover have "read_scope_id (CHR '']'' # p) = None" for p
    by (simp add: read_scope_id_def)
  ultimately show ?thesis
    using ip SocketAddrV6
    by (simp add: SocketAddr_parse_def read_socket_addr_def read_socket_addr_v4_def read_socket_addr_v6_def
        read_ipv6_text read_scope_text read_port_text)
qed

lemma no_colon_dotted: "CHR '':'' \<notin> set (dotted ip)"
proof (induction ip rule: dotted.induct)
  case (2 b)
  show ?case
    using radix_text_chars [of 10 "CHR '':''" "unat b"] by (auto simp: to_string_radix to_digit_def)
next
  case (3 b v va)
  then show ?case
    using radix_text_chars [of 10 "CHR '':''" "unat b"] by (auto simp: to_string_radix to_digit_def)
qed simp

lemma colon_ipv6: "length ip = 16 \<Longrightarrow> CHR '':'' \<in> set (ipv6_text ip)"
proof -
  assume "length ip = 16"
  then have "length (segments ip) = 8"
    by (simp add: length_segments)
  then obtain s t ss where "segments ip = s # t # ss"
    by (cases "segments ip" rule: remdups_adj.cases) auto
  then have "CHR '':'' \<in> set (fmt_subslice (segments ip))"
    by simp
  moreover obtain start len where "zero_run 0 (0, 0) (0, 0) (segments ip) = (start, len)"
    by fastforce
  ultimately show ?thesis
    by (cases "to_ipv4_mapped ip") (simp_all add: ipv6_text_def)
qed

text \<open>The text of an address names it.\<close>

lemma IpAddr_to_string_inj:
  assumes "ip_wf a" "ip_wf b" and eq: "IpAddr_to_string a = IpAddr_to_string b"
  shows "a = b"
proof (cases a; cases b)
  fix x y assume "a = V4 x" "b = V4 y"
  with assms read_dotted [of "[]" x] read_dotted [of "[]" y] show ?thesis
    by simp
next
  fix x y assume "a = V6 x" "b = V6 y"
  with assms read_ipv6_text [of x "[]"] read_ipv6_text [of y "[]"] show ?thesis
    by simp
qed (use assms no_colon_dotted colon_ipv6 in \<open>metis IpAddr_to_string.simps ip_wf.simps(2)\<close>)+

end
