(* ===== verification/Messages.thy ===== *)
theory Messages
  imports Std_Net
begin

text \<open>
  What the syslog listeners and the Ruby workers pass between them: messages, deliveries and
  verdicts (\<open>syslog.rs\<close>). A one-shot channel is its identity, a number. \<open>peer\<close> is the
  address whose text the source stores.
\<close>

datatype Transport = Stream | Datagram

fun Transport_name :: "Transport \<Rightarrow> string" where
  "Transport_name Stream = ''stream''"
| "Transport_name Datagram = ''datagram''"

datatype HandlerResult = Accepted | Refused | Failed

record SyslogMessage =
  msg_bytes :: bytes
  utf8 :: bool
  peer :: "string option"
  transport :: Transport
  received_at_ns :: u64
  message_id :: u64
  attempt :: u32

text \<open>The Ruby string of a message: its bytes, tagged UTF-8 or binary.\<close>

definition message_text :: "SyslogMessage \<Rightarrow> bytes \<times> bool" where
  "message_text self = (if utf8 self then (msg_bytes self, True) else (msg_bytes self, False))"

definition SyslogMessage_transport_name :: "SyslogMessage \<Rightarrow> string" where
  "SyslogMessage_transport_name self = Transport_name (transport self)"

definition SyslogMessage_peer_ip :: "SyslogMessage \<Rightarrow> string option" where
  "SyslogMessage_peer_ip self = (case peer self of Some p \<Rightarrow> Some p | None \<Rightarrow> None)"

text \<open>The Ruby symbol, as its text.\<close>

definition SyslogMessage_transport :: "SyslogMessage \<Rightarrow> string" where
  "SyslogMessage_transport self = Transport_name (transport self)"

definition SyslogMessage_inspect :: "SyslogMessage \<Rightarrow> string" where
  "SyslogMessage_inspect self =
     ''#<HyperRuby::SyslogMessage transport=:'' @ Transport_name (transport self)
     @ '' bytes='' @ to_string (length (msg_bytes self))
     @ '' message_id='' @ to_string (unat (message_id self))
     @ '' attempt='' @ to_string (unat (attempt self)) @ ''>''"

record SyslogDelivery =
  message :: SyslogMessage
  result_tx :: nat

definition into_parts :: "SyslogDelivery \<Rightarrow> SyslogMessage \<times> nat" where
  "into_parts self = (message self, result_tx self)"

text \<open>\<open>try_send\<close> on one of the work queues.\<close>

datatype try_send = Sent | Full | SendDisconnected

text \<open>A framed message on its way to a worker; the permit it holds is counted by its owner.\<close>

record PendingMessage =
  pm_message :: bytes
  pm_utf8 :: bool
  pm_peer :: "string option"
  pm_transport :: Transport
  pm_received_at_ns :: u64
  pm_message_id :: u64

text \<open>
  A clock reading in nanoseconds since the epoch: a time before it gives 0, and the count is
  cut to 64 bits.
\<close>

definition nanos_since_epoch :: "int \<Rightarrow> u64" where
  "nanos_since_epoch t = (if t < 0 then 0 else of_int t)"

lemma nanos_since_epoch_exact: "0 \<le> t \<Longrightarrow> t < 2 ^ 64 \<Longrightarrow> uint (nanos_since_epoch t) = t"
  by (simp add: nanos_since_epoch_def uint_word_of_int)

text \<open>What a listener accepts: a connection with its address. A Unix socket names no peer.
  A TCP socket names the address of the other side, which is kept as its text.\<close>

datatype StreamListener = Unix_Stream | Tcp_Stream

fun StreamListener_accept :: "StreamListener \<Rightarrow> 'e + SocketAddr \<Rightarrow> 'e + string option" where
  "StreamListener_accept Unix_Stream accepted = map_sum id (\<lambda>_. None) accepted"
| "StreamListener_accept Tcp_Stream accepted = map_sum id (\<lambda>address. Some (IpAddr_to_string (SocketAddr_ip address))) accepted"

end
