(* ===== verification/Response_Body.thy ===== *)
theory Response_Body
  imports Http_Types
begin

text \<open>
  The response body of \<open>response.rs\<close>: a buffer sent as one frame, then optional trailers.
  \<open>poll_frame\<close> never waits, so a poll is a function from the body to the frame it yields and
  the body afterwards; \<open>None\<close> is the end of the stream.
\<close>

record 'hm BodyWithTrailers =
  data :: bytes
  data_sent :: bool
  trailers_sent :: bool
  trailers :: "'hm option"

definition BodyWithTrailers_new :: "bytes \<Rightarrow> 'hm option \<Rightarrow> 'hm BodyWithTrailers" where
  "BodyWithTrailers_new d t =
     \<lparr>data = d, data_sent = False, trailers_sent = False, trailers = t\<rparr>"

definition get_data :: "'hm BodyWithTrailers \<Rightarrow> bytes" where
  "get_data body = data body"

datatype 'hm Frame = Data bytes | Trailers 'hm

definition poll_frame :: "'hm BodyWithTrailers \<Rightarrow> 'hm Frame option \<times> 'hm BodyWithTrailers" where
  "poll_frame self =
     (if \<not> data_sent self \<and> data self \<noteq> []
      then (Some (Data (data self)), self\<lparr>data_sent := True\<rparr>)
      else if \<not> trailers_sent self
      then let self' = self\<lparr>trailers_sent := True\<rparr> in
           (case trailers self' of Some t \<Rightarrow> (Some (Trailers t), self') | None \<Rightarrow> (None, self'))
      else (None, self))"

text \<open>The frames of the first \<open>n\<close> polls, as a connection makes them: it stops at the end.\<close>

fun poll_frames :: "nat \<Rightarrow> 'hm BodyWithTrailers \<Rightarrow> 'hm Frame list \<times> 'hm BodyWithTrailers" where
  "poll_frames 0 self = ([], self)"
| "poll_frames (Suc n) self =
     (case poll_frame self of
        (None, self') \<Rightarrow> ([], self')
      | (Some f, self') \<Rightarrow> (let (fs, self'') = poll_frames n self' in (f # fs, self'')))"

text \<open>A response: the parts of \<open>hyper::Response\<close> the sources set, with this body.\<close>

record 'hm HyperResponse =
  response_status :: u16
  response_headers :: 'hm
  response_body :: "'hm BodyWithTrailers"

text \<open>\<open>builder.body(body)\<close>: the builder's parts with the body, or its error.\<close>

definition builder_body ::
  "('hm, 'b) http \<Rightarrow> 'b \<Rightarrow> 'hm BodyWithTrailers \<Rightarrow> 'hm HyperResponse option" where
  "builder_body H b body =
     map_option (\<lambda>(n, m). \<lparr>response_status = n, response_headers = m, response_body = body\<rparr>)
       (builder_parts H b)"

text \<open>The plain text answers the server makes itself.\<close>

lemma plain_response:
  assumes "http_ok H" and "100 \<le> n" and "n < 1000"
  shows "\<exists>r. builder_body H (builder_header H (builder_status H n) ''content-type'' ''text/plain'') body = Some r
    \<and> response_status r = n \<and> response_body r = body"
proof -
  have "list_all visible ''text/plain''" "list_all token_char ''content-type''"
    by (simp_all add: visible_def token_char_def)
  with builder_parts_header [OF assms, of "''content-type''" "''text/plain''"] obtain m where
    "builder_parts H (builder_header H (builder_status H n) ''content-type'' ''text/plain'') = Some (n, m)"
    by blast
  then show ?thesis
    by (simp add: builder_body_def)
qed

text \<open>What a body still has to send.\<close>

definition remaining :: "'hm BodyWithTrailers \<Rightarrow> 'hm Frame list" where
  "remaining self =
     (if \<not> data_sent self \<and> data self \<noteq> [] then [Data (data self)] else [])
     @ (if trailers_sent self then [] else case trailers self of Some t \<Rightarrow> [Trailers t] | None \<Rightarrow> [])"

lemma poll_frame_remaining:
  "case poll_frame self of
     (Some f, self') \<Rightarrow> remaining self = f # remaining self'
   | (None, self') \<Rightarrow> remaining self = [] \<and> remaining self' = []"
  by (auto simp: poll_frame_def remaining_def Let_def split: option.splits)

lemma length_remaining: "length (remaining self) \<le> 2"
  by (simp add: remaining_def split: option.splits)

lemma poll_frames_remaining:
  "length (remaining self) < n \<Longrightarrow>
   fst (poll_frames n self) = remaining self \<and> remaining (snd (poll_frames n self)) = []"
proof (induction n arbitrary: self)
  case (Suc n)
  obtain r self' where p: "poll_frame self = (r, self')"
    by fastforce
  with poll_frame_remaining [of self] Suc show ?case
    by (cases r) (auto simp: split_beta)
qed simp

text \<open>
  A new body sends its data in one frame unless it is empty, then its trailers if it has
  any, and then the stream ends; three polls are enough, and every later poll is an end again.
\<close>

lemma body_frames:
  "\<exists>self'. poll_frames 3 (BodyWithTrailers_new d t)
      = ((if d = [] then [] else [Data d]) @ (case t of Some m \<Rightarrow> [Trailers m] | None \<Rightarrow> []), self')
    \<and> (\<forall>n. fst (poll_frames n self') = [])"
proof -
  let ?b = "BodyWithTrailers_new d t"
  have "length (remaining ?b) < 3"
    using length_remaining [of ?b] by simp
  then have p: "fst (poll_frames 3 ?b) = remaining ?b" "remaining (snd (poll_frames 3 ?b)) = []"
    using poll_frames_remaining by blast+
  have "fst (poll_frames n self') = []" if "remaining self' = []" for n and self' :: "'a BodyWithTrailers"
    using that poll_frames_remaining [of self' n] by (cases n) simp_all
  moreover have "remaining ?b
      = (if d = [] then [] else [Data d]) @ (case t of Some m \<Rightarrow> [Trailers m] | None \<Rightarrow> [])"
    by (simp add: remaining_def BodyWithTrailers_new_def)
  ultimately show ?thesis
    using p by (intro exI [of _ "snd (poll_frames 3 ?b)"]) (simp add: prod_eq_iff)
qed

end
