(* ===== verification/Grpc.thy ===== *)
theory Grpc
  imports Response_Body
begin

text \<open>
  \<open>grpc.rs\<close>: recognising gRPC requests, the length-prefixed message frame, and the error
  response the server builds itself. \<open>None\<close> as the result of
  \<open>create_grpc_error_response\<close> is a panic of one of its \<open>unwrap\<close> calls.

  The locale \<open>frame_codec\<close> is what the request and response objects rely on: a frame decodes
  to the message it was made of, whatever follows it.
\<close>

definition GRPC_HEADER_SIZE :: nat where
  "GRPC_HEADER_SIZE = 5"

text \<open>\<open>path.split('/').filter(|s| !s.is_empty())\<close>.\<close>

definition path_parts :: "string \<Rightarrow> string list" where
  "path_parts path = filter (\<lambda>s. s \<noteq> []) (split_on (CHR ''/'') path)"

definition is_grpc_request :: "('hm, 'b) http \<Rightarrow> 'hm HyperRequest \<Rightarrow> bool" where
  "is_grpc_request H request =
     (if request_method request \<noteq> ''POST'' then False
      else case header_map_get H (request_headers request) ''content-type'' of
        None \<Rightarrow> False
      | Some content_type \<Rightarrow>
          (case header_value_to_str H content_type of
             None \<Rightarrow> False
           | Some content_type_str \<Rightarrow>
               if \<not> starts_with content_type_str ''application/grpc'' then False
               else case header_map_get H (request_headers request) ''te'' of
                 None \<Rightarrow> False
               | Some te \<Rightarrow>
                   (case header_value_to_str H te of
                      None \<Rightarrow> False
                    | Some te_str \<Rightarrow>
                        if \<not> contains te_str ''trailers'' then False
                        else path_parts (uri_path request) \<noteq> [])))"

definition decode_grpc_frame :: "bytes \<Rightarrow> (bool \<times> bytes) option" where
  "decode_grpc_frame bs =
     (if length bs < GRPC_HEADER_SIZE then None
      else
        let compressed = bs ! 0 \<noteq> 0;
            message_len = unat (u32_from_be (bs ! 1) (bs ! 2) (bs ! 3) (bs ! 4))
        in if length bs < GRPC_HEADER_SIZE + message_len then None
           else Some (compressed, take message_len (drop GRPC_HEADER_SIZE bs)))"

definition encode_grpc_frame :: "bytes \<Rightarrow> bytes" where
  "encode_grpc_frame message = [0] @ u32_to_be (of_nat (length message)) @ message"

definition create_grpc_error_response ::
  "('hm, 'b) http \<Rightarrow> u16 \<Rightarrow> u32 \<Rightarrow> string \<Rightarrow> 'hm HyperResponse option" where
  "create_grpc_error_response H http_status grpc_status message =
     (let status = (if http_status = 200 \<or> (http_status \<ge> 400 \<and> http_status < 500) then 200
                    else http_status);
          builder = builder_header H (builder_status H status) ''content-type'' ''application/grpc+proto''
      in do {
        status_value \<leftarrow> header_value H (to_string (unat grpc_status));
        let trailers = header_map_insert H (header_map_new H) ''grpc-status'' status_value;
        encoding \<leftarrow> header_value H ''identity,gzip,deflate,zstd'';
        let trailers = header_map_insert H trailers ''grpc-accept-encoding'' encoding;
        trailers \<leftarrow>
          (if message \<noteq> [] then do {
             value \<leftarrow> header_value H message;
             Some (header_map_insert H trailers ''grpc-message'' value)
           } else Some trailers);
        builder_body H builder (BodyWithTrailers_new [] (Some trailers))
      })"

section \<open>The frame format\<close>

lemma split_header:
  assumes "5 \<le> length bs"
  shows "bs = [bs ! 0, bs ! 1, bs ! 2, bs ! 3, bs ! 4] @ drop 5 bs"
proof -
  have "take 5 bs = [bs ! 0, bs ! 1, bs ! 2, bs ! 3, bs ! 4]"
    using assms by (intro nth_equalityI) (auto simp: less_Suc_eq numeral_eq_Suc)
  then show ?thesis
    by (metis append_take_drop_id)
qed

lemma unat_of_nat_u32: "unat (of_nat n :: u32) = n mod 2 ^ 32"
  by (simp only: unat_of_nat) simp

lemma decode_encoded:
  "decode_grpc_frame (f # u32_to_be w @ rest)
     = (if length rest < unat w then None else Some (f \<noteq> 0, take (unat w) rest))"
proof -
  have nth: "(f # u32_to_be w @ rest) ! Suc i = u32_to_be w ! i" if "i < 4" for i
    using that by (simp add: nth_append)
  have "u32_from_be ((f # u32_to_be w @ rest) ! 1) ((f # u32_to_be w @ rest) ! 2)
      ((f # u32_to_be w @ rest) ! 3) ((f # u32_to_be w @ rest) ! 4) = w"
    using u32_from_to_be [of w] nth [of 0] nth [of 1] nth [of 2] nth [of 3]
    by (simp add: numeral_eq_Suc)
  then show ?thesis
    by (simp add: decode_grpc_frame_def GRPC_HEADER_SIZE_def Let_def del: nth_Cons_numeral)
qed

lemma unat_less_u32: "unat (w :: u32) < 2 ^ 32"
  using unsigned_less [of w] by simp

lemma low_byte: "of_nat (k * 256 + unat c) = (c :: u8)"
  using unat_less_256 [of c] by (simp only: word_unat_eq_iff unat_of_nat_u8) simp

lemma u32_to_from_be:
  "u32_to_be (u32_from_be a b c d) = [a, b, c, d]"
proof -
  define n where "n = ((unat a * 256 + unat b) * 256 + unat c) * 256 + unat d"
  have lt: "unat a < 256" "unat b < 256" "unat c < 256" "unat d < 256"
    by (rule unat_less_256)+
  have div: "n div 2 ^ 8 = (unat a * 256 + unat b) * 256 + unat c"
      "n div 2 ^ 16 = unat a * 256 + unat b" "n div 2 ^ 24 = unat a"
    using lt by (simp_all add: n_def div_mult2_eq [symmetric])
  have "of_nat (unat a) = a" "of_nat (unat a * 256 + unat b) = b"
      "of_nat ((unat a * 256 + unat b) * 256 + unat c) = c" "of_nat n = d"
    unfolding n_def using low_byte [of 0 a] by (simp_all only: low_byte mult_0 add_0)
  then show ?thesis
    unfolding u32_to_be_def unat_u32_from_be n_def [symmetric] div by simp
qed

section \<open>The codec contract\<close>

locale frame_codec =
  fixes encode :: "bytes \<Rightarrow> bytes"
    and decode :: "bytes \<Rightarrow> (bool \<times> bytes) option"
    and fits :: "bytes \<Rightarrow> bool"
  assumes decode_encode: "fits m \<Longrightarrow> decode (encode m @ rest) = Some (False, m)"
    and decode_fits: "decode b = Some (c, m) \<Longrightarrow> fits m"
begin

lemma decode_whole: "fits m \<Longrightarrow> decode (encode m) = Some (False, m)"
  using decode_encode [of m "[]"] by simp

lemma encode_inj: "fits m \<Longrightarrow> fits m' \<Longrightarrow> encode m @ r = encode m' @ r' \<Longrightarrow> m = m'"
  using decode_encode by (metis option.inject prod.inject)

lemma reencode: "decode b = Some (c, m) \<Longrightarrow> decode (encode m @ rest) = Some (False, m)"
  using decode_encode decode_fits by blast

end

definition frame_fits :: "bytes \<Rightarrow> bool" where
  "frame_fits m \<longleftrightarrow> length m < 2 ^ 32"

interpretation grpc_frame: frame_codec encode_grpc_frame decode_grpc_frame frame_fits
proof
  fix m rest
  assume "frame_fits m"
  then have "unat (of_nat (length m) :: u32) = length m"
    by (simp only: unat_of_nat_u32 frame_fits_def mod_less)
  then show "decode_grpc_frame (encode_grpc_frame m @ rest) = Some (False, m)"
    by (simp add: encode_grpc_frame_def decode_encoded)
next
  fix b c m
  assume "decode_grpc_frame b = Some (c, m)"
  then have "length m \<le> unat (u32_from_be (b ! 1) (b ! 2) (b ! 3) (b ! 4))"
    by (auto simp: decode_grpc_frame_def Let_def split: if_splits)
  then show "frame_fits m"
    using unat_less_u32 le_less_trans unfolding frame_fits_def by blast
qed

text \<open>
  C26. The frame decoder accepts exactly the length-prefixed messages: a flag byte, the
  message's length as four big-endian bytes, the message, and anything after it, which is
  left out; the flag is the compression bit. Everything shorter than it declares is refused.
\<close>

theorem decode_grpc_frame_iff:
  "decode_grpc_frame bs = Some (compressed, message) \<longleftrightarrow>
     (\<exists>f rest. bs = f # u32_to_be (of_nat (length message)) @ message @ rest
        \<and> length message < 2 ^ 32 \<and> compressed = (f \<noteq> 0))"
proof
  assume d: "decode_grpc_frame bs = Some (compressed, message)"
  define w where "w = u32_from_be (bs ! 1) (bs ! 2) (bs ! 3) (bs ! 4)"
  from d have len: "5 \<le> length bs" "5 + unat w \<le> length bs" and c: "compressed = (bs ! 0 \<noteq> 0)"
      and m: "message = take (unat w) (drop 5 bs)"
    by (auto simp: decode_grpc_frame_def GRPC_HEADER_SIZE_def Let_def w_def split: if_splits)
  have "length message = unat w"
    using len m by simp
  then have "of_nat (length message) = w"
    by simp
  then have "u32_to_be (of_nat (length message)) = [bs ! 1, bs ! 2, bs ! 3, bs ! 4]"
    by (simp only: w_def u32_to_from_be)
  moreover have "drop 5 bs = message @ drop (unat w) (drop 5 bs)"
    unfolding m by (simp only: append_take_drop_id)
  ultimately have "bs = bs ! 0 # u32_to_be (of_nat (length message)) @ message @ drop (unat w) (drop 5 bs)"
    using split_header [OF len(1)] by (metis append_Cons append_Nil)
  moreover have "length message < 2 ^ 32"
    using \<open>length message = unat w\<close> unat_less_u32 [of w] by simp
  ultimately show "\<exists>f rest. bs = f # u32_to_be (of_nat (length message)) @ message @ rest
      \<and> length message < 2 ^ 32 \<and> compressed = (f \<noteq> 0)"
    using c by blast
next
  assume "\<exists>f rest. bs = f # u32_to_be (of_nat (length message)) @ message @ rest
      \<and> length message < 2 ^ 32 \<and> compressed = (f \<noteq> 0)"
  then obtain f rest where bs: "bs = f # u32_to_be (of_nat (length message)) @ message @ rest"
      and "length message < 2 ^ 32" and c: "compressed = (f \<noteq> 0)"
    by blast
  then have "unat (of_nat (length message) :: u32) = length message"
    by (simp only: unat_of_nat_u32 mod_less)
  then show "decode_grpc_frame bs = Some (compressed, message)"
    unfolding bs c by (simp add: decode_encoded)
qed

text \<open>
  C27. What a response frame says to its reader: the message comes back uncompressed and
  whole as long as it is shorter than 4 GiB; from there on the length field holds only the
  low 32 bits and the reader gets that many bytes.
\<close>

theorem encode_grpc_frame_roundtrip:
  "decode_grpc_frame (encode_grpc_frame m) = Some (False, take (length m mod 2 ^ 32) m)"
  using decode_encoded [of 0 "of_nat (length m)" m]
  by (simp add: encode_grpc_frame_def unat_of_nat_u32 not_less del: unat_of_nat)

section \<open>Error responses\<close>

text \<open>The trailers of an error response, for a status and a message.\<close>

definition error_trailers ::
  "('hm, 'b) http \<Rightarrow> 'hm \<Rightarrow> u32 \<Rightarrow> string \<Rightarrow> bool" where
  "error_trailers H t grpc_status message \<longleftrightarrow>
     header_str H t ''grpc-status'' = Some (to_string (unat grpc_status)) \<and>
     header_str H t ''grpc-message'' = (if message = [] then None else Some message) \<and>
     header_str H t ''grpc-accept-encoding'' = Some ''identity,gzip,deflate,zstd''"

lemma grpc_names:
  assumes "http_ok H"
  shows "header_name H ''grpc-status'' = Some ''grpc-status''"
    and "header_name H ''grpc-message'' = Some ''grpc-message''"
    and "header_name H ''grpc-accept-encoding'' = Some ''grpc-accept-encoding''"
    and "header_name H ''content-type'' = Some ''content-type''"
  by (simp_all add: header_name_token [OF assms] token_char_def)

lemma grpc_encodings_visible: "list_all visible ''identity,gzip,deflate,zstd''"
    "list_all visible ''application/grpc+proto''"
  by (simp_all add: visible_def)

lemma to_string_visible: "list_all visible (to_string n)"
  by (auto simp: list_all_iff intro: visible_to_string)

lemma error_trailers_built:
  assumes "http_ok H"
    and "header_value_to_str H status = Some (to_string (unat grpc_status))"
    and "header_value_to_str H encoding = Some ''identity,gzip,deflate,zstd''"
    and "message \<noteq> [] \<Longrightarrow> header_value_to_str H value = Some message"
  shows "error_trailers H
    ((if message \<noteq> [] then \<lambda>t. header_map_insert H t ''grpc-message'' value else id)
      (header_map_insert H (header_map_insert H (header_map_new H) ''grpc-status'' status)
        ''grpc-accept-encoding'' encoding)) grpc_status message"
  using assms(2-4)
  by (simp add: error_trailers_def header_str_def header_map_get_insert [OF assms(1)]
      header_map_get_new [OF assms(1)] grpc_names [OF assms(1)])

definition reported_status :: "u16 \<Rightarrow> u16" where
  "reported_status http_status = (if 400 \<le> http_status \<and> http_status < 500 then 200 else http_status)"

lemma create_grpc_error_response_ok:
  assumes H: "http_ok H" and status: "100 \<le> http_status" "http_status < 1000"
    and visible: "list_all visible message"
  shows "\<exists>r t. create_grpc_error_response H http_status grpc_status message = Some r
    \<and> response_status r = reported_status http_status
    \<and> header_str H (response_headers r) ''content-type'' = Some ''application/grpc+proto''
    \<and> response_body r = BodyWithTrailers_new [] (Some t) \<and> error_trailers H t grpc_status message"
proof -
  let ?n = "reported_status http_status"
  have n: "100 \<le> ?n" "?n < 1000"
    using status by (simp_all add: reported_status_def)
  obtain ct where ct: "header_value_to_str H ct = Some ''application/grpc+proto''"
      "builder_parts H (builder_header H (builder_status H ?n) ''content-type'' ''application/grpc+proto'')
        = Some (?n, header_map_insert H (header_map_new H) ''content-type'' ct)"
    using builder_parts_header [OF H n, of "''content-type''" "''application/grpc+proto''"]
      grpc_encodings_visible by (auto simp: token_char_def)
  obtain sv where sv: "header_value H (to_string (unat grpc_status)) = Some sv"
      "header_value_to_str H sv = Some (to_string (unat grpc_status))"
    using header_value_visible [OF H to_string_visible] by blast
  obtain ev where ev: "header_value H ''identity,gzip,deflate,zstd'' = Some ev"
      "header_value_to_str H ev = Some ''identity,gzip,deflate,zstd''"
    using header_value_visible [OF H grpc_encodings_visible(1)] by blast
  obtain mv where mv: "header_value H message = Some mv" "header_value_to_str H mv = Some message"
    using header_value_visible [OF H visible] by blast
  have "(if http_status = 200 \<or> (http_status \<ge> 400 \<and> http_status < 500) then 200 else http_status) = ?n"
    by (simp add: reported_status_def)
  moreover have "header_str H (header_map_insert H (header_map_new H) ''content-type'' ct) ''content-type''
      = Some ''application/grpc+proto''"
    using ct(1) by (simp add: header_str_def header_map_get_insert [OF H] grpc_names [OF H])
  ultimately show ?thesis
    using error_trailers_built [OF H sv(2) ev(2), of message mv] ct(2) sv(1) ev(1) mv
    by (cases "message = []")
      (auto simp: create_grpc_error_response_def builder_body_def Let_def)
qed

end
