(* ===== verification/Request.thy ===== *)
theory Request
  imports Grpc
begin

text \<open>
  The request objects of \<open>request.rs\<close>: plain HTTP requests, gRPC requests, and the trait
  \<open>FillBuffer\<close> both implement, whose contract is the locale \<open>fill_source\<close>.

  The Ruby string functions are outside the repository and a parameter \<open>rb\<close>; a Ruby string
  is its bytes and the capacity of its storage. Query decoding (\<open>form_urlencoded::parse\<close>) is
  the parameter \<open>urlparse\<close>. A key argument is the result of its \<open>as_str\<close>: \<open>None\<close> for bytes
  that are not UTF-8, on which the \<open>unwrap\<close> panics; \<open>None\<close> of a result is that panic, and a
  Ruby \<open>nil\<close> or string is an option inside it. A Ruby hash of strings is a map.
\<close>

section \<open>Ruby strings\<close>

record RString =
  rs_bytes :: bytes
  rs_capacity :: nat

text \<open>\<open>None\<close> is a Ruby exception, as for a frozen string.\<close>

record rb =
  rb_str_buf_new :: "nat \<Rightarrow> RString"
  rb_str_modify :: "RString \<Rightarrow> RString option"
  rb_str_modify_expand :: "RString \<Rightarrow> nat \<Rightarrow> RString option"

text \<open>
  A new buffer is empty, modifiable and has the room asked for; \<open>rb_str_modify\<close> keeps the
  room there is; \<open>rb_str_modify_expand\<close> makes room for so many bytes after the contents.
\<close>

definition rb_ok :: "rb \<Rightarrow> bool" where
  "rb_ok R \<longleftrightarrow>
     (\<forall>n. n \<le> rs_capacity (rb_str_buf_new R n) \<and> rb_str_modify R (rb_str_buf_new R n) \<noteq> None) \<and>
     (\<forall>b b'. rb_str_modify R b = Some b' \<longrightarrow> rs_capacity b \<le> rs_capacity b') \<and>
     (\<forall>b n b'. rb_str_modify_expand R b n = Some b' \<longrightarrow> length (rs_bytes b) + n \<le> rs_capacity b')"

text \<open>
  How filling a buffer ends: with the number of bytes copied, in a Ruby exception, in a
  panic, or with a copy past the end of the string's storage.
\<close>

datatype fill = Filled nat RString | Raised | Panicked | OutOfBounds

definition fill_buffer :: "rb \<Rightarrow> bytes \<Rightarrow> RString \<Rightarrow> fill" where
  "fill_buffer R body_bytes buffer =
     (let body_len = length body_bytes in
      if body_len \<ge> 2 ^ 63 then Panicked
      else
        let existing_capacity = rs_capacity buffer in
        case (if existing_capacity < body_len
              then rb_str_modify_expand R buffer (body_len - existing_capacity)
              else rb_str_modify R buffer) of
          None \<Rightarrow> Raised
        | Some inner \<Rightarrow>
            if body_len > 0 \<and> rs_capacity inner < body_len then OutOfBounds
            else Filled body_len (inner\<lparr>rs_bytes := body_bytes\<rparr>))"

section \<open>HTTP requests\<close>

type_synonym 'hm Request = "'hm HyperRequest"

definition Request_get_body_bytes :: "'hm Request \<Rightarrow> bytes" where
  "Request_get_body_bytes self = request_body self"

definition Request_get_body_size :: "'hm Request \<Rightarrow> nat" where
  "Request_get_body_size self = length (request_body self)"

definition Request_new :: "'hm HyperRequest \<Rightarrow> 'hm Request" where
  "Request_new req = req"

declare Request_new_def [simp]

definition Request_method :: "'hm Request \<Rightarrow> string" where
  "Request_method self = request_method self"

definition Request_path :: "'hm Request \<Rightarrow> string" where
  "Request_path self = uri_path self"

definition Request_host :: "('hm, 'b) http \<Rightarrow> 'hm Request \<Rightarrow> string option" where
  "Request_host H self =
     (case uri_host self of
        Some host \<Rightarrow> Some host
      | None \<Rightarrow>
          (case header_map_get H (request_headers self) ''Host'' of
             Some value \<Rightarrow> header_value_to_str H value
           | None \<Rightarrow> None))"

definition query_params ::
  "(string \<Rightarrow> (string \<times> string) list) \<Rightarrow> 'hm Request \<Rightarrow> (string \<rightharpoonup> string)" where
  "query_params urlparse self =
     (case uri_query self of
        Some query \<Rightarrow> foldl (\<lambda>params (key, value). params(key \<mapsto> value)) Map.empty (urlparse query)
      | None \<Rightarrow> Map.empty)"

fun find_param :: "string \<Rightarrow> (string \<times> string) list \<Rightarrow> string option" where
  "find_param key [] = None"
| "find_param key ((param_key, value) # rest) =
     (if param_key = key then Some value else find_param key rest)"

definition query_param ::
  "(string \<Rightarrow> (string \<times> string) list) \<Rightarrow> 'hm Request \<Rightarrow> string option \<Rightarrow> string option option" where
  "query_param urlparse self key =
     do {
       key_str \<leftarrow> key;
       Some (case uri_query self of
               Some query \<Rightarrow> find_param key_str (urlparse query)
             | None \<Rightarrow> None)
     }"

text \<open>\<open>header\<close> and \<open>headers\<close> have the same text for both request types.\<close>

definition header :: "('hm, 'b) http \<Rightarrow> 'hm HyperRequest \<Rightarrow> string option \<Rightarrow> string option option" where
  "header H request key =
     do {
       key_str \<leftarrow> key;
       Some (case header_map_get H (request_headers request) key_str of
               Some value \<Rightarrow> header_value_to_str H value
             | None \<Rightarrow> None)
     }"

definition headers :: "('hm, 'b) http \<Rightarrow> 'hm HyperRequest \<Rightarrow> (string \<rightharpoonup> string)" where
  "headers H request =
     foldl (\<lambda>hash (name, value).
         case header_value_to_str H value of
           Some value_str \<Rightarrow> hash(name \<mapsto> value_str)
         | None \<Rightarrow> hash)
       Map.empty (header_map_iter H (request_headers request))"

definition Request_body_size :: "'hm Request \<Rightarrow> nat" where
  "Request_body_size self = Request_get_body_size self"

definition Request_fill_body :: "rb \<Rightarrow> 'hm Request \<Rightarrow> RString \<Rightarrow> fill" where
  "Request_fill_body R self buffer = fill_buffer R (Request_get_body_bytes self) buffer"

definition Request_body :: "rb \<Rightarrow> 'hm Request \<Rightarrow> fill" where
  "Request_body R self = Request_fill_body R self (rb_str_buf_new R (Request_body_size self))"

definition Request_inspect :: "'hm Request \<Rightarrow> string" where
  "Request_inspect self =
     (let query = (case uri_query self of Some q \<Rightarrow> q | None \<Rightarrow> '''');
          query_display = (if query \<noteq> [] then ''?'' @ query else '''')
      in ''#<HyperRuby::Request method='' @ request_method self @ '' path='' @ uri_path self
         @ query_display @ '' body_size='' @ to_string (Request_body_size self) @ ''>'')"

section \<open>gRPC requests\<close>

record 'hm GrpcRequest =
  request :: "'hm HyperRequest"
  service :: string
  method_name :: string

definition GrpcRequest_get_body_bytes :: "'hm GrpcRequest \<Rightarrow> bytes" where
  "GrpcRequest_get_body_bytes self =
     (case decode_grpc_frame (request_body (request self)) of
        Some (_, message) \<Rightarrow> message
      | None \<Rightarrow> [])"

definition GrpcRequest_get_body_size :: "'hm GrpcRequest \<Rightarrow> nat" where
  "GrpcRequest_get_body_size self =
     (case decode_grpc_frame (request_body (request self)) of
        Some (_, message) \<Rightarrow> length message
      | None \<Rightarrow> 0)"

definition GrpcRequest_new :: "'hm HyperRequest \<Rightarrow> 'hm GrpcRequest option" where
  "GrpcRequest_new req =
     (let parts = path_parts (uri_path req) in
      if parts = [] then None
      else
        let (serv, meth) =
          (if length parts \<ge> 2 then (parts ! 0, parts ! 1)
           else (''echo.'' @ parts ! 0, parts ! 0))
        in Some \<lparr>request = req, service = serv, method_name = meth\<rparr>)"

definition GrpcRequest_body_size :: "'hm GrpcRequest \<Rightarrow> nat" where
  "GrpcRequest_body_size self = GrpcRequest_get_body_size self"

definition GrpcRequest_fill_body :: "rb \<Rightarrow> 'hm GrpcRequest \<Rightarrow> RString \<Rightarrow> fill" where
  "GrpcRequest_fill_body R self buffer = fill_buffer R (GrpcRequest_get_body_bytes self) buffer"

definition GrpcRequest_body :: "rb \<Rightarrow> 'hm GrpcRequest \<Rightarrow> fill" where
  "GrpcRequest_body R self = GrpcRequest_fill_body R self (rb_str_buf_new R (GrpcRequest_body_size self))"

definition is_compressed :: "'hm GrpcRequest \<Rightarrow> bool" where
  "is_compressed self =
     (case decode_grpc_frame (request_body (request self)) of
        Some (compressed, _) \<Rightarrow> compressed
      | None \<Rightarrow> False)"

definition GrpcRequest_inspect :: "'hm GrpcRequest \<Rightarrow> string" where
  "GrpcRequest_inspect self =
     ''#<HyperRuby::GrpcRequest service='' @ service self @ '' method='' @ method_name self
     @ '' body_size='' @ to_string (GrpcRequest_body_size self) @ ''>''"

definition GrpcRequest_service :: "'hm GrpcRequest \<Rightarrow> string" where
  "GrpcRequest_service self = service self"

definition GrpcRequest_method :: "'hm GrpcRequest \<Rightarrow> string" where
  "GrpcRequest_method self = method_name self"

definition GrpcRequest_header ::
  "('hm, 'b) http \<Rightarrow> 'hm GrpcRequest \<Rightarrow> string option \<Rightarrow> string option option" where
  "GrpcRequest_header H self key = header H (request self) key"

definition GrpcRequest_headers :: "('hm, 'b) http \<Rightarrow> 'hm GrpcRequest \<Rightarrow> (string \<rightharpoonup> string)" where
  "GrpcRequest_headers H self = headers H (request self)"

section \<open>Filling buffers\<close>

text \<open>
  Once the string has room after the call that prepares it, the copy is complete. Room is
  there when the capacity is enough, and after an expansion when the string is full.
\<close>

lemma fill_buffer_cases:
  assumes "rb_ok R" and "length body < 2 ^ 63"
    and "length body \<le> rs_capacity buffer \<or> rs_capacity buffer \<le> length (rs_bytes buffer)"
  shows "fill_buffer R body buffer = Raised
    \<or> (\<exists>b. fill_buffer R body buffer = Filled (length body) b \<and> rs_bytes b = body
          \<and> length body \<le> rs_capacity b)"
proof (cases "rs_capacity buffer < length body")
  case True
  show ?thesis
  proof (cases "rb_str_modify_expand R buffer (length body - rs_capacity buffer)")
    case (Some b)
    then have "length (rs_bytes buffer) + (length body - rs_capacity buffer) \<le> rs_capacity b"
      using assms(1) by (simp add: rb_ok_def)
    with True assms(3) have "length body \<le> rs_capacity b"
      by simp
    with True Some assms(2) show ?thesis
      by (simp add: fill_buffer_def Let_def)
  qed (use True assms(2) in \<open>simp add: fill_buffer_def Let_def\<close>)
next
  case False
  show ?thesis
  proof (cases "rb_str_modify R buffer")
    case (Some b)
    then have "rs_capacity buffer \<le> rs_capacity b"
      using assms(1) by (simp add: rb_ok_def)
    with False Some assms(2) show ?thesis
      by (simp add: fill_buffer_def Let_def)
  qed (use False assms(2) in \<open>simp add: fill_buffer_def Let_def\<close>)
qed

lemma fill_new_buffer:
  assumes "rb_ok R" and "length body < 2 ^ 63"
  shows "\<exists>b. fill_buffer R body (rb_str_buf_new R (length body)) = Filled (length body) b
    \<and> rs_bytes b = body"
proof -
  let ?new = "rb_str_buf_new R (length body)"
  have room: "length body \<le> rs_capacity ?new" "rb_str_modify R ?new \<noteq> None"
    using assms(1) by (simp_all add: rb_ok_def)
  then have "fill_buffer R body ?new \<noteq> Raised"
    using assms(2) by (auto simp: fill_buffer_def Let_def split: if_splits)
  with fill_buffer_cases [OF assms, of ?new] room show ?thesis
    by blast
qed

text \<open>The trait: the size an object reports is the size of the bytes it hands out.\<close>

locale fill_source =
  fixes get_body_bytes :: "'s \<Rightarrow> bytes"
    and get_body_size :: "'s \<Rightarrow> nat"
  assumes body_size: "get_body_size s = length (get_body_bytes s)"
begin

lemma body_complete:
  assumes "rb_ok R" and "length (get_body_bytes s) < 2 ^ 63"
  shows "\<exists>b. fill_buffer R (get_body_bytes s) (rb_str_buf_new R (get_body_size s))
      = Filled (get_body_size s) b \<and> rs_bytes b = get_body_bytes s"
  using fill_new_buffer [OF assms] by (simp add: body_size)

end

interpretation http_body: fill_source Request_get_body_bytes Request_get_body_size
  by unfold_locales (simp add: Request_get_body_bytes_def Request_get_body_size_def)

interpretation grpc_body: fill_source GrpcRequest_get_body_bytes GrpcRequest_get_body_size
  by unfold_locales
    (simp add: GrpcRequest_get_body_bytes_def GrpcRequest_get_body_size_def split: option.splits)

text \<open>A concrete string interface: expansion makes the capacity what was asked for, no more.\<close>

definition simple_rb :: rb where
  "simple_rb =
     \<lparr>rb_str_buf_new = (\<lambda>n. \<lparr>rs_bytes = [], rs_capacity = n\<rparr>),
      rb_str_modify = Some,
      rb_str_modify_expand = (\<lambda>b n. Some (b\<lparr>rs_capacity := length (rs_bytes b) + n\<rparr>))\<rparr>"

lemma simple_rb_ok: "rb_ok simple_rb"
  by (auto simp: rb_ok_def simple_rb_def)

section \<open>Properties of requests\<close>

text \<open>
  C29. The \<open>body\<close> method of both request types copies the whole body into a new string, in
  bounds: the raw body of an HTTP request, and the first message of a gRPC request, which is
  empty when the body holds no complete frame.
\<close>

theorem request_body_complete:
  assumes "rb_ok R" and "length (request_body r) < 2 ^ 63" and "request g = r"
  shows "(\<exists>b. Request_body R r = Filled (length (request_body r)) b \<and> rs_bytes b = request_body r)
    \<and> (\<exists>b. GrpcRequest_body R g = Filled (GrpcRequest_body_size g) b
        \<and> rs_bytes b = (case decode_grpc_frame (request_body r) of Some (_, m) \<Rightarrow> m | None \<Rightarrow> []))"
proof -
  have "length (GrpcRequest_get_body_bytes g) \<le> length (request_body r)"
    using assms(3)
    by (auto simp: GrpcRequest_get_body_bytes_def decode_grpc_frame_def Let_def split: if_splits option.splits)
  with assms(2) have "length (GrpcRequest_get_body_bytes g) < 2 ^ 63"
    by simp
  with http_body.body_complete [OF assms(1), of r] grpc_body.body_complete [OF assms(1), of g] assms(2,3)
  show ?thesis
    by (simp add: Request_body_def Request_fill_body_def Request_body_size_def
        Request_get_body_bytes_def Request_get_body_size_def GrpcRequest_body_def
        GrpcRequest_fill_body_def GrpcRequest_body_size_def GrpcRequest_get_body_bytes_def)
qed

theorem request_body_complete_witness:
  "\<exists>b. GrpcRequest_body simple_rb
      \<lparr>request = \<lparr>request_method = ''POST'', uri_host = None, uri_path = ''/Echo'', uri_query = None,
         request_headers = (), request_body = encode_grpc_frame [1, 2]\<rparr>,
       service = ''echo.Echo'', method_name = ''Echo''\<rparr> = Filled 2 b \<and> rs_bytes b = [1, 2]"
proof -
  let ?r = "\<lparr>request_method = ''POST'', uri_host = None, uri_path = ''/Echo'', uri_query = None,
         request_headers = (), request_body = encode_grpc_frame [1, 2]\<rparr>"
  let ?g = "\<lparr>request = ?r, service = ''echo.Echo'', method_name = ''Echo''\<rparr>"
  have "decode_grpc_frame (encode_grpc_frame [1, 2]) = Some (False, [1, 2])"
    by (rule grpc_frame.decode_whole) (simp add: frame_fits_def)
  then have "GrpcRequest_body_size ?g = 2" and "length (encode_grpc_frame [1, 2]) = 7"
    by (simp_all add: GrpcRequest_body_size_def GrpcRequest_get_body_size_def encode_grpc_frame_def)
  with request_body_complete [OF simple_rb_ok, of ?r ?g] \<open>decode_grpc_frame _ = _\<close> show ?thesis
    by (simp only: HyperRequest.select_convs GrpcRequest.select_convs option.case prod.case) simp
qed

text \<open>
  C30. Filling a string the caller supplies is complete and in bounds when the body fits the
  string's capacity, or when the string is full so that the expansion counts from its
  capacity. In the remaining case, a string with spare room that is still too small, the
  expansion is computed from the capacity but counted from the contents: where the Ruby
  function makes exactly the room it is asked for, the copy runs past the end of the storage.
\<close>

theorem fill_body_bounds:
  assumes "rb_ok R" and "length (request_body r) < 2 ^ 63"
  shows "(length (request_body r) \<le> rs_capacity buffer \<or> rs_capacity buffer \<le> length (rs_bytes buffer)
      \<longrightarrow> Request_fill_body R r buffer = Raised
        \<or> (\<exists>b. Request_fill_body R r buffer = Filled (length (request_body r)) b
              \<and> rs_bytes b = request_body r \<and> length (request_body r) \<le> rs_capacity b))
    \<and> (length (rs_bytes buffer) < rs_capacity buffer \<and> rs_capacity buffer < length (request_body r)
        \<and> (\<forall>n. rb_str_modify_expand R buffer n = Some (buffer\<lparr>rs_capacity := length (rs_bytes buffer) + n\<rparr>))
      \<longrightarrow> Request_fill_body R r buffer = OutOfBounds)"
proof (rule conjI; rule impI)
  assume "length (request_body r) \<le> rs_capacity buffer \<or> rs_capacity buffer \<le> length (rs_bytes buffer)"
  from fill_buffer_cases [OF assms this] show "Request_fill_body R r buffer = Raised
      \<or> (\<exists>b. Request_fill_body R r buffer = Filled (length (request_body r)) b
            \<and> rs_bytes b = request_body r \<and> length (request_body r) \<le> rs_capacity b)"
    by (simp only: Request_fill_body_def Request_get_body_bytes_def)
next
  assume "length (rs_bytes buffer) < rs_capacity buffer \<and> rs_capacity buffer < length (request_body r)
    \<and> (\<forall>n. rb_str_modify_expand R buffer n = Some (buffer\<lparr>rs_capacity := length (rs_bytes buffer) + n\<rparr>))"
  with assms(2) show "Request_fill_body R r buffer = OutOfBounds"
    by (auto simp: Request_fill_body_def Request_get_body_bytes_def fill_buffer_def Let_def)
qed

theorem fill_body_bounds_witness:
  "Request_fill_body simple_rb
     \<lparr>request_method = ''POST'', uri_host = None, uri_path = ''/'', uri_query = None,
      request_headers = (), request_body = [1, 2, 3, 4]\<rparr> \<lparr>rs_bytes = [], rs_capacity = 3\<rparr> = OutOfBounds"
  using fill_body_bounds [OF simple_rb_ok, of "\<lparr>request_method = ''POST'', uri_host = None,
      uri_path = ''/'', uri_query = None, request_headers = (), request_body = [1, 2, 3, 4]\<rparr>"
      "\<lparr>rs_bytes = [], rs_capacity = 3\<rparr>"]
  by (simp add: simple_rb_def)

text \<open>
  A request the server takes for gRPC always becomes a \<open>GrpcRequest\<close>: the answer the
  worker keeps for an invalid path is never needed. Service and method are the first two
  parts of the path, or both come from its only part.
\<close>

lemma grpc_request_constructed:
  assumes "is_grpc_request H r"
  shows "\<exists>g p ps. GrpcRequest_new r = Some g \<and> request g = r
    \<and> path_parts (uri_path r) = p # ps
    \<and> (service g, method_name g) = (case ps of [] \<Rightarrow> (''echo.'' @ p, p) | m # _ \<Rightarrow> (p, m))"
proof -
  from assms obtain p ps where "path_parts (uri_path r) = p # ps"
    by (cases "path_parts (uri_path r)") (auto simp: is_grpc_request_def split: if_splits option.splits)
  then show ?thesis
    by (cases ps) (auto simp: GrpcRequest_new_def)
qed

lemma foldl_map_upd:
  "foldl (\<lambda>params (key, value). params(key \<mapsto> value)) m kvs = m ++ map_of (rev kvs)"
  by (induction kvs arbitrary: m) (auto simp: map_add_def fun_eq_iff split: option.splits)

lemma find_param_map_of: "find_param key kvs = map_of kvs key"
  by (induction kvs) auto

lemma map_of_rev_distinct: "distinct (map fst kvs) \<Longrightarrow> map_of (rev kvs) = map_of kvs"
  by (rule map_of_inject_set [THEN iffD2]) (simp_all add: rev_map flip: rev_map)

text \<open>
  The two ways to read a query parameter: \<open>query_param\<close> gives the first value of the
  key and the hash \<open>query_params\<close> holds the last, so they agree when no key is repeated and
  differ on a key given twice with different values.
\<close>

lemma query_param_agrees:
  assumes "uri_query r = Some q"
  shows "query_param urlparse r (Some key) = Some (map_of (urlparse q) key)
    \<and> query_params urlparse r key = map_of (rev (urlparse q)) key
    \<and> (distinct (map fst (urlparse q)) \<longrightarrow>
        query_param urlparse r (Some key) = Some (query_params urlparse r key))"
  using assms map_of_rev_distinct [of "urlparse q"]
  by (auto simp: query_param_def query_params_def find_param_map_of foldl_map_upd)

end
