(* ===== verification/Response.thy ===== *)
theory Response
  imports Grpc
begin

text \<open>
  The response objects of \<open>response.rs\<close>. The outer \<open>None\<close> of a constructor is a panic of an
  \<open>unwrap\<close>; the sum inside is the Rust \<open>Result\<close>, whose error is the message of the Ruby
  exception. The header hash is the list of its pairs in iteration order, each side the
  text Ruby converts it to, or \<open>None\<close> where it is no string (the \<open>unwrap\<close> of \<open>foreach\<close>).
\<close>

type_synonym 'hm Response = "'hm HyperResponse"
type_synonym 'hm GrpcResponse = "'hm HyperResponse"

section \<open>HTTP responses\<close>

fun insert_headers ::
  "('hm, 'b) http \<Rightarrow> 'hm \<Rightarrow> (string option \<times> string option) list \<Rightarrow> 'hm option" where
  "insert_headers H m [] = Some m"
| "insert_headers H m ((key, value) # rest) =
     do {
       k \<leftarrow> key;
       v \<leftarrow> value;
       header_name \<leftarrow> header_name H k;
       header_value \<leftarrow> header_value_of_string H v;
       insert_headers H (header_map_insert H m header_name header_value) rest
     }"

definition Response_new ::
  "('hm, 'b) http \<Rightarrow> u16 \<Rightarrow> (string option \<times> string option) list \<Rightarrow> bytes
   \<Rightarrow> (string + 'hm Response) option" where
  "Response_new H status hash body =
     (let builder = builder_status H status in
      do {
        builder_headers \<leftarrow> builder_headers_mut H builder;
        builder_headers \<leftarrow> insert_headers H builder_headers hash;
        if length body > 0 then do {
          content_length \<leftarrow> header_value_of_string H (to_string (length body));
          let builder = builder_set_headers H builder
                (header_map_insert H builder_headers ''content-length'' content_length);
          Some (case builder_body H builder (BodyWithTrailers_new body None) of
                  Some response \<Rightarrow> Inr response
                | None \<Rightarrow> Inl ''Failed to create response'')
        } else do {
          content_length \<leftarrow> header_value H ''0'';
          let builder = builder_set_headers H builder
                (header_map_insert H builder_headers ''content-length'' content_length);
          Some (case builder_body H builder (BodyWithTrailers_new [] None) of
                  Some response \<Rightarrow> Inr response
                | None \<Rightarrow> Inl ''Failed to create response'')
        }
      })"

definition Response_status :: "'hm Response \<Rightarrow> u16" where
  "Response_status self = response_status self"

text \<open>\<open>headers\<close>, with the same text for both response types.\<close>

fun headers_hash ::
  "('hm, 'b) http \<Rightarrow> (string \<rightharpoonup> string) \<Rightarrow> (string \<times> bytes) list \<Rightarrow> (string \<rightharpoonup> string) option" where
  "headers_hash H hash [] = Some hash"
| "headers_hash H hash ((name, value) # rest) =
     do {
       value_str \<leftarrow> header_value_to_str H value;
       headers_hash H (hash(name \<mapsto> value_str)) rest
     }"

definition Response_headers :: "('hm, 'b) http \<Rightarrow> 'hm Response \<Rightarrow> (string \<rightharpoonup> string) option" where
  "Response_headers H self = headers_hash H Map.empty (header_map_iter H (response_headers self))"

definition Response_body :: "'hm Response \<Rightarrow> bytes" where
  "Response_body self = get_data (response_body self)"

definition Response_into_hyper_response :: "'hm Response \<Rightarrow> 'hm HyperResponse" where
  "Response_into_hyper_response self = self"

declare Response_into_hyper_response_def [simp]

section \<open>gRPC responses\<close>

definition GrpcResponse_new ::
  "('hm, 'b) http \<Rightarrow> u16 \<Rightarrow> bytes \<Rightarrow> (string + 'hm GrpcResponse) option" where
  "GrpcResponse_new H status body =
     (let builder = builder_header H (builder_status H 200) ''content-type'' ''application/grpc+proto'';
          framed_message = encode_grpc_frame body
      in do {
        status_value \<leftarrow> header_value H (to_string (unat status));
        let trailers = header_map_insert H (header_map_new H) ''grpc-status'' status_value;
        encoding \<leftarrow> header_value H ''identity,gzip,deflate,zstd'';
        let trailers = header_map_insert H trailers ''grpc-accept-encoding'' encoding;
        response \<leftarrow> builder_body H builder (BodyWithTrailers_new framed_message (Some trailers));
        Some (Inr response)
      })"

text \<open>
  \<open>status\<close> is the result of converting the argument to \<open>u32\<close>; \<open>message\<close> that of \<open>as_str\<close>.
\<close>

definition GrpcResponse_error ::
  "('hm, 'b) http \<Rightarrow> (string + u32) \<Rightarrow> string option \<Rightarrow> (string + 'hm GrpcResponse) option" where
  "GrpcResponse_error H status message =
     (case status of
        Inl e \<Rightarrow> Some (Inl e)
      | Inr status_num \<Rightarrow>
          do {
            message_str \<leftarrow> message;
            let builder =
              builder_header H (builder_status H 200) ''content-type'' ''application/grpc+proto'';
            status_value \<leftarrow> header_value H (to_string (unat status_num));
            let trailers = header_map_insert H (header_map_new H) ''grpc-status'' status_value;
            encoding \<leftarrow> header_value H ''identity,gzip,deflate,zstd'';
            let trailers = header_map_insert H trailers ''grpc-accept-encoding'' encoding;
            trailers \<leftarrow>
              (if message_str \<noteq> [] then do {
                 value \<leftarrow> header_value H message_str;
                 Some (header_map_insert H trailers ''grpc-message'' value)
               } else Some trailers);
            response \<leftarrow> builder_body H builder (BodyWithTrailers_new [] (Some trailers));
            Some (Inr response)
          })"

definition GrpcResponse_status :: "('hm, 'b) http \<Rightarrow> 'hm GrpcResponse \<Rightarrow> u16" where
  "GrpcResponse_status H self =
     (case header_map_get H (response_headers self) ''grpc-status'' of
        Some status \<Rightarrow>
          (case header_value_to_str H status of
             Some status_str \<Rightarrow>
               (case parse_str (2 ^ 16 - 1) status_str of
                  Some status_num \<Rightarrow> of_nat status_num
                | None \<Rightarrow> 0)
           | None \<Rightarrow> 0)
      | None \<Rightarrow> 0)"

definition GrpcResponse_headers :: "('hm, 'b) http \<Rightarrow> 'hm GrpcResponse \<Rightarrow> (string \<rightharpoonup> string) option" where
  "GrpcResponse_headers H self = headers_hash H Map.empty (header_map_iter H (response_headers self))"

definition GrpcResponse_into_hyper_response :: "'hm GrpcResponse \<Rightarrow> 'hm HyperResponse" where
  "GrpcResponse_into_hyper_response self = self"

declare GrpcResponse_into_hyper_response_def [simp]

definition GrpcResponse_body :: "'hm GrpcResponse \<Rightarrow> bytes" where
  "GrpcResponse_body self =
     (case decode_grpc_frame (get_data (response_body self)) of
        Some (_, message) \<Rightarrow> message
      | None \<Rightarrow> [])"

section \<open>What the constructors build\<close>

text \<open>A header hash the \<open>http\<close> crate takes: names it knows and visible values.\<close>

definition hash_ok :: "('hm, 'b) http \<Rightarrow> (string \<times> string) list \<Rightarrow> bool" where
  "hash_ok H kvs \<longleftrightarrow> (\<forall>(k, v) \<in> set kvs. header_name H k \<noteq> None \<and> list_all visible v)"

definition normal_names :: "('hm, 'b) http \<Rightarrow> (string \<times> string) list \<Rightarrow> (string \<times> string) list" where
  "normal_names H kvs = map (\<lambda>(k, v). (the (header_name H k), v)) kvs"

lemma insert_headers_ok:
  assumes "http_ok H" and "hash_ok H kvs"
  shows "\<exists>m'. insert_headers H m (map (map_prod Some Some) kvs) = Some m' \<and>
    (\<forall>n. header_name H n = Some n \<longrightarrow>
       header_str H m' n = (case map_of (rev (normal_names H kvs)) n of
          Some v \<Rightarrow> Some v | None \<Rightarrow> header_str H m n))"
  using assms(2)
proof (induction kvs arbitrary: m)
  case (Cons kv kvs)
  obtain k v where kv: "kv = (k, v)"
    by fastforce
  with Cons.prems obtain k' v' where k': "header_name H k = Some k'" and
      v': "header_value_of_string H v = Some v'" "header_value_to_str H v' = Some v"
    using header_value_of_string_visible [OF assms(1), of v] by (auto simp: hash_ok_def)
  have step: "header_str H (header_map_insert H m k' v') n = (if n = k' then Some v else header_str H m n)"
    if "header_name H n = Some n" for n
    using that v'(2) header_name_normal [OF assms(1) k']
    by (simp add: header_str_def header_map_get_insert [OF assms(1)])
  have "hash_ok H kvs"
    using Cons.prems by (simp add: hash_ok_def)
  then obtain m' where m': "insert_headers H (header_map_insert H m k' v') (map (map_prod Some Some) kvs) = Some m'"
      "\<forall>n. header_name H n = Some n \<longrightarrow> header_str H m' n =
        (case map_of (rev (normal_names H kvs)) n of
           Some v \<Rightarrow> Some v | None \<Rightarrow> header_str H (header_map_insert H m k' v') n)"
    using Cons.IH by blast
  then show ?case
    using kv k' v' step by (auto simp: normal_names_def map_add_def split: option.splits)
qed (simp add: normal_names_def)

lemma content_length_value:
  assumes "http_ok H"
  shows "\<exists>v. header_value_to_str H v = Some (to_string (length body))
    \<and> (if body \<noteq> [] then header_value_of_string H (to_string (length body)) else header_value H ''0'') = Some v"
proof (cases "body = []")
  case True
  have "to_string 0 = ''0''"
    by (simp add: to_string_def decimal.simps digit_byte_def char_of_eq_iff)
  then show ?thesis
    using True header_value_visible [OF assms, of "''0''"] by (auto simp: visible_def)
next
  case False
  then show ?thesis
    using header_value_of_string_visible [OF assms to_string_visible] by auto
qed

text \<open>
  C31. The constructor of an HTTP response: with header names and values the \<open>http\<close> crate
  takes, a status of 100 to 999 gives a response with that status, the body, its length as
  \<open>content-length\<close> whatever the hash said, and for every other name the last value of the
  hash. Any other status is a panic: the error branches of the constructor are unreachable.
\<close>

theorem response_new_outcome:
  assumes "http_ok H" and "hash_ok H kvs"
  shows "if 100 \<le> status \<and> status < 1000
    then \<exists>r. Response_new H status (map (map_prod Some Some) kvs) body = Some (Inr r)
      \<and> Response_status r = status \<and> response_body r = BodyWithTrailers_new body None
      \<and> Response_body r = body
      \<and> header_str H (response_headers r) ''content-length'' = Some (to_string (length body))
      \<and> (\<forall>n. header_name H n = Some n \<longrightarrow> n \<noteq> ''content-length'' \<longrightarrow>
           header_str H (response_headers r) n = map_of (rev (normal_names H kvs)) n)
    else Response_new H status (map (map_prod Some Some) kvs) body = None"
proof (cases "100 \<le> status \<and> status < 1000")
  case False
  then have "builder_parts H (builder_status H status) = None"
    unfolding builder_parts_status [OF assms(1)] by (rule if_not_P)
  then have "builder_headers_mut H (builder_status H status) = None"
    by (simp add: builder_headers_mut_parts [OF assms(1)])
  then have "Response_new H status (map (map_prod Some Some) kvs) body = None"
    by (simp add: Response_new_def)
  with False show ?thesis
    by (simp only: if_False)
next
  case True
  let ?b = "builder_status H status"
  have parts: "builder_parts H ?b = Some (status, header_map_new H)"
    using assms(1) True by (simp add: builder_parts_status)
  have mut: "builder_headers_mut H ?b = Some (header_map_new H)"
    using parts assms(1) by (simp add: builder_headers_mut_parts)
  obtain m where m: "insert_headers H (header_map_new H) (map (map_prod Some Some) kvs) = Some m"
      "\<forall>n. header_name H n = Some n \<longrightarrow> header_str H m n = map_of (rev (normal_names H kvs)) n"
    using insert_headers_ok [OF assms, of "header_map_new H"] header_map_get_new [OF assms(1)]
    by (fastforce simp: header_str_def split: option.splits)
  have name: "header_name H ''content-length'' = Some ''content-length''"
    by (rule header_name_token [OF assms(1)]) (simp_all add: token_char_def)
  obtain v where v: "header_value_to_str H v = Some (to_string (length body))"
      "(if body \<noteq> [] then header_value_of_string H (to_string (length body)) else header_value H ''0'') = Some v"
    using content_length_value [OF assms(1)] by blast
  define m' where "m' = header_map_insert H m ''content-length'' v"
  have "header_str H m' n = (if n = ''content-length'' then Some (to_string (length body)) else header_str H m n)"
    if "header_name H n = Some n" for n
    using that v(1) name by (simp add: m'_def header_str_def header_map_get_insert [OF assms(1)])
  moreover have "Response_new H status (map (map_prod Some Some) kvs) body
      = Some (Inr \<lparr>response_status = status, response_headers = m',
          response_body = BodyWithTrailers_new body None\<rparr>)"
    using v(2) mut m(1) builder_parts_set_headers [OF assms(1) parts]
    by (cases "body = []") (simp_all add: Response_new_def builder_body_def Let_def m'_def)
  ultimately show ?thesis
    using True m(2) name
    by (simp add: Response_status_def Response_body_def get_data_def BodyWithTrailers_new_def)
qed

theorem response_new_outcome_witness:
  "(\<exists>r. Response_new simple_http 204 (map (map_prod Some Some) []) [] = Some (Inr r)
      \<and> Response_status r = 204)
   \<and> Response_new simple_http 99 (map (map_prod Some Some) []) [] = None"
proof -
  have "hash_ok simple_http []"
    by (simp add: hash_ok_def)
  then show ?thesis
    using response_new_outcome [OF simple_http_ok, of "[]" 204 "[]"]
      response_new_outcome [OF simple_http_ok, of "[]" 99 "[]"] by auto
qed

section \<open>gRPC responses, built\<close>

lemma grpc_builder_parts:
  assumes "http_ok H"
  shows "\<exists>m. builder_parts H
      (builder_header H (builder_status H 200) ''content-type'' ''application/grpc+proto'') = Some (200, m)
    \<and> header_str H m ''content-type'' = Some ''application/grpc+proto''
    \<and> header_map_get H m ''grpc-status'' = None"
proof -
  obtain ct where "header_value_to_str H ct = Some ''application/grpc+proto''"
      "builder_parts H (builder_header H (builder_status H 200) ''content-type'' ''application/grpc+proto'')
        = Some (200, header_map_insert H (header_map_new H) ''content-type'' ct)"
    using builder_parts_header [OF assms, of 200 "''content-type''" "''application/grpc+proto''"]
      grpc_encodings_visible by (auto simp: token_char_def)
  then show ?thesis
    by (simp add: header_str_def header_map_get_insert [OF assms] header_map_get_new [OF assms]
        grpc_names [OF assms])
qed

lemma trailer_values:
  assumes "http_ok H"
  obtains sv ev where "header_value H (to_string n) = Some sv"
    and "header_value_to_str H sv = Some (to_string n)"
    and "header_value H ''identity,gzip,deflate,zstd'' = Some ev"
    and "header_value_to_str H ev = Some ''identity,gzip,deflate,zstd''"
  using header_value_visible [OF assms to_string_visible]
    header_value_visible [OF assms grpc_encodings_visible(1)] by blast

lemma GrpcResponse_status_no_header:
  "header_map_get H (response_headers r) ''grpc-status'' = None \<Longrightarrow> GrpcResponse_status H r = 0"
  by (simp add: GrpcResponse_status_def)

text \<open>
  A gRPC response is HTTP status 200 with the framed message as its body and the gRPC
  status in its trailers, and its \<open>body\<close> gives a message shorter than 4 GiB back. Its
  \<open>status\<close> method answers 0 whatever the status was: it looks for the status among the
  headers, where the constructor never puts it.
\<close>

lemma grpc_response_new:
  assumes "http_ok H"
  shows "\<exists>r t. GrpcResponse_new H status body = Some (Inr r) \<and> response_status r = 200
    \<and> response_body r = BodyWithTrailers_new (encode_grpc_frame body) (Some t)
    \<and> error_trailers H t (of_nat (unat status)) []
    \<and> (length body < 2 ^ 32 \<longrightarrow> GrpcResponse_body r = body)
    \<and> GrpcResponse_status H r = 0"
proof -
  obtain m where m: "builder_parts H
      (builder_header H (builder_status H 200) ''content-type'' ''application/grpc+proto'') = Some (200, m)"
      "header_map_get H m ''grpc-status'' = None"
    using grpc_builder_parts [OF assms] by blast
  have "unat status < 2 ^ 16"
    using unsigned_less [of status] by simp
  then have u: "unat (of_nat (unat status) :: u32) = unat status"
    by (simp only: unat_of_nat_u32) simp
  obtain sv ev where tv: "header_value H (to_string (unat status)) = Some sv"
      "header_value_to_str H sv = Some (to_string (unat status))"
      "header_value H ''identity,gzip,deflate,zstd'' = Some ev"
      "header_value_to_str H ev = Some ''identity,gzip,deflate,zstd''"
    by (rule trailer_values [OF assms])
  define t where "t = header_map_insert H (header_map_insert H (header_map_new H) ''grpc-status'' sv)
    ''grpc-accept-encoding'' ev"
  define r where "r = \<lparr>response_status = 200, response_headers = m,
    response_body = BodyWithTrailers_new (encode_grpc_frame body) (Some t)\<rparr>"
  have "GrpcResponse_new H status body = Some (Inr r)"
    using m tv by (simp add: GrpcResponse_new_def builder_body_def Let_def t_def r_def)
  moreover have "error_trailers H t (of_nat (unat status)) []"
    using error_trailers_built [OF assms, of sv "of_nat (unat status)" ev "[]"] tv
    by (simp only: u t_def) simp
  moreover have "length body < 2 ^ 32 \<longrightarrow> GrpcResponse_body r = body"
    using grpc_frame.decode_whole [of body]
    by (auto simp: GrpcResponse_body_def r_def get_data_def BodyWithTrailers_new_def frame_fits_def)
  moreover have "GrpcResponse_status H r = 0"
    by (rule GrpcResponse_status_no_header) (simp add: r_def m)
  ultimately show ?thesis
    by (intro exI [of _ r] exI [of _ t]) (simp add: r_def)
qed

text \<open>
  C32. A gRPC error response carries its status and its message in the trailers, and nothing
  in its body. The message has to be header text: one the \<open>http\<close> crate refuses, such as a
  message with a line break, is a panic and not an error value.
\<close>

theorem grpc_response_error:
  assumes "http_ok H"
  shows "(list_all visible message \<longrightarrow>
      (\<exists>r t. GrpcResponse_error H (Inr status) (Some message) = Some (Inr r) \<and> response_status r = 200
        \<and> response_body r = BodyWithTrailers_new [] (Some t) \<and> error_trailers H t status message
        \<and> GrpcResponse_body r = [] \<and> GrpcResponse_status H r = 0))
    \<and> (message \<noteq> [] \<and> header_value H message = None \<longrightarrow>
        GrpcResponse_error H (Inr status) (Some message) = None)"
proof -
  obtain m where m: "builder_parts H
      (builder_header H (builder_status H 200) ''content-type'' ''application/grpc+proto'') = Some (200, m)"
      "header_map_get H m ''grpc-status'' = None"
    using grpc_builder_parts [OF assms] by blast
  obtain sv ev where tv: "header_value H (to_string (unat status)) = Some sv"
      "header_value_to_str H sv = Some (to_string (unat status))"
      "header_value H ''identity,gzip,deflate,zstd'' = Some ev"
      "header_value_to_str H ev = Some ''identity,gzip,deflate,zstd''"
    by (rule trailer_values [OF assms])
  have "\<exists>r t. GrpcResponse_error H (Inr status) (Some message) = Some (Inr r) \<and> response_status r = 200
        \<and> response_body r = BodyWithTrailers_new [] (Some t) \<and> error_trailers H t status message
        \<and> GrpcResponse_body r = [] \<and> GrpcResponse_status H r = 0" if visible: "list_all visible message"
  proof -
    obtain mv where mv: "header_value H message = Some mv" "header_value_to_str H mv = Some message"
      using header_value_visible [OF assms visible] by blast
    define t where "t = (if message \<noteq> [] then \<lambda>t. header_map_insert H t ''grpc-message'' mv else id)
      (header_map_insert H (header_map_insert H (header_map_new H) ''grpc-status'' sv)
        ''grpc-accept-encoding'' ev)"
    define r where "r = \<lparr>response_status = 200, response_headers = m,
      response_body = BodyWithTrailers_new [] (Some t)\<rparr>"
    have "GrpcResponse_error H (Inr status) (Some message) = Some (Inr r)"
      using m tv mv by (simp add: GrpcResponse_error_def builder_body_def Let_def t_def r_def)
    moreover have "error_trailers H t status message"
      unfolding t_def by (rule error_trailers_built [OF assms tv(2,4)]) (rule mv(2))
    moreover have "GrpcResponse_status H r = 0"
      by (rule GrpcResponse_status_no_header) (simp add: r_def m)
    ultimately show ?thesis
      by (intro exI [of _ r] exI [of _ t])
        (simp add: r_def GrpcResponse_body_def get_data_def BodyWithTrailers_new_def
          decode_grpc_frame_def GRPC_HEADER_SIZE_def)
  qed
  then show ?thesis
    using tv by (simp add: GrpcResponse_error_def Let_def)
qed

theorem grpc_response_error_witness:
  "GrpcResponse_error simple_http (Inr 3) (Some [CHR 0x0A]) = None
   \<and> (\<exists>r t. GrpcResponse_error simple_http (Inr 3) (Some ''bad'') = Some (Inr r)
      \<and> response_body r = BodyWithTrailers_new [] (Some t) \<and> error_trailers simple_http t 3 ''bad'')"
proof -
  have "header_value simple_http [CHR 0x0A] = None"
    by (simp add: simple_http_def visible_def)
  moreover have "list_all visible ''bad''"
    by (simp add: visible_def)
  ultimately show ?thesis
    using grpc_response_error [OF simple_http_ok, of "[CHR 0x0A]" 3]
      grpc_response_error [OF simple_http_ok, of "''bad''" 3] by blast
qed

end
