(* ===== verification/Worker.thy ===== *)
theory Worker
  imports Messages Request Response
begin

text \<open>
  The Ruby worker loop of \<open>lib.rs\<close>: which queue the next piece of work comes from
  (\<open>next_work_item\<close> and its helpers), what the block's result is turned into, and the loop
  \<open>run_worker\<close> itself.

  The crossbeam channels are outside the repository. Their receiving ends are the operations
  of a record \<open>channels\<close> over a state \<open>'w\<close> that other threads may have changed in between; an
  operation answers and gives the state after it. The streak is a \<open>u32\<close> and wraps.
\<close>

section \<open>Work\<close>

record 'hm RequestWithCompletion =
  work_request :: "'hm HyperRequest"
  response_tx :: nat

datatype 'hm WorkItem = Http "'hm RequestWithCompletion" | Syslog SyslogDelivery

datatype 'hm TryWork = Found "'hm WorkItem" | Empty | Closed

datatype 'a try_recv = Received 'a | TryEmpty | Disconnected

text \<open>
  \<open>try_recv\<close> of the two queues, the blocking \<open>recv\<close> of the HTTP queue, and the blocking
  \<open>select!\<close> over both (\<open>None\<close>: the queue it picked is closed).
\<close>

record ('w, 'hm) channels =
  work_try_recv :: "'w \<Rightarrow> 'hm RequestWithCompletion try_recv \<times> 'w"
  syslog_try_recv :: "'w \<Rightarrow> SyslogDelivery try_recv \<times> 'w"
  work_recv :: "'w \<Rightarrow> 'hm RequestWithCompletion option \<times> 'w"
  select_recv :: "'w \<Rightarrow> 'hm WorkItem option \<times> 'w"

fun into_work_item :: "'hm TryWork \<Rightarrow> 'hm WorkItem option" where
  "into_work_item (Found work_item) = Some work_item"
| "into_work_item Empty = None"
| "into_work_item Closed = None"

definition try_http_work_item :: "('w, 'hm) channels \<Rightarrow> 'w \<Rightarrow> 'hm TryWork \<times> 'w" where
  "try_http_work_item C w =
     (case work_try_recv C w of
        (Received req, w') \<Rightarrow> (Found (Http req), w')
      | (TryEmpty, w') \<Rightarrow> (Empty, w')
      | (Disconnected, w') \<Rightarrow> (Closed, w'))"

definition try_syslog_work_item :: "('w, 'hm) channels \<Rightarrow> 'w \<Rightarrow> 'hm TryWork \<times> 'w" where
  "try_syslog_work_item C w =
     (case syslog_try_recv C w of
        (Received delivery, w') \<Rightarrow> (Found (Syslog delivery), w')
      | (TryEmpty, w') \<Rightarrow> (Empty, w')
      | (Disconnected, w') \<Rightarrow> (Closed, w'))"

definition count_work_item :: "'hm TryWork \<Rightarrow> u32 \<Rightarrow> 'hm WorkItem option \<times> u32" where
  "count_work_item outcome syslog_streak =
     (let syslog_streak' =
        (case outcome of
           Found (Syslog _) \<Rightarrow> syslog_streak + 1
         | Found (Http _) \<Rightarrow> 0
         | _ \<Rightarrow> syslog_streak)
      in (into_work_item outcome, syslog_streak'))"

definition next_http_work_item :: "('w, 'hm) channels \<Rightarrow> 'w \<Rightarrow> 'hm WorkItem option \<times> 'w" where
  "next_http_work_item C w =
     (case work_try_recv C w of
        (Received req, w') \<Rightarrow> (Some (Http req), w')
      | (TryEmpty, w') \<Rightarrow> (let (r, w'') = work_recv C w' in (map_option Http r, w''))
      | (Disconnected, w') \<Rightarrow> (None, w'))"

definition blocking_select ::
  "('w, 'hm) channels \<Rightarrow> 'w \<Rightarrow> u32 \<Rightarrow> 'hm WorkItem option \<times> u32 \<times> 'w" where
  "blocking_select C w syslog_streak =
     (case select_recv C w of
        (Some work_item, w') \<Rightarrow>
          (let (item, streak) = count_work_item (Found work_item) syslog_streak in (item, streak, w'))
      | (None, w') \<Rightarrow> (None, syslog_streak, w'))"

definition next_work_item ::
  "('w, 'hm) channels \<Rightarrow> u32 \<Rightarrow> 'w \<Rightarrow> u32 \<Rightarrow> 'hm WorkItem option \<times> u32 \<times> 'w" where
  "next_work_item C work_ratio w syslog_streak =
     (let counted = (\<lambda>outcome w. let (item, streak) = count_work_item outcome syslog_streak in (item, streak, w))
      in if syslog_streak < work_ratio then
           (case try_syslog_work_item C w of
              (Empty, w1) \<Rightarrow>
                (case try_http_work_item C w1 of
                   (Empty, w2) \<Rightarrow> blocking_select C w2 syslog_streak
                 | (outcome, w2) \<Rightarrow> counted outcome w2)
            | (outcome, w1) \<Rightarrow> counted outcome w1)
         else
           (case try_http_work_item C w of
              (Empty, w1) \<Rightarrow>
                (case try_syslog_work_item C w1 of
                   (Empty, w2) \<Rightarrow> blocking_select C w2 syslog_streak
                 | (outcome, w2) \<Rightarrow> counted outcome w2)
            | (outcome, w1) \<Rightarrow> counted outcome w1))"

section \<open>Handing work to the block\<close>

text \<open>What the block is called with, and what comes of the call.\<close>

datatype 'hm argument =
    RequestValue "'hm Request"
  | GrpcRequestValue "'hm GrpcRequest"
  | MessageValue SyslogMessage

text \<open>A value is a gRPC response, a response, or something else that is truthy or not.\<close>

datatype 'hm block_result =
    GrpcResponseValue "'hm GrpcResponse"
  | ResponseValue "'hm Response"
  | OtherValue bool
  | BlockError

definition create_error_response :: "('hm, 'b) http \<Rightarrow> string \<Rightarrow> 'hm HyperResponse option" where
  "create_error_response H error_message =
     (let builder = builder_header H (builder_status H 500) ''content-type'' ''text/plain''
      in builder_body H builder (BodyWithTrailers_new (as_bytes error_message) None))"

fun call_block_with_syslog_message :: "'hm block_result \<Rightarrow> HandlerResult" where
  "call_block_with_syslog_message (ResponseValue _) = Failed"
| "call_block_with_syslog_message (GrpcResponseValue _) = Failed"
| "call_block_with_syslog_message (OtherValue result) = (if result then Accepted else Refused)"
| "call_block_with_syslog_message BlockError = Failed"

fun block_response :: "('hm, 'b) http \<Rightarrow> 'hm block_result \<Rightarrow> 'hm HyperResponse option" where
  "block_response H (GrpcResponseValue grpc_response) = Some (GrpcResponse_into_hyper_response grpc_response)"
| "block_response H (ResponseValue http_response) = Some (Response_into_hyper_response http_response)"
| "block_response H (OtherValue _) = create_error_response H ''Internal server error''"
| "block_response H BlockError = create_error_response H ''Internal server error''"

text \<open>What a worker sends back: a response on a request's channel, or a verdict.\<close>

datatype 'hm reply = Responded nat "'hm HyperResponse" | Verdict nat HandlerResult

text \<open>The body of the loop for one item; \<open>None\<close> is a panic.\<close>

definition process_http ::
  "('hm, 'b) http \<Rightarrow> ('hm argument \<Rightarrow> 'hm block_result) \<Rightarrow> 'hm RequestWithCompletion \<Rightarrow> 'hm reply option" where
  "process_http H block work =
     (let hyper_request = work_request work;
          answer = (\<lambda>value. do {
            hyper_response \<leftarrow> block_response H (block value);
            Some (Responded (response_tx work) hyper_response)
          })
      in if is_grpc_request H hyper_request then
           (case GrpcRequest_new hyper_request of
              Some grpc_request \<Rightarrow> answer (GrpcRequestValue grpc_request)
            | None \<Rightarrow>
                (case GrpcResponse_error H (Inr 3) (Some ''Invalid gRPC request path'') of
                   Some (Inr response) \<Rightarrow>
                     Some (Responded (response_tx work) (GrpcResponse_into_hyper_response response))
                 | _ \<Rightarrow> None))
         else answer (RequestValue (Request_new hyper_request)))"

definition process_syslog :: "('hm argument \<Rightarrow> 'hm block_result) \<Rightarrow> SyslogDelivery \<Rightarrow> 'hm reply" where
  "process_syslog block delivery =
     (let (msg, tx) = into_parts delivery;
          result = call_block_with_syslog_message (block (MessageValue msg))
      in Verdict tx result)"

fun process_item ::
  "('hm, 'b) http \<Rightarrow> ('hm argument \<Rightarrow> 'hm block_result) \<Rightarrow> 'hm WorkItem \<Rightarrow> 'hm reply option" where
  "process_item H block (Http work) = process_http H block work"
| "process_item H block (Syslog delivery) = Some (process_syslog block delivery)"

text \<open>
  The loop, for \<open>n\<close> rounds: the items taken with their replies, and whether it has stopped.
  The block may differ from call to call; its results are indexed by the round.
\<close>

fun run_worker ::
  "('hm, 'b) http \<Rightarrow> ('w, 'hm) channels \<Rightarrow> (nat \<Rightarrow> 'hm argument \<Rightarrow> 'hm block_result) \<Rightarrow> bool \<Rightarrow> u32
   \<Rightarrow> nat \<Rightarrow> 'w \<Rightarrow> u32 \<Rightarrow> (('hm WorkItem \<times> 'hm reply) list \<times> bool) option" where
  "run_worker H C block syslog_enabled work_ratio 0 w syslog_streak = Some ([], False)"
| "run_worker H C block syslog_enabled work_ratio (Suc n) w syslog_streak =
     (let (next, streak, w') =
        (if syslog_enabled then next_work_item C work_ratio w syslog_streak
         else let (item, w') = next_http_work_item C w in (item, syslog_streak, w'))
      in case next of
           None \<Rightarrow> Some ([], True)
         | Some work_item \<Rightarrow>
             do {
               reply \<leftarrow> process_item H (block n) work_item;
               (rest, stopped) \<leftarrow> run_worker H C block syslog_enabled work_ratio n w' streak;
               Some ((work_item, reply) # rest, stopped)
             })"

text \<open>
  The method that a Ruby thread calls: a panic without a block, an exception before \<open>start\<close>, and
  the loop otherwise, with the count of messages at zero. The receivers are there or not.
\<close>

definition Server_run_worker ::
  "('hm, 'b) http \<Rightarrow> ('w, 'hm) channels \<Rightarrow> (nat \<Rightarrow> 'hm argument \<Rightarrow> 'hm block_result) option
   \<Rightarrow> 'c option \<Rightarrow> 'c option \<Rightarrow> bool \<Rightarrow> u32 \<Rightarrow> nat \<Rightarrow> 'w
   \<Rightarrow> (string + (('hm WorkItem \<times> 'hm reply) list \<times> bool)) option" where
  "Server_run_worker H C block_proc work_rx syslog_work_rx syslog_enabled work_ratio n w = do {
     block \<leftarrow> block_proc;
     case (work_rx, syslog_work_rx) of
       (None, _) \<Rightarrow> Some (Inl ''Server must be started before running workers'')
     | (_, None) \<Rightarrow> Some (Inl ''Server must be started before running workers'')
     | (Some _, Some _) \<Rightarrow>
         map_option Inr (run_worker H C block syslog_enabled work_ratio n w 0)
   }"

text \<open>The items the next \<open>n\<close> rounds take, in order, and the queues as they leave them.\<close>

fun taken :: "('w, 'hm) channels \<Rightarrow> u32 \<Rightarrow> nat \<Rightarrow> 'w \<Rightarrow> u32 \<Rightarrow> 'hm WorkItem list" where
  "taken C work_ratio 0 w syslog_streak = []"
| "taken C work_ratio (Suc n) w syslog_streak =
     (case next_work_item C work_ratio w syslog_streak of
        (None, _) \<Rightarrow> []
      | (Some item, streak, w') \<Rightarrow> item # taken C work_ratio n w' streak)"

fun after_taken :: "('w, 'hm) channels \<Rightarrow> u32 \<Rightarrow> nat \<Rightarrow> 'w \<Rightarrow> u32 \<Rightarrow> 'w" where
  "after_taken C work_ratio 0 w syslog_streak = w"
| "after_taken C work_ratio (Suc n) w syslog_streak =
     (case next_work_item C work_ratio w syslog_streak of
        (None, _, w') \<Rightarrow> w'
      | (Some item, streak, w') \<Rightarrow> after_taken C work_ratio n w' streak)"

fun is_Http :: "'hm WorkItem \<Rightarrow> bool" where
  "is_Http (Http _) = True"
| "is_Http (Syslog _) = False"

section \<open>Choosing the queue\<close>

lemma next_syslog:
  assumes "syslog_streak < work_ratio" and "syslog_try_recv C w = (Received d, w')"
  shows "next_work_item C work_ratio w syslog_streak = (Some (Syslog d), syslog_streak + 1, w')"
  using assms by (simp add: next_work_item_def try_syslog_work_item_def count_work_item_def)

lemma next_http:
  assumes "\<not> syslog_streak < work_ratio" and "work_try_recv C w = (Received r, w')"
  shows "next_work_item C work_ratio w syslog_streak = (Some (Http r), 0, w')"
  using assms by (simp add: next_work_item_def try_http_work_item_def count_work_item_def)

lemma next_with_request_waiting:
  assumes "syslog_streak < work_ratio" and "work_try_recv C (snd (syslog_try_recv C w)) = (Received r, w')"
  shows "case syslog_try_recv C w of
      (Received d, w1) \<Rightarrow> next_work_item C work_ratio w syslog_streak = (Some (Syslog d), syslog_streak + 1, w1)
    | (TryEmpty, w1) \<Rightarrow> next_work_item C work_ratio w syslog_streak = (Some (Http r), 0, w')
    | (Disconnected, w1) \<Rightarrow> next_work_item C work_ratio w syslog_streak = (None, syslog_streak, w1)"
  using assms
  by (auto simp: next_work_item_def try_syslog_work_item_def try_http_work_item_def
      count_work_item_def split: prod.splits try_recv.splits)

lemma streak_step:
  assumes "(s :: u32) < r"
  shows "unat (s + 1) = Suc (unat s)" and "unat r - unat s = Suc (unat r - unat (s + 1))"
    and "s + 1 \<le> r"
proof -
  have "unat s < unat r" "unat r < 2 ^ 32"
    using assms unat_less_u32 by (simp_all add: word_less_nat_alt)
  then have "(unat s + 1) mod 2 ^ 32 = Suc (unat s)"
    by simp
  moreover have "unat (s + 1) = (unat s + 1) mod 2 ^ 32"
    by (simp add: unat_word_ariths)
  ultimately show *: "unat (s + 1) = Suc (unat s)"
    by simp
  with \<open>unat s < unat r\<close> show "unat r - unat s = Suc (unat r - unat (s + 1))" and "s + 1 \<le> r"
    by (simp_all add: word_le_nat_alt)
qed

text \<open>
  What a worker does while the request \<open>r\<close> waits: after \<open>k\<close> messages it takes \<open>r\<close>, or it finds the
  syslog queue closed and stops.
\<close>

definition waits_for ::
  "('w, 'hm) channels \<Rightarrow> u32 \<Rightarrow> 'hm RequestWithCompletion \<Rightarrow> nat \<Rightarrow> 'w \<Rightarrow> u32 \<Rightarrow> nat \<Rightarrow> bool" where
  "waits_for C work_ratio r n w s k \<longleftrightarrow>
     (\<forall>i < k. \<not> is_Http (taken C work_ratio n w s ! i))
     \<and> (k < length (taken C work_ratio n w s) \<and> taken C work_ratio n w s ! k = Http r
        \<or> length (taken C work_ratio n w s) = k
          \<and> fst (syslog_try_recv C (after_taken C work_ratio k w s)) = Disconnected)"

lemma waits_for_Suc:
  assumes "next_work_item C work_ratio w s = (Some (Syslog d), s', w1)" and "waits_for C work_ratio r n w1 s' k"
  shows "waits_for C work_ratio r (Suc n) w s (Suc k)"
  using assms by (auto simp: waits_for_def nth_Cons split: nat.splits)

lemma request_wait:
  assumes "\<And>w. waiting w \<Longrightarrow> \<exists>w'. work_try_recv C w = (Received r, w')"
    and "\<And>w. waiting w \<Longrightarrow> waiting (snd (syslog_try_recv C w))"
    and "waiting w" and "n = unat work_ratio - unat s"
  shows "\<exists>k \<le> n. waits_for C work_ratio r (Suc n) w s k"
  using assms(3,4)
proof (induction n arbitrary: w s)
  case 0
  obtain w' where "work_try_recv C w = (Received r, w')"
    using assms(1) [OF "0.prems"(1)] by blast
  moreover have "\<not> s < work_ratio"
    using "0.prems"(2) by (simp add: word_less_nat_alt)
  ultimately show ?case
    by (simp add: next_http waits_for_def)
next
  case (Suc n)
  have less: "s < work_ratio"
    using Suc.prems(2) by (simp add: word_less_nat_alt)
  obtain a w1 where a: "syslog_try_recv C w = (a, w1)"
    by fastforce
  then have w1: "waiting w1"
    using assms(2) [OF Suc.prems(1)] by simp
  then obtain w2 where "work_try_recv C w1 = (Received r, w2)"
    using assms(1) by blast
  with a next_with_request_waiting [OF less, of C w r w2]
  consider (syslog) d where "next_work_item C work_ratio w s = (Some (Syslog d), s + 1, w1)"
    | (http) "next_work_item C work_ratio w s = (Some (Http r), 0, w2)"
    | (closed) "next_work_item C work_ratio w s = (None, s, w1)" "a = Disconnected"
    by (cases a) simp_all
  then show ?case
  proof cases
    case syslog
    have "n = unat work_ratio - unat (s + 1)"
      using Suc.prems(2) streak_step(2) [OF less] by simp
    from Suc.IH [OF w1 this] waits_for_Suc [OF syslog] show ?thesis
      by (meson Suc_le_mono)
  qed (intro exI [of _ 0], simp add: waits_for_def a)+
qed

lemma taken_pattern:
  assumes "\<And>w. \<exists>r w'. work_try_recv C w = (Received r, w')"
    and "\<And>w. \<exists>d w'. syslog_try_recv C w = (Received d, w')" and "s \<le> work_ratio"
  shows "length (taken C work_ratio n w s) = n
    \<and> (\<forall>i < n. is_Http (taken C work_ratio n w s ! i)
         \<longleftrightarrow> (i + unat s) mod Suc (unat work_ratio) = unat work_ratio)"
  using assms(3)
proof (induction n arbitrary: w s)
  case (Suc n)
  let ?P = "\<lambda>i. (i + unat s) mod Suc (unat work_ratio) = unat work_ratio"
  show ?case
  proof (cases "s < work_ratio")
    case True
    obtain d w' where "syslog_try_recv C w = (Received d, w')"
      using assms(2) by blast
    then have xs: "taken C work_ratio (Suc n) w s = Syslog d # taken C work_ratio n w' (s + 1)"
      using True by (simp add: next_syslog)
    have "unat s < unat work_ratio"
      using True by (simp add: word_less_nat_alt)
    then have "\<not> ?P 0"
      by simp
    moreover have "?P (Suc i) \<longleftrightarrow> (i + unat (s + 1)) mod Suc (unat work_ratio) = unat work_ratio" for i
      by (simp only: streak_step(1) [OF True] add_Suc add_Suc_right)
    ultimately show ?thesis
      using Suc.IH [OF streak_step(3) [OF True], of w'] unfolding xs
      by (auto simp: nth_Cons split: nat.splits)
  next
    case False
    then have s: "s = work_ratio"
      using Suc.prems by simp
    obtain r w' where "work_try_recv C w = (Received r, w')"
      using assms(1) by blast
    then have xs: "taken C work_ratio (Suc n) w s = Http r # taken C work_ratio n w' 0"
      using False by (simp add: next_http)
    have "?P (Suc i) \<longleftrightarrow> (i + unat (0 :: u32)) mod Suc (unat work_ratio) = unat work_ratio" for i
      using mod_add_self2 [of i "Suc (unat work_ratio)"] by (simp add: s)
    then show ?thesis
      using Suc.IH [of 0 w'] unfolding xs by (auto simp: nth_Cons s split: nat.splits)
  qed
qed simp

section \<open>Answering\<close>

text \<open>
  What an item is owed: a reply on its own channel. For a request, the response the block
  returned for the request object made of it, or a plain 500; for a message, a verdict.
\<close>

definition request_value :: "('hm, 'b) http \<Rightarrow> 'hm HyperRequest \<Rightarrow> 'hm argument" where
  "request_value H req =
     (if is_grpc_request H req then GrpcRequestValue (the (GrpcRequest_new req)) else RequestValue req)"

fun answers ::
  "('hm, 'b) http \<Rightarrow> ('hm argument \<Rightarrow> 'hm block_result) \<Rightarrow> 'hm WorkItem \<Rightarrow> 'hm reply \<Rightarrow> bool" where
  "answers H block (Http work) reply \<longleftrightarrow>
     (case block (request_value H (work_request work)) of
        GrpcResponseValue r \<Rightarrow> reply = Responded (response_tx work) r
      | ResponseValue r \<Rightarrow> reply = Responded (response_tx work) r
      | _ \<Rightarrow> (\<exists>r. reply = Responded (response_tx work) r \<and> response_status r = 500))"
| "answers H block (Syslog delivery) reply \<longleftrightarrow>
     reply = Verdict (result_tx delivery)
       (call_block_with_syslog_message (block (MessageValue (message delivery))))"

lemma create_error_response_500:
  "http_ok H \<Longrightarrow> \<exists>r. create_error_response H text = Some r \<and> response_status r = 500
     \<and> response_body r = BodyWithTrailers_new (as_bytes text) None"
  using plain_response [of H 500 "BodyWithTrailers_new (as_bytes text) None"]
  by (auto simp: create_error_response_def Let_def)

lemma GrpcRequest_new_grpc: "is_grpc_request H req \<Longrightarrow> GrpcRequest_new req \<noteq> None"
  by (auto simp: is_grpc_request_def GrpcRequest_new_def Let_def split: if_splits option.splits prod.splits)

lemma process_item_answers:
  assumes "http_ok H"
  shows "\<exists>reply. process_item H block item = Some reply \<and> answers H block item reply"
proof (cases item)
  case (Http work)
  let ?arg = "request_value H (work_request work)"
  have "process_item H block item
      = Option.bind (block_response H (block ?arg)) (\<lambda>r. Some (Responded (response_tx work) r))"
    using GrpcRequest_new_grpc [of H "work_request work"]
    by (auto simp: Http process_http_def request_value_def Let_def)
  with create_error_response_500 [OF assms, of "''Internal server error''"] show ?thesis
    by (cases "block ?arg") (auto simp: Http)
next
  case (Syslog delivery)
  then show ?thesis
    by (simp add: process_syslog_def into_parts_def)
qed

lemma run_worker_replies:
  assumes "http_ok H"
  shows "\<exists>log stopped. run_worker H C block syslog_enabled work_ratio n w s = Some (log, stopped)
    \<and> (\<forall>i < length log. answers H (block (n - Suc i)) (fst (log ! i)) (snd (log ! i)))
    \<and> (stopped \<or> length log = n) \<and> (syslog_enabled \<longrightarrow> map fst log = taken C work_ratio n w s)"
proof (induction n arbitrary: w s)
  case (Suc n)
  define step where "step = (if syslog_enabled then next_work_item C work_ratio w s
     else let (item, w') = next_http_work_item C w in (item, s, w'))"
  obtain nxt streak w' where step: "step = (nxt, streak, w')"
    by (metis prod_cases3)
  show ?case
  proof (cases nxt)
    case None
    with step show ?thesis
      by (auto simp: step_def)
  next
    case (Some item)
    obtain reply where reply: "process_item H (block n) item = Some reply" "answers H (block n) item reply"
      using process_item_answers [OF assms] by blast
    obtain log stopped where IH: "run_worker H C block syslog_enabled work_ratio n w' streak = Some (log, stopped)"
        "\<forall>i < length log. answers H (block (n - Suc i)) (fst (log ! i)) (snd (log ! i))"
        "stopped \<or> length log = n" "syslog_enabled \<longrightarrow> map fst log = taken C work_ratio n w' streak"
      using Suc.IH [of w' streak] by blast
    have "run_worker H C block syslog_enabled work_ratio (Suc n) w s = Some ((item, reply) # log, stopped)"
      using step Some reply(1) IH(1) by (simp add: step_def)
    moreover have "syslog_enabled \<longrightarrow> taken C work_ratio (Suc n) w s = item # taken C work_ratio n w' streak"
      using step Some by (auto simp: step_def)
    ultimately show ?thesis
      using reply(2) IH(2-4) by (auto simp: nth_Cons split: nat.split)
  qed
qed (simp add: exI [of _ False])

section \<open>Properties of the workers\<close>

definition sample_request :: "'hm \<Rightarrow> nat \<Rightarrow> 'hm RequestWithCompletion" where
  "sample_request m tx =
     \<lparr>work_request = \<lparr>request_method = ''GET'', uri_host = None, uri_path = ''/'', uri_query = None,
        request_headers = m, request_body = []\<rparr>, response_tx = tx\<rparr>"

definition sample_delivery :: "nat \<Rightarrow> SyslogDelivery" where
  "sample_delivery tx =
     \<lparr>message = \<lparr>msg_bytes = [60], utf8 = True, peer = None, transport = Stream, received_at_ns = 0,
        message_id = 1, attempt = 1\<rparr>, result_tx = tx\<rparr>"

text \<open>Two queues that are never empty, and two finite ones, for evaluation on concrete inputs.\<close>

definition busy :: "'hm \<Rightarrow> (unit, 'hm) channels" where
  "busy m =
     \<lparr>work_try_recv = Pair (Received (sample_request m 1)),
      syslog_try_recv = Pair (Received (sample_delivery 2)),
      work_recv = Pair None, select_recv = Pair None\<rparr>"

definition fifo :: "(unit RequestWithCompletion list \<times> SyslogDelivery list, unit) channels" where
  "fifo =
     \<lparr>work_try_recv = (\<lambda>(hs, ss). case hs of [] \<Rightarrow> (Disconnected, hs, ss) | h # hs' \<Rightarrow> (Received h, hs', ss)),
      syslog_try_recv = (\<lambda>(hs, ss). case ss of [] \<Rightarrow> (TryEmpty, hs, ss) | d # ss' \<Rightarrow> (Received d, hs, ss')),
      work_recv = (\<lambda>w. (None, w)),
      select_recv = (\<lambda>w. (None, w))\<rparr>"

text \<open>
  C20. No work is lost in a worker: every item it takes, request or message, gets exactly one
  reply on its own channel, in the order taken. A request is answered with what the block
  returned for it in that turn, or with a 500 when the block raised or returned something else; a
  message gets the verdict of the block's result. The loop does not panic, and it goes on
  until a queue is closed; with syslog enabled it takes the items \<open>next_work_item\<close> chooses. Before
  \<open>start\<close> the method raises.
\<close>

theorem worker_replies:
  assumes "http_ok H"
  shows "(\<exists>log stopped. Server_run_worker H C (Some block) (Some rx) (Some syslog_rx) syslog_enabled work_ratio n w
        = Some (Inr (log, stopped))
      \<and> (\<forall>i < length log. answers H (block (n - Suc i)) (fst (log ! i)) (snd (log ! i)))
      \<and> (stopped \<or> length log = n) \<and> (syslog_enabled \<longrightarrow> map fst log = taken C work_ratio n w 0))
    \<and> Server_run_worker H C (Some block) None syslog_work_rx syslog_enabled work_ratio n w
      = Some (Inl ''Server must be started before running workers'')"
  using run_worker_replies [OF assms, of C block syslog_enabled work_ratio n w 0]
  by (auto simp: Server_run_worker_def)

theorem worker_replies_witness:
  "\<exists>log stopped. Server_run_worker simple_http (busy []) (Some (\<lambda>_ _. BlockError)) (Some ()) (Some ()) True 4 2 ()
      = Some (Inr (log, stopped))
    \<and> (\<forall>i < length log. answers simple_http (\<lambda>_. BlockError) (fst (log ! i)) (snd (log ! i)))"
proof -
  from worker_replies [OF simple_http_ok, of "busy []" "\<lambda>_ _. BlockError" "()" "()" True 4 2 "()" None]
  obtain log stopped where "Server_run_worker simple_http (busy []) (Some (\<lambda>_ _. BlockError)) (Some ()) (Some ()) True 4 2 ()
        = Some (Inr (log, stopped))"
      "\<forall>i < length log. answers simple_http (\<lambda>_. BlockError) (fst (log ! i)) (snd (log ! i))"
    by blast
  then show ?thesis
    by blast
qed

text \<open>
  With both queues never empty, syslog messages and requests alternate exactly in the
  configured ratio: \<open>work_ratio\<close> messages, then one request, and so on.
\<close>

lemma work_ratio_pattern:
  assumes "\<And>w. \<exists>r w'. work_try_recv C w = (Received r, w')"
    and "\<And>w. \<exists>d w'. syslog_try_recv C w = (Received d, w')"
  shows "length (taken C work_ratio n w 0) = n
    \<and> (\<forall>i < n. is_Http (taken C work_ratio n w 0 ! i)
         \<longleftrightarrow> i mod Suc (unat work_ratio) = unat work_ratio)"
  using taken_pattern [OF assms, of 0 work_ratio n w] by simp

text \<open>
  C22. A waiting request is not starved: as long as a request stays first in its queue while messages
  are taken, the worker takes at most \<open>work_ratio\<close> messages minus those already counted and then
  that very request, unless it finds the syslog queue closed at one of these turns and stops
  there. With the syslog queue open the request is always taken.
\<close>

theorem request_wait_bound:
  assumes "\<And>w. waiting w \<Longrightarrow> \<exists>w'. work_try_recv C w = (Received r, w')"
    and "\<And>w. waiting w \<Longrightarrow> waiting (snd (syslog_try_recv C w))"
    and "waiting w"
  shows "\<exists>k \<le> unat work_ratio - unat s. \<exists>xs. taken C work_ratio (Suc (unat work_ratio - unat s)) w s = xs
    \<and> (\<forall>i < k. \<not> is_Http (xs ! i))
    \<and> (k < length xs \<and> xs ! k = Http r
       \<or> length xs = k \<and> fst (syslog_try_recv C (after_taken C work_ratio k w s)) = Disconnected)"
  using request_wait [OF assms, where s = s and work_ratio = work_ratio] by (simp only: waits_for_def) blast

theorem request_wait_bound_witness:
  "\<exists>k \<le> 2. k < length (taken fifo 2 3 ([sample_request () 1], [sample_delivery 2]) 0)
    \<and> taken fifo 2 3 ([sample_request () 1], [sample_delivery 2]) 0 ! k = Http (sample_request () 1)"
proof -
  let ?w = "([sample_request () 1], [sample_delivery 2])"
  have n: "unat (2 :: u32) - unat (0 :: u32) = 2" and "Suc 2 = 3"
    by simp_all
  have "\<exists>k \<le> unat (2 :: u32) - unat (0 :: u32).
      \<exists>xs. taken fifo 2 (Suc (unat (2 :: u32) - unat (0 :: u32))) ?w 0 = xs \<and> (\<forall>i < k. \<not> is_Http (xs ! i))
      \<and> (k < length xs \<and> xs ! k = Http (sample_request () 1)
         \<or> length xs = k \<and> fst (syslog_try_recv fifo (after_taken fifo 2 k ?w 0)) = Disconnected)"
    by (rule request_wait_bound [where waiting = "\<lambda>(hs, ss). hs = [sample_request () 1]"])
      (auto simp: fifo_def split: list.splits)
  moreover have "fst (syslog_try_recv fifo w) \<noteq> Disconnected" for w
    by (cases w) (auto simp: fifo_def split: list.splits)
  ultimately show ?thesis
    unfolding n \<open>Suc 2 = 3\<close> by blast
qed

end
