(* ===== verification/Http_Handler.thy ===== *)
theory Http_Handler
  imports Worker
begin

text \<open>
  The HTTP side of \<open>lib.rs\<close>: \<open>handle_request\<close>, which collects a body, queues the request for
  a worker and waits for the response, and the plain responses it makes itself.

  What hyper, tokio and crossbeam answer are arguments: how collecting the body ended, the
  result of every \<open>try_send\<close>, the milliseconds elapsed at every turn of the polling loop, and
  whether a worker answered. The polling loop runs on fuel; \<open>None\<close> is fuel running out.
\<close>

section \<open>Responses the server makes itself\<close>

definition create_timeout_response :: "('hm, 'b) http \<Rightarrow> 'hm HyperResponse option" where
  "create_timeout_response H =
     (let builder = builder_header H (builder_status H 408) ''content-type'' ''text/plain''
      in builder_body H builder
           (BodyWithTrailers_new (as_bytes ''Request timed out while receiving body'') None))"

definition create_too_many_requests_response :: "('hm, 'b) http \<Rightarrow> string \<Rightarrow> 'hm HyperResponse option" where
  "create_too_many_requests_response H error_message =
     (let builder = builder_header H (builder_status H 429) ''content-type'' ''text/plain''
      in builder_body H builder (BodyWithTrailers_new (as_bytes error_message) None))"

definition create_bad_request_response :: "('hm, 'b) http \<Rightarrow> string \<Rightarrow> 'hm HyperResponse option" where
  "create_bad_request_response H error_message =
     builder_body H (builder_header H (builder_status H 400) ''content-type'' ''text/plain'')
       (BodyWithTrailers_new (as_bytes error_message) None)"

section \<open>Handling a request\<close>

datatype 'e collect = CollectedBody bytes | CollectError 'e | CollectTimeout

datatype send_outcome = Queued | TimedOut | ShuttingDown

text \<open>
  The polling loop: turn \<open>i\<close> gives up when the time is over, and otherwise sleeps ten
  milliseconds and tries again.
\<close>

fun send_loop :: "nat \<Rightarrow> nat \<Rightarrow> nat \<Rightarrow> (nat \<Rightarrow> nat) \<Rightarrow> (nat \<Rightarrow> try_send) \<Rightarrow> send_outcome option" where
  "send_loop 0 i max_wait elapsed retry = None"
| "send_loop (Suc fuel) i max_wait elapsed retry =
     (if elapsed i \<ge> max_wait then Some TimedOut
      else case retry i of
             Sent \<Rightarrow> Some Queued
           | Full \<Rightarrow> send_loop fuel (Suc i) max_wait elapsed retry
           | SendDisconnected \<Rightarrow> Some ShuttingDown)"

text \<open>What a handled request leaves behind: the request it queued, and its result (\<open>None\<close>: a panic).\<close>

record ('e, 'hm) handled =
  queued :: "'hm HyperRequest option"
  result :: "('e + 'hm HyperResponse) option"

definition shutting_down_response :: "('hm, 'b) http \<Rightarrow> bool \<Rightarrow> string \<Rightarrow> 'hm HyperResponse option" where
  "shutting_down_response H is_grpc text =
     (if is_grpc then create_grpc_error_response H 500 13 text else create_error_response H text)"

definition handle_request ::
  "('hm, 'b) http \<Rightarrow> nat \<Rightarrow> nat \<Rightarrow> (nat \<Rightarrow> nat) \<Rightarrow> try_send \<Rightarrow> (nat \<Rightarrow> try_send)
   \<Rightarrow> 'hm HyperResponse option \<Rightarrow> 'hm HyperRequest \<Rightarrow> u64 option \<Rightarrow> 'e collect
   \<Rightarrow> ('e, 'hm) handled option" where
  "handle_request H fuel send_timeout elapsed first retry answer parts declared_len body =
     (let unsent = (\<lambda>r. Some \<lparr>queued = None, result = map_option Inr r\<rparr>) in
      case body of
        CollectError e \<Rightarrow> Some \<lparr>queued = None, result = Some (Inl e)\<rparr>
      | CollectTimeout \<Rightarrow> unsent (create_timeout_response H)
      | CollectedBody body_bytes \<Rightarrow>
          if (case declared_len of Some declared \<Rightarrow> declared \<noteq> of_nat (length body_bytes) | None \<Rightarrow> False)
          then unsent (create_bad_request_response H ''Body length does not match Content-Length'')
          else
            let hyper_request = parts\<lparr>request_body := body_bytes\<rparr>;
                is_grpc = is_grpc_request H hyper_request
            in do {
              sent \<leftarrow> (case first of
                         Sent \<Rightarrow> Some Queued
                       | Full \<Rightarrow> send_loop fuel 0 send_timeout elapsed retry
                       | SendDisconnected \<Rightarrow> Some ShuttingDown);
              case sent of
                TimedOut \<Rightarrow>
                  unsent (if is_grpc then create_grpc_error_response H 429 8 ''Server too busy, try again later''
                          else create_too_many_requests_response H ''Server too busy, try again later'')
              | ShuttingDown \<Rightarrow> unsent (shutting_down_response H is_grpc ''Server shutting down'')
              | Queued \<Rightarrow>
                  Some \<lparr>queued = Some hyper_request,
                    result = (case answer of
                        Some response \<Rightarrow> Some (Inr response)
                      | None \<Rightarrow> map_option Inr (shutting_down_response H is_grpc ''Failed to get response''))\<rparr>
            })"

section \<open>The polling loop\<close>

text \<open>How the loop ended at turn \<open>k\<close>, after trying in vain at every turn before.\<close>

definition gave_up_at :: "nat \<Rightarrow> (nat \<Rightarrow> nat) \<Rightarrow> (nat \<Rightarrow> try_send) \<Rightarrow> send_outcome \<Rightarrow> nat \<Rightarrow> bool" where
  "gave_up_at max_wait elapsed retry out k \<longleftrightarrow>
     (case out of
        TimedOut \<Rightarrow> max_wait \<le> elapsed k
      | Queued \<Rightarrow> elapsed k < max_wait \<and> retry k = Sent
      | ShuttingDown \<Rightarrow> elapsed k < max_wait \<and> retry k = SendDisconnected)"

lemma send_loop_outcome:
  "send_loop fuel i max_wait elapsed retry = Some out \<Longrightarrow>
   \<exists>k \<ge> i. gave_up_at max_wait elapsed retry out k
     \<and> (\<forall>j. i \<le> j \<and> j < k \<longrightarrow> elapsed j < max_wait \<and> retry j = Full)"
proof (induction fuel arbitrary: i)
  case (Suc fuel)
  show ?case
  proof (cases "elapsed i < max_wait \<and> retry i = Full")
    case True
    with Suc.prems have "send_loop fuel (Suc i) max_wait elapsed retry = Some out"
      by simp
    from Suc.IH [OF this] obtain k where k: "Suc i \<le> k" "gave_up_at max_wait elapsed retry out k"
        "\<forall>j. Suc i \<le> j \<and> j < k \<longrightarrow> elapsed j < max_wait \<and> retry j = Full"
      by blast
    then have "\<forall>j. i \<le> j \<and> j < k \<longrightarrow> elapsed j < max_wait \<and> retry j = Full"
      using True by (metis Suc_leI le_neq_implies_less)
    with k show ?thesis
      by (intro exI [of _ k]) simp
  next
    case False
    with Suc.prems have "gave_up_at max_wait elapsed retry out i"
      by (auto simp: gave_up_at_def not_less split: if_splits try_send.splits)
    then show ?thesis
      by (intro exI [of _ i]) auto
  qed
qed simp

lemma send_loop_returns:
  assumes "\<And>i. 10 * i \<le> elapsed i"
  shows "max_wait div 10 + 2 \<le> fuel + i \<Longrightarrow> 0 < fuel \<Longrightarrow> send_loop fuel i max_wait elapsed retry \<noteq> None"
proof (induction fuel arbitrary: i)
  case (Suc fuel)
  show ?case
  proof (cases "elapsed i < max_wait")
    case True
    then have "10 * i < max_wait"
      using assms [of i] by simp
    then have "i \<le> max_wait div 10"
      by simp
    then have "0 < fuel" and "max_wait div 10 + 2 \<le> fuel + Suc i"
      using Suc.prems by simp_all
    with True Suc.IH [of "Suc i"] show ?thesis
      by (auto split: try_send.splits)
  qed simp
qed simp

section \<open>Refusals\<close>

text \<open>
  A refusal the server writes itself: plain text with the HTTP status, or for gRPC no body
  and the gRPC status and text in the trailers, under HTTP status 200 for a client error.
\<close>

definition refusal ::
  "('hm, 'b) http \<Rightarrow> bool \<Rightarrow> u16 \<Rightarrow> u32 \<Rightarrow> string \<Rightarrow> 'hm HyperResponse \<Rightarrow> bool" where
  "refusal H is_grpc http_status grpc_status msg r \<longleftrightarrow>
     (if is_grpc
      then response_status r = reported_status http_status
        \<and> (\<exists>t. response_body r = BodyWithTrailers_new [] (Some t) \<and> error_trailers H t grpc_status msg)
      else response_status r = http_status
        \<and> response_body r = BodyWithTrailers_new (as_bytes msg) None)"

lemma refusal_text_visible:
  "list_all visible ''Server too busy, try again later''" "list_all visible ''Server shutting down''"
  "list_all visible ''Failed to get response''"
  by (simp_all add: visible_def)

lemma refusal_grpc:
  assumes "http_ok H" and "100 \<le> http_status" and "http_status < 1000" and "list_all visible msg"
  shows "\<exists>r. create_grpc_error_response H http_status grpc_status msg = Some r
    \<and> refusal H True http_status grpc_status msg r"
  using create_grpc_error_response_ok [OF assms, of grpc_status] by (auto simp: refusal_def)

lemma refusal_plain:
  assumes "http_ok H" and "100 \<le> http_status" and "http_status < 1000"
  shows "\<exists>r. builder_body H (builder_header H (builder_status H http_status) ''content-type'' ''text/plain'')
      (BodyWithTrailers_new (as_bytes msg) None) = Some r
    \<and> refusal H False http_status grpc_status msg r"
  using plain_response [OF assms, of "BodyWithTrailers_new (as_bytes msg) None"]
  by (auto simp: refusal_def)

lemma shutting_down_refusal:
  assumes "http_ok H" and "list_all visible msg"
  shows "\<exists>r. shutting_down_response H is_grpc msg = Some r \<and> refusal H is_grpc 500 13 msg r"
  using refusal_grpc [OF assms(1) _ _ assms(2), of 500 13] refusal_plain [OF assms(1), of 500 msg 13]
  by (simp add: shutting_down_response_def create_error_response_def)

lemma too_busy_refusal:
  assumes "http_ok H"
  shows "\<exists>r. (if is_grpc then create_grpc_error_response H 429 8 ''Server too busy, try again later''
       else create_too_many_requests_response H ''Server too busy, try again later'') = Some r
    \<and> refusal H is_grpc 429 8 ''Server too busy, try again later'' r"
  using refusal_grpc [OF assms _ _ refusal_text_visible(1), of 429 8]
    refusal_plain [OF assms, of 429 "''Server too busy, try again later''" 8]
  by (simp add: create_too_many_requests_response_def)

text \<open>
  How queueing a request ends: at once where there was room or no receiver; otherwise at the first
  turn \<open>k\<close> of the polling loop at which the time is over, there is room, or no receiver.
\<close>

definition sends_as :: "nat \<Rightarrow> (nat \<Rightarrow> nat) \<Rightarrow> try_send \<Rightarrow> (nat \<Rightarrow> try_send) \<Rightarrow> send_outcome \<Rightarrow> bool" where
  "sends_as max_wait elapsed first retry out \<longleftrightarrow>
     (case first of
        Sent \<Rightarrow> out = Queued
      | SendDisconnected \<Rightarrow> out = ShuttingDown
      | Full \<Rightarrow> \<exists>k. (\<forall>j < k. elapsed j < max_wait \<and> retry j = Full) \<and> gave_up_at max_wait elapsed retry out k)"

lemma gave_up_at_unique:
  assumes "gave_up_at max_wait elapsed retry out k" and "\<forall>j < k. elapsed j < max_wait \<and> retry j = Full"
    and "gave_up_at max_wait elapsed retry out' k'" and "\<forall>j < k'. elapsed j < max_wait \<and> retry j = Full"
  shows "out = out'"
proof -
  have "\<not> (elapsed i < max_wait \<and> retry i = Full)" if "gave_up_at max_wait elapsed retry o' i" for o' i
    using that by (auto simp: gave_up_at_def split: send_outcome.splits)
  then have "k = k'"
    using assms by (metis nat_neq_iff)
  with assms(1,3) show ?thesis
    by (auto simp: gave_up_at_def split: send_outcome.splits)
qed

lemma sends_as_unique:
  "sends_as max_wait elapsed first retry out \<Longrightarrow> sends_as max_wait elapsed first retry out' \<Longrightarrow> out = out'"
  by (auto simp: sends_as_def intro: gave_up_at_unique split: try_send.splits)

definition send_request :: "nat \<Rightarrow> nat \<Rightarrow> (nat \<Rightarrow> nat) \<Rightarrow> try_send \<Rightarrow> (nat \<Rightarrow> try_send) \<Rightarrow> send_outcome option" where
  "send_request fuel max_wait elapsed first retry =
     (case first of
        Sent \<Rightarrow> Some Queued
      | Full \<Rightarrow> send_loop fuel 0 max_wait elapsed retry
      | SendDisconnected \<Rightarrow> Some ShuttingDown)"

lemma send_request_as:
  assumes "send_request fuel max_wait elapsed first retry = Some out"
  shows "sends_as max_wait elapsed first retry out"
proof (cases first)
  case Full
  with assms have "send_loop fuel 0 max_wait elapsed retry = Some out"
    by (simp add: send_request_def)
  from send_loop_outcome [OF this] show ?thesis
    unfolding sends_as_def Full try_send.case by blast
qed (use assms in \<open>simp_all add: send_request_def sends_as_def\<close>)

lemma send_request_returns:
  assumes "\<And>i. 10 * i \<le> elapsed i" and "max_wait div 10 + 2 \<le> fuel"
  shows "send_request fuel max_wait elapsed first retry \<noteq> None"
  using send_loop_returns [OF assms(1), of max_wait fuel 0 retry] assms(2)
  by (auto simp: send_request_def split: try_send.splits)

text \<open>What handling a complete request comes to, by how queueing it ended.\<close>

definition complete_outcome ::
  "('hm, 'b) http \<Rightarrow> send_outcome \<Rightarrow> 'hm HyperRequest \<Rightarrow> 'hm HyperResponse option
   \<Rightarrow> 'hm HyperRequest option \<Rightarrow> 'hm HyperResponse \<Rightarrow> bool" where
  "complete_outcome H out req answer q r \<longleftrightarrow>
     (let is_grpc = is_grpc_request H req in
      case out of
        Queued \<Rightarrow> q = Some req \<and>
          (case answer of
             Some r' \<Rightarrow> r = r'
           | None \<Rightarrow> refusal H is_grpc 500 13 ''Failed to get response'' r)
      | TimedOut \<Rightarrow> q = None \<and> refusal H is_grpc 429 8 ''Server too busy, try again later'' r
      | ShuttingDown \<Rightarrow> q = None \<and> refusal H is_grpc 500 13 ''Server shutting down'' r)"

lemma handle_complete:
  assumes H: "http_ok H"
    and sent: "send_request fuel send_timeout elapsed first retry = Some out"
    and len: "\<And>n. declared_len = Some n \<Longrightarrow> n = of_nat (length b)"
  shows "\<exists>q r. handle_request H fuel send_timeout elapsed first retry answer parts declared_len (CollectedBody b)
      = Some \<lparr>queued = q, result = Some (Inr r)\<rparr> \<and> complete_outcome H out (parts\<lparr>request_body := b\<rparr>) answer q r"
proof -
  define req where "req = parts\<lparr>request_body := b\<rparr>"
  define g where "g = is_grpc_request H req"
  have "\<not> (case declared_len of Some declared \<Rightarrow> declared \<noteq> of_nat (length b) | None \<Rightarrow> False)"
    using len by (simp split: option.splits)
  then have h: "handle_request H fuel send_timeout elapsed first retry answer parts declared_len (CollectedBody b)
      = (case out of
           TimedOut \<Rightarrow> Some \<lparr>queued = None, result = map_option Inr
             (if g then create_grpc_error_response H 429 8 ''Server too busy, try again later''
              else create_too_many_requests_response H ''Server too busy, try again later'')\<rparr>
         | ShuttingDown \<Rightarrow> Some \<lparr>queued = None, result = map_option Inr
             (shutting_down_response H g ''Server shutting down'')\<rparr>
         | Queued \<Rightarrow> Some \<lparr>queued = Some req, result = (case answer of
               Some response \<Rightarrow> Some (Inr response)
             | None \<Rightarrow> map_option Inr (shutting_down_response H g ''Failed to get response''))\<rparr>)"
    using sent unfolding handle_request_def Let_def collect.case if_not_P send_request_def req_def g_def by simp
  show ?thesis
    unfolding h complete_outcome_def Let_def req_def [symmetric] g_def [symmetric]
    using too_busy_refusal [OF H, of g]
      shutting_down_refusal [OF H refusal_text_visible(2), of g]
      shutting_down_refusal [OF H refusal_text_visible(3), of g]
    by (cases out; cases answer) auto
qed

section \<open>Properties of request handling\<close>

text \<open>
  C9. Every request is answered, and by the branch it calls for. Given that a sleep of ten
  milliseconds takes at least that long, the polling loop ends within \<open>send_timeout div 10 + 2\<close>
  turns and handling a request returns without a panic: a failed body is passed on as the
  error, a slow one is answered 408, and one whose length is not what the request declared
  400, none of these reaching a worker. A complete request with room in the queue, at once or at
  the first turn before the timeout that finds some, is queued unchanged with its whole body and answered
  with the worker's response, or with a 500 if the worker gives none. It is refused as too busy (429,
  for gRPC status 8) just when the queue was full at every turn until the timeout had passed, and as shutting
  down (500, for gRPC status 13) just when the receivers were gone at a turn before that.
\<close>

theorem handle_request_answers:
  assumes "http_ok H" and "\<And>i. 10 * i \<le> elapsed i" and "send_timeout div 10 + 2 \<le> fuel"
  shows "case body of
      CollectError e \<Rightarrow>
        handle_request H fuel send_timeout elapsed first retry answer parts declared_len body
          = Some \<lparr>queued = None, result = Some (Inl e)\<rparr>
    | CollectTimeout \<Rightarrow>
        (\<exists>r. handle_request H fuel send_timeout elapsed first retry answer parts declared_len body
            = Some \<lparr>queued = None, result = Some (Inr r)\<rparr>
          \<and> refusal H False 408 0 ''Request timed out while receiving body'' r)
    | CollectedBody b \<Rightarrow>
        if \<exists>n. declared_len = Some n \<and> n \<noteq> of_nat (length b)
        then \<exists>r. handle_request H fuel send_timeout elapsed first retry answer parts declared_len body
            = Some \<lparr>queued = None, result = Some (Inr r)\<rparr>
          \<and> refusal H False 400 0 ''Body length does not match Content-Length'' r
        else (\<exists>!out. sends_as send_timeout elapsed first retry out)
          \<and> (\<forall>out. sends_as send_timeout elapsed first retry out \<longrightarrow>
              (\<exists>q r. handle_request H fuel send_timeout elapsed first retry answer parts declared_len body
                  = Some \<lparr>queued = q, result = Some (Inr r)\<rparr>
                \<and> complete_outcome H out (parts\<lparr>request_body := b\<rparr>) answer q r))"
proof (cases body)
  case (CollectedBody b)
  show ?thesis
  proof (cases "\<exists>n. declared_len = Some n \<and> n \<noteq> of_nat (length b)")
    case True
    with refusal_plain [OF assms(1), of 400 "''Body length does not match Content-Length''" 0] CollectedBody show ?thesis
      by (auto simp: handle_request_def create_bad_request_response_def Let_def)
  next
    case False
    obtain out where out: "send_request fuel send_timeout elapsed first retry = Some out"
      using send_request_returns [OF assms(2,3)] by blast
    then have "sends_as send_timeout elapsed first retry out"
      by (rule send_request_as)
    moreover have "\<exists>q r. handle_request H fuel send_timeout elapsed first retry answer parts declared_len body
          = Some \<lparr>queued = q, result = Some (Inr r)\<rparr>
        \<and> complete_outcome H out (parts\<lparr>request_body := b\<rparr>) answer q r"
      unfolding CollectedBody using False by (intro handle_complete [OF assms(1) out]) auto
    ultimately show ?thesis
      unfolding CollectedBody collect.case if_not_P [OF False] by (metis sends_as_unique)
  qed
next
  case CollectTimeout
  with refusal_plain [OF assms(1), of 408 "''Request timed out while receiving body''" 0] show ?thesis
    by (auto simp: handle_request_def create_timeout_response_def Let_def)
qed (simp add: handle_request_def)

theorem handle_request_answers_witness:
  "\<exists>r. handle_request simple_http 102 1000 ((*) 10) Full (\<lambda>_. Full) None
      \<lparr>request_method = ''POST'', uri_host = None, uri_path = ''/'', uri_query = None,
       request_headers = [], request_body = []\<rparr> (Some 2) (CollectedBody [1, 2] :: string collect)
      = Some \<lparr>queued = None, result = Some (Inr r)\<rparr> \<and> response_status r = 429"
proof -
  let ?p = "\<lparr>request_method = ''POST'', uri_host = None, uri_path = ''/'', uri_query = None,
       request_headers = [], request_body = []\<rparr>"
  have "(1000 :: nat) div 10 + 2 \<le> 102"
    by simp
  moreover have "sends_as 1000 ((*) 10) Full (\<lambda>_. Full) TimedOut"
    by (auto simp: sends_as_def gave_up_at_def intro!: exI [of _ 100])
  moreover have "\<not> is_grpc_request simple_http (?p\<lparr>request_body := [1, 2]\<rparr>)"
    by (simp add: is_grpc_request_def simple_http_def)
  ultimately show ?thesis
    using handle_request_answers [OF simple_http_ok, where elapsed = "(*) 10" and first = Full and send_timeout = 1000
        and fuel = 102 and body = "CollectedBody [1, 2] :: string collect" and retry = "\<lambda>_. Full" and answer = None
        and parts = ?p and declared_len = "Some 2"]
    by (auto simp: complete_outcome_def refusal_def)
qed

end
