(* ===== verification/Transitions.thy ===== *)
theory Transitions
  imports Main
begin

text \<open>
  Interfaces for systems that run by steps: a step function takes an action and a state and
  answers \<open>None\<close> where the action is not possible. The locales state what an invariant, a
  refinement and a terminating set of actions promise, and what follows for whole runs.
\<close>

fun runs :: "('a \<Rightarrow> 's \<Rightarrow> 's option) \<Rightarrow> 'a list \<Rightarrow> 's \<Rightarrow> 's option" where
  "runs step [] s = Some s"
| "runs step (a # as) s = (case step a s of None \<Rightarrow> None | Some s' \<Rightarrow> runs step as s')"

lemma runs_append:
  "runs step (as @ bs) s = (case runs step as s of None \<Rightarrow> None | Some s' \<Rightarrow> runs step bs s')"
  by (induction as arbitrary: s) (auto split: option.splits)

locale step_invariant =
  fixes step :: "'a \<Rightarrow> 's \<Rightarrow> 's option"
    and inv :: "'s \<Rightarrow> bool"
  assumes step_keeps: "inv s \<Longrightarrow> step a s = Some s' \<Longrightarrow> inv s'"
begin

lemma runs_keep: "inv s \<Longrightarrow> runs step as s = Some s' \<Longrightarrow> inv s'"
  by (induction as arbitrary: s) (auto split: option.splits dest: step_keeps)

end

text \<open>
  What a run shows to the outside: the events of its steps, which may depend on the states
  before and after.
\<close>

fun observed :: "('a \<Rightarrow> 's \<Rightarrow> 's option) \<Rightarrow> ('a \<Rightarrow> 's \<Rightarrow> 's \<Rightarrow> 'b list) \<Rightarrow> 'a list \<Rightarrow> 's \<Rightarrow> 'b list" where
  "observed step shown [] s = []"
| "observed step shown (a # as) s =
     (case step a s of None \<Rightarrow> [] | Some s' \<Rightarrow> shown a s s' @ observed step shown as s')"

text \<open>The specification can do the events that a step shows, and no others.\<close>

locale simulation = step_invariant step inv
  for step :: "'a \<Rightarrow> 's \<Rightarrow> 's option" and inv +
  fixes spec_step :: "'b \<Rightarrow> 't \<Rightarrow> 't option"
    and abs_state :: "'s \<Rightarrow> 't"
    and shown :: "'a \<Rightarrow> 's \<Rightarrow> 's \<Rightarrow> 'b list"
  assumes simulates: "inv s \<Longrightarrow> step a s = Some s' \<Longrightarrow>
      runs spec_step (shown a s s') (abs_state s) = Some (abs_state s')"
begin

lemma runs_refine:
  "inv s \<Longrightarrow> runs step as s = Some s' \<Longrightarrow>
   runs spec_step (observed step shown as s) (abs_state s) = Some (abs_state s')"
proof (induction as arbitrary: s)
  case (Cons a as)
  then obtain s1 where s1: "step a s = Some s1" "runs step as s1 = Some s'"
    by (auto split: option.splits)
  with Cons.IH [OF step_keeps [OF Cons.prems(1) s1(1)] s1(2)] simulates [OF Cons.prems(1) s1(1)] show ?case
    by (simp add: runs_append)
qed simp

end

text \<open>
  Actions that use up a measure, one of which is possible while a state is not at rest: runs
  of them are no longer than the measure, and those that cannot go on have come to rest.
\<close>

locale draining = step_invariant step inv
  for step :: "'a \<Rightarrow> 's \<Rightarrow> 's option" and inv +
  fixes drains :: "'a \<Rightarrow> bool"
    and work :: "'s \<Rightarrow> nat"
    and rest :: "'s \<Rightarrow> bool"
  assumes uses_up: "inv s \<Longrightarrow> drains a \<Longrightarrow> step a s = Some s' \<Longrightarrow> work s' < work s"
    and goes_on: "inv s \<Longrightarrow> \<not> rest s \<Longrightarrow> \<exists>a s'. drains a \<and> step a s = Some s'"
begin

lemma runs_bounded:
  "inv s \<Longrightarrow> list_all drains as \<Longrightarrow> runs step as s = Some s' \<Longrightarrow> length as + work s' \<le> work s"
proof (induction as arbitrary: s)
  case (Cons a as)
  then obtain s1 where s1: "step a s = Some s1" "runs step as s1 = Some s'"
    by (auto split: option.splits)
  have "length as + work s' \<le> work s1"
    using Cons.IH [OF step_keeps [OF Cons.prems(1) s1(1)] _ s1(2)] Cons.prems(2) by simp
  moreover have "work s1 < work s"
    using uses_up [OF Cons.prems(1) _ s1(1)] Cons.prems(2) by simp
  ultimately show ?case
    by simp
qed simp

lemma stuck_at_rest:
  assumes "inv s" and "runs step as s = Some s'" and "\<And>a. drains a \<Longrightarrow> step a s' = None"
  shows "rest s'"
  using goes_on [OF runs_keep [OF assms(1,2)]] assms(3) by fastforce

lemma reaches_rest: "inv s \<Longrightarrow> \<exists>as s'. list_all drains as \<and> runs step as s = Some s' \<and> rest s'"
proof (induction "work s" arbitrary: s rule: less_induct)
  case less
  show ?case
  proof (cases "rest s")
    case True
    then show ?thesis
      by (intro exI [of _ "[]"]) simp
  next
    case False
    then obtain a s1 where a: "drains a" "step a s = Some s1"
      using goes_on less.prems by blast
    from less.hyps [OF uses_up [OF less.prems a] step_keeps [OF less.prems a(2)]]
    obtain as s' where "list_all drains as" "runs step as s1 = Some s'" "rest s'"
      by blast
    with a show ?thesis
      by (intro exI [of _ "a # as"]) simp
  qed
qed

end

end
