(* ===== verification/Http_System.thy ===== *)
theory Http_System
  imports Http_Handler Transitions "HOL-Library.Multiset"
begin

text \<open>
  HTTP requests and the workers together (\<open>lib.rs\<close>): any number of calls of \<open>handle_request\<close>,
  the bounded queue between them and the Ruby threads in \<open>run_worker\<close>, and \<open>stop\<close>, as
  interleaved steps on the state they share.

  An exchange is one call of \<open>handle_request\<close>; its number is also the identity of the one-shot
  channel its response comes back on. A step goes from one await point of a task to the next,
  or is one turn of a worker. The queue has a positive capacity and is first in, first out. The
  bodies collected, the results of the block and the milliseconds elapsed are in the actions.

  \<open>stop\<close> waits for the server task with the GVL held, if the handle of the task is stored: while it does, no
  Ruby block runs. The server task waits for the connections it watches, which are those without a
  maximum age, or for its timeout. Where syslog listeners run, \<open>stop\<close> then releases the GVL and waits
  until they are drained; the workers run meanwhile. At the end it drops the runtime with the GVL held, and
  with it every unfinished exchange.
\<close>

section \<open>The state\<close>

datatype ('e, 'hm) phase =
    Collecting
  | Sending
  | Waiting
  | Completed "('e + 'hm HyperResponse) option"
  | Dropped

text \<open>\<open>full_at\<close> are the milliseconds at which the exchange has found the queue full.\<close>

record ('e, 'hm) exchange =
  parts :: "'hm HyperRequest"
  declared_len :: "u64 option"
  body :: "'e collect option"
  full_at :: "nat list"
  phase :: "('e, 'hm) phase"

text \<open>Where \<open>stop\<close> is. It holds the GVL where it waits for the task and where it drops the runtime.\<close>

datatype stop_point = Not_Stopping | Awaiting_Task | Draining_Syslog | Dropping_Runtime | Stopped

record ('e, 'hm) http_state =
  exchanges :: "nat \<Rightarrow> ('e, 'hm) exchange option"
  next_exchange :: nat
  http_queue :: "'hm RequestWithCompletion list"
  receivers :: bool
  at_worker :: "'hm RequestWithCompletion option list"
  answered :: "nat \<Rightarrow> 'hm HyperResponse option"
  stop_at :: stop_point

definition stopping :: "('e, 'hm) http_state \<Rightarrow> bool" where
  "stopping s \<longleftrightarrow> stop_at s = Awaiting_Task \<or> stop_at s = Dropping_Runtime"

text \<open>What the configuration and \<open>start\<close> have fixed.\<close>

record http_limits =
  capacity :: nat
  max_wait :: nat
  max_age :: "u64 option"
  syslog_running :: bool
  handle_stored :: bool

definition http_start :: "nat \<Rightarrow> ('e, 'hm) http_state" where
  "http_start workers =
     \<lparr>exchanges = (\<lambda>_. None), next_exchange = 0, http_queue = [], receivers = True,
      at_worker = replicate workers None, answered = (\<lambda>_. None), stop_at = Not_Stopping\<rparr>"

definition held :: "'a option list \<Rightarrow> 'a list" where
  "held ws = concat (map (\<lambda>w. case w of None \<Rightarrow> [] | Some r \<Rightarrow> [r]) ws)"

definition put :: "nat \<Rightarrow> ('e, 'hm) exchange \<Rightarrow> ('e, 'hm) http_state \<Rightarrow> ('e, 'hm) http_state" where
  "put n e s = s\<lparr>exchanges := (exchanges s)(n \<mapsto> e)\<rparr>"

text \<open>The request with its collected body.\<close>

definition hyper_request :: "('e, 'hm) exchange \<Rightarrow> 'hm HyperRequest" where
  "hyper_request e =
     (case body e of Some (CollectedBody b) \<Rightarrow> (parts e)\<lparr>request_body := b\<rparr> | _ \<Rightarrow> parts e)"

definition wrong_length :: "('e, 'hm) exchange \<Rightarrow> bytes \<Rightarrow> bool" where
  "wrong_length e b =
     (case declared_len e of Some declared \<Rightarrow> declared \<noteq> of_nat (length b) | None \<Rightarrow> False)"

fun unfinished :: "('e, 'hm) phase \<Rightarrow> bool" where
  "unfinished (Completed _) = False"
| "unfinished Dropped = False"
| "unfinished _ = True"

section \<open>The steps\<close>

type_synonym 'hm block = "'hm argument \<Rightarrow> 'hm block_result"

datatype ('e, 'hm) http_action =
    Arrive "'hm HyperRequest" "u64 option"
  | Collected nat "'e collect" nat
  | Poll nat nat
  | Take nat
  | Reply nat "'hm block"
  | Receive nat
  | Hang_Up nat
  | Close_Queue
  | Stop
  | Task_Ended bool
  | Syslog_Drained
  | Drop_Runtime

definition try_push :: "http_limits \<Rightarrow> ('e, 'hm) http_state \<Rightarrow> try_send" where
  "try_push limits s =
     (if \<not> receivers s then SendDisconnected
      else if length (http_queue s) < capacity limits then Sent else Full)"

definition too_busy_response :: "('hm, 'b) http \<Rightarrow> 'hm HyperRequest \<Rightarrow> 'hm HyperResponse option" where
  "too_busy_response H req =
     (if is_grpc_request H req
      then create_grpc_error_response H 429 8 ''Server too busy, try again later''
      else create_too_many_requests_response H ''Server too busy, try again later'')"

text \<open>
  An attempt to queue the request of an exchange, \<open>now\<close> milliseconds after the first one: with
  the queue full, the exchange gives up or sleeps until the next turn.
\<close>

definition attempt_send ::
  "('hm, 'b) http \<Rightarrow> http_limits \<Rightarrow> nat \<Rightarrow> ('e, 'hm) exchange \<Rightarrow> nat
   \<Rightarrow> ('e, 'hm) http_state \<Rightarrow> ('e, 'hm) http_state" where
  "attempt_send H limits n e now s =
     (let req = hyper_request e in
      case try_push limits s of
        Sent \<Rightarrow> (put n (e\<lparr>phase := Waiting\<rparr>) s)
          \<lparr>http_queue := http_queue s @ [\<lparr>work_request = req, response_tx = n\<rparr>]\<rparr>
      | Full \<Rightarrow>
          put n (e\<lparr>full_at := full_at e @ [now],
                   phase := (if now \<ge> max_wait limits
                             then Completed (map_option Inr (too_busy_response H req)) else Sending)\<rparr>) s
      | SendDisconnected \<Rightarrow>
          put n (e\<lparr>phase := Completed (map_option Inr
            (shutting_down_response H (is_grpc_request H req) ''Server shutting down''))\<rparr>) s)"

definition step_collected ::
  "('hm, 'b) http \<Rightarrow> http_limits \<Rightarrow> nat \<Rightarrow> ('e, 'hm) exchange \<Rightarrow> 'e collect \<Rightarrow> nat
   \<Rightarrow> ('e, 'hm) http_state \<Rightarrow> ('e, 'hm) http_state" where
  "step_collected H limits n e c now s =
     (let e' = e\<lparr>body := Some c\<rparr> in
      case c of
        CollectError err \<Rightarrow> put n (e'\<lparr>phase := Completed (Some (Inl err))\<rparr>) s
      | CollectTimeout \<Rightarrow>
          put n (e'\<lparr>phase := Completed (map_option Inr (create_timeout_response H))\<rparr>) s
      | CollectedBody b \<Rightarrow>
          if wrong_length e b
          then put n (e'\<lparr>phase := Completed (map_option Inr
                 (create_bad_request_response H ''Body length does not match Content-Length''))\<rparr>) s
          else attempt_send H limits n e' now s)"

definition sender_gone :: "('e, 'hm) http_state \<Rightarrow> nat \<Rightarrow> bool" where
  "sender_gone s n = list_all (\<lambda>r. response_tx r \<noteq> n) (http_queue s @ held (at_worker s))"

definition step_receive ::
  "('hm, 'b) http \<Rightarrow> nat \<Rightarrow> ('e, 'hm) exchange \<Rightarrow> ('e, 'hm) http_state
   \<Rightarrow> ('e, 'hm) http_state option" where
  "step_receive H n e s =
     (case answered s n of
        Some response \<Rightarrow> Some (put n (e\<lparr>phase := Completed (Some (Inr response))\<rparr>) s)
      | None \<Rightarrow>
          if sender_gone s n
          then Some (put n (e\<lparr>phase := Completed (map_option Inr
                 (shutting_down_response H (is_grpc_request H (hyper_request e))
                    ''Failed to get response''))\<rparr>) s)
          else None)"

text \<open>A worker whose turn panics drops the sender of the response.\<close>

definition step_reply ::
  "('hm, 'b) http \<Rightarrow> nat \<Rightarrow> 'hm RequestWithCompletion \<Rightarrow> 'hm block
   \<Rightarrow> ('e, 'hm) http_state \<Rightarrow> ('e, 'hm) http_state" where
  "step_reply H w r block s =
     (let s' = s\<lparr>at_worker := (at_worker s)[w := None]\<rparr> in
      case process_http H block r of
        Some (Responded tx response) \<Rightarrow> s'\<lparr>answered := (answered s)(tx \<mapsto> response)\<rparr>
      | _ \<Rightarrow> s')"

definition drop_unfinished :: "('e, 'hm) http_state \<Rightarrow> ('e, 'hm) http_state" where
  "drop_unfinished s = s\<lparr>exchanges := (\<lambda>n. map_option
     (\<lambda>e. if unfinished (phase e) then e\<lparr>phase := Dropped\<rparr> else e) (exchanges s n))\<rparr>"

definition all_finished :: "('e, 'hm) http_state \<Rightarrow> bool" where
  "all_finished s = list_all (\<lambda>n. case exchanges s n of None \<Rightarrow> True | Some e \<Rightarrow> \<not> unfinished (phase e))
     [0..<next_exchange s]"

text \<open>
  How the wait for the server task ends: all connections it watches are closed, or its timeout is
  over. A connection with a maximum age is not watched, and without the handle there is no wait.
\<close>

definition task_ends :: "http_limits \<Rightarrow> bool \<Rightarrow> ('e, 'hm) http_state \<Rightarrow> bool" where
  "task_ends limits timed_out s = (timed_out \<or> max_age limits \<noteq> None \<or> all_finished s \<or> \<not> handle_stored limits)"

text \<open>The exchange \<open>n\<close>, if it is in the phase \<open>p\<close>.\<close>

definition in_phase :: "('e, 'hm) phase \<Rightarrow> nat \<Rightarrow> ('e, 'hm) http_state \<Rightarrow> ('e, 'hm) exchange option" where
  "in_phase p n s =
     (case exchanges s n of
        None \<Rightarrow> None
      | Some e \<Rightarrow> (case (p, phase e) of
            (Collecting, Collecting) \<Rightarrow> Some e
          | (Sending, Sending) \<Rightarrow> Some e
          | (Waiting, Waiting) \<Rightarrow> Some e
          | _ \<Rightarrow> None))"

fun http_step ::
  "('hm, 'b) http \<Rightarrow> http_limits \<Rightarrow> ('e, 'hm) http_action \<Rightarrow> ('e, 'hm) http_state
   \<Rightarrow> ('e, 'hm) http_state option" where
  "http_step H limits (Arrive req len) s =
     (if stop_at s = Stopped then None
      else Some (put (next_exchange s)
             \<lparr>parts = req, declared_len = len, body = None, full_at = [], phase = Collecting\<rparr>
             (s\<lparr>next_exchange := Suc (next_exchange s)\<rparr>)))"
| "http_step H limits (Collected n c now) s =
     map_option (\<lambda>e. step_collected H limits n e c now s) (in_phase Collecting n s)"
| "http_step H limits (Poll n now) s =
     map_option (\<lambda>e. attempt_send H limits n e now s) (in_phase Sending n s)"
| "http_step H limits (Take w) s =
     (if w < length (at_worker s) \<and> at_worker s ! w = None
      then (case http_queue s of
              [] \<Rightarrow> None
            | r # rs \<Rightarrow> Some (s\<lparr>http_queue := rs, at_worker := (at_worker s)[w := Some r]\<rparr>))
      else None)"
| "http_step H limits (Reply w block) s =
     (if w < length (at_worker s) \<and> \<not> stopping s
      then map_option (\<lambda>r. step_reply H w r block s) (at_worker s ! w)
      else None)"
| "http_step H limits (Receive n) s =
     Option.bind (in_phase Waiting n s) (\<lambda>e. step_receive H n e s)"
| "http_step H limits (Hang_Up n) s =
     (case exchanges s n of
        Some e \<Rightarrow> if unfinished (phase e) then Some (put n (e\<lparr>phase := Dropped\<rparr>) s) else None
      | None \<Rightarrow> None)"
| "http_step H limits Close_Queue s =
     (if held (at_worker s) = [] \<and> \<not> stopping s
      then Some (s\<lparr>receivers := False, http_queue := []\<rparr>) else None)"
| "http_step H limits Stop s = (if stop_at s = Not_Stopping then Some (s\<lparr>stop_at := Awaiting_Task\<rparr>) else None)"
| "http_step H limits (Task_Ended timed_out) s =
     (if stop_at s = Awaiting_Task \<and> task_ends limits timed_out s
      then Some (s\<lparr>stop_at := (if syslog_running limits then Draining_Syslog else Dropping_Runtime)\<rparr>) else None)"
| "http_step H limits Syslog_Drained s =
     (if stop_at s = Draining_Syslog then Some (s\<lparr>stop_at := Dropping_Runtime\<rparr>) else None)"
| "http_step H limits Drop_Runtime s =
     (if stop_at s = Dropping_Runtime then Some (drop_unfinished (s\<lparr>stop_at := Stopped\<rparr>)) else None)"

section \<open>What a completed exchange comes to\<close>

text \<open>
  The exchange as a run of \<open>handle_request\<close>: the attempts that found the queue full at the
  times \<open>full_at\<close>, then the attempt \<open>lst\<close>; and a worker's answer is what a block made of the
  request of this very exchange, sent on its own channel. \<open>G\<close> says which blocks the workers run.
\<close>

definition own_answer :: "('hm block \<Rightarrow> bool) \<Rightarrow> ('hm, 'b) http \<Rightarrow> nat \<Rightarrow> ('e, 'hm) exchange \<Rightarrow> 'hm HyperResponse \<Rightarrow> bool" where
  "own_answer G H n e response \<longleftrightarrow>
     (\<exists>block. G block \<and> process_http H block \<lparr>work_request = hyper_request e, response_tx = n\<rparr>
        = Some (Responded n response))"

definition handled_as ::
  "('hm, 'b) http \<Rightarrow> nat \<Rightarrow> ('e, 'hm) exchange \<Rightarrow> 'e collect \<Rightarrow> try_send \<Rightarrow> 'hm HyperResponse option
   \<Rightarrow> ('e, 'hm) handled option" where
  "handled_as H mw e c lst answer =
     handle_request H (length (full_at e)) mw (\<lambda>i. full_at e ! i)
       (if full_at e = [] then lst else Full)
       (\<lambda>i. if Suc i < length (full_at e) then Full else lst)
       answer (parts e) (declared_len e) c"

definition explained ::
  "('hm block \<Rightarrow> bool) \<Rightarrow> ('hm, 'b) http \<Rightarrow> nat \<Rightarrow> nat \<Rightarrow> ('e, 'hm) exchange \<Rightarrow> ('e + 'hm HyperResponse) option \<Rightarrow> bool" where
  "explained G H mw n e r \<longleftrightarrow>
     (\<exists>c lst answer q. body e = Some c
        \<and> handled_as H mw e c lst answer = Some \<lparr>queued = q, result = r\<rparr>
        \<and> (\<forall>response. answer = Some response \<longrightarrow> own_answer G H n e response))"

lemma send_loop_last:
  assumes "\<forall>t \<in> set ts. t < mw" and "lst \<noteq> Full"
  shows "i < length ts \<Longrightarrow> i + fuel = length ts \<Longrightarrow>
    send_loop fuel i mw (\<lambda>i. ts ! i) (\<lambda>i. if Suc i < length ts then Full else lst)
      = Some (if lst = Sent then Queued else ShuttingDown)"
proof (induction fuel arbitrary: i)
  case (Suc fuel)
  have t: "ts ! i < mw"
    using assms(1) Suc.prems(1) by simp
  show ?case
  proof (cases "Suc i < length ts")
    case True
    with t Suc.IH [of "Suc i"] Suc.prems show ?thesis
      by simp
  next
    case False
    with t assms(2) show ?thesis
      by (cases lst) simp_all
  qed
qed simp

lemma send_loop_timeout:
  assumes "\<forall>t \<in> set ts. t < mw" and "mw \<le> now"
  shows "i \<le> length ts \<Longrightarrow> i + fuel = Suc (length ts) \<Longrightarrow>
    send_loop fuel i mw (\<lambda>i. (ts @ [now]) ! i)
      (\<lambda>i. if Suc i < length (ts @ [now]) then Full else lst) = Some TimedOut"
proof (induction fuel arbitrary: i)
  case (Suc fuel)
  show ?case
  proof (cases "i < length ts")
    case True
    then have "(ts @ [now]) ! i < mw"
      using assms(1) by (simp add: nth_append)
    with True Suc.IH [of "Suc i"] Suc.prems show ?thesis
      by simp
  next
    case False
    with Suc.prems have "i = length ts"
      by simp
    with assms(2) show ?thesis
      by simp
  qed
qed simp

text \<open>An exchange whose body is complete and has the declared length.\<close>

definition complete_body :: "('e, 'hm) exchange \<Rightarrow> bool" where
  "complete_body e \<longleftrightarrow> (\<exists>b. body e = Some (CollectedBody b) \<and> \<not> wrong_length e b)"

lemma handled_as_sent:
  assumes "body e = Some (CollectedBody b)" and "\<not> wrong_length e b"
    and "\<forall>t \<in> set (full_at e). t < mw" and "lst \<noteq> Full"
  shows "handled_as H mw e (CollectedBody b) lst answer =
    (let g = is_grpc_request H (hyper_request e) in
     Some (if lst = Sent
       then \<lparr>queued = Some (hyper_request e),
             result = (case answer of
                 Some response \<Rightarrow> Some (Inr response)
               | None \<Rightarrow> map_option Inr (shutting_down_response H g ''Failed to get response''))\<rparr>
       else \<lparr>queued = None, result = map_option Inr (shutting_down_response H g ''Server shutting down'')\<rparr>))"
proof -
  have "(case if full_at e = [] then lst else Full of
        Sent \<Rightarrow> Some Queued
      | Full \<Rightarrow> send_loop (length (full_at e)) 0 mw (\<lambda>i. full_at e ! i)
          (\<lambda>i. if Suc i < length (full_at e) then Full else lst)
      | SendDisconnected \<Rightarrow> Some ShuttingDown)
    = Some (if lst = Sent then Queued else ShuttingDown)"
    using send_loop_last [OF assms(3,4), of 0] assms(4) by (cases lst) simp_all
  then show ?thesis
    using assms(1,2)
    by (simp add: handled_as_def handle_request_def wrong_length_def hyper_request_def Let_def)
qed

lemma handled_as_timeout:
  assumes "body e = Some (CollectedBody b)" and "\<not> wrong_length e b"
    and "full_at e = ts @ [now]" and "\<forall>t \<in> set ts. t < mw" and "mw \<le> now"
  shows "handled_as H mw e (CollectedBody b) lst answer
    = Some \<lparr>queued = None, result = map_option Inr (too_busy_response H (hyper_request e))\<rparr>"
proof -
  have "send_loop (length (full_at e)) 0 mw (\<lambda>i. full_at e ! i)
      (\<lambda>i. if Suc i < length (full_at e) then Full else lst) = Some TimedOut"
    using send_loop_timeout [OF assms(4,5), of 0] by (simp add: assms(3))
  then show ?thesis
    using assms(1-3)
    by (simp add: handled_as_def handle_request_def wrong_length_def hyper_request_def too_busy_response_def Let_def)
qed

section \<open>The invariant\<close>

fun past_queue :: "('e, 'hm) phase \<Rightarrow> bool" where
  "past_queue Collecting = False"
| "past_queue Sending = False"
| "past_queue _ = True"

definition exchange_ok :: "('hm block \<Rightarrow> bool) \<Rightarrow> ('hm, 'b) http \<Rightarrow> nat \<Rightarrow> nat \<Rightarrow> ('e, 'hm) exchange \<Rightarrow> bool" where
  "exchange_ok G H mw n e \<longleftrightarrow>
     (case phase e of
        Collecting \<Rightarrow> body e = None \<and> full_at e = []
      | Sending \<Rightarrow> complete_body e \<and> (\<forall>t \<in> set (full_at e). t < mw)
      | Waiting \<Rightarrow> complete_body e \<and> (\<forall>t \<in> set (full_at e). t < mw)
      | Completed r \<Rightarrow> explained G H mw n e r
      | Dropped \<Rightarrow> True)"

text \<open>The requests that wait for a worker or are with one.\<close>

abbreviation items :: "('e, 'hm) http_state \<Rightarrow> 'hm RequestWithCompletion list" where
  "items s \<equiv> http_queue s @ held (at_worker s)"

definition item_ok :: "('e, 'hm) http_state \<Rightarrow> 'hm RequestWithCompletion \<Rightarrow> bool" where
  "item_ok s r \<longleftrightarrow> answered s (response_tx r) = None
     \<and> (\<exists>e. exchanges s (response_tx r) = Some e \<and> past_queue (phase e) \<and> work_request r = hyper_request e)"

definition http_inv :: "('hm block \<Rightarrow> bool) \<Rightarrow> ('hm, 'b) http \<Rightarrow> http_limits \<Rightarrow> ('e, 'hm) http_state \<Rightarrow> bool" where
  "http_inv G H limits s \<longleftrightarrow>
     (\<forall>n e. exchanges s n = Some e \<longrightarrow> n < next_exchange s \<and> exchange_ok G H (max_wait limits) n e)
     \<and> list_all (item_ok s) (items s) \<and> distinct (map response_tx (items s))
     \<and> (\<forall>n response. answered s n = Some response \<longrightarrow>
          (\<exists>e. exchanges s n = Some e \<and> past_queue (phase e) \<and> own_answer G H n e response))
     \<and> length (http_queue s) \<le> capacity limits"

lemma put_sels [simp]:
  "exchanges (put n e s) = (exchanges s)(n \<mapsto> e)" "next_exchange (put n e s) = next_exchange s"
  "http_queue (put n e s) = http_queue s" "receivers (put n e s) = receivers s"
  "at_worker (put n e s) = at_worker s" "answered (put n e s) = answered s"
  "stop_at (put n e s) = stop_at s" "stopping (put n e s) = stopping s"
  by (simp_all add: put_def stopping_def)

lemma held_Some:
  "w < length ws \<Longrightarrow> ws ! w = Some r \<Longrightarrow> mset (held ws) = add_mset r (mset (held (ws[w := None])))"
  by (induction ws arbitrary: w) (auto simp: held_def nth_Cons split: nat.splits option.splits)

lemma held_None:
  "w < length ws \<Longrightarrow> ws ! w = None \<Longrightarrow> mset (held (ws[w := Some r])) = add_mset r (mset (held ws))"
  by (induction ws arbitrary: w) (auto simp: held_def nth_Cons split: nat.splits option.splits)

text \<open>A step of an exchange keeps its request once that is queued.\<close>

definition moves :: "('e, 'hm) exchange \<Rightarrow> ('e, 'hm) exchange \<Rightarrow> bool" where
  "moves e e' \<longleftrightarrow> (past_queue (phase e) \<longrightarrow> past_queue (phase e') \<and> hyper_request e' = hyper_request e)"

lemma hyper_request_cong:
  "body e' = body e \<Longrightarrow> parts e' = parts e \<Longrightarrow> hyper_request e' = hyper_request e"
  by (simp add: hyper_request_def split: option.splits collect.splits)

lemma own_answer_cong: "hyper_request e' = hyper_request e \<Longrightarrow> own_answer G H n e' r = own_answer G H n e r"
  by (simp add: own_answer_def)

lemma http_invD:
  assumes "http_inv G H limits s"
  shows "exchanges s n = Some e \<Longrightarrow> n < next_exchange s"
    and "exchanges s n = Some e \<Longrightarrow> exchange_ok G H (max_wait limits) n e"
    and "r \<in> set (items s) \<Longrightarrow> item_ok s r"
    and "distinct (map response_tx (items s))"
    and "answered s n = Some response \<Longrightarrow>
      \<exists>e. exchanges s n = Some e \<and> past_queue (phase e) \<and> own_answer G H n e response"
    and "length (http_queue s) \<le> capacity limits"
  using assms by (simp_all add: http_inv_def list_all_iff)

lemma http_invI:
  assumes "\<And>n e. exchanges s n = Some e \<Longrightarrow> n < next_exchange s"
    and "\<And>n e. exchanges s n = Some e \<Longrightarrow> exchange_ok G H (max_wait limits) n e"
    and "\<And>r. r \<in> set (items s) \<Longrightarrow> item_ok s r"
    and "distinct (map response_tx (items s))"
    and "\<And>n response. answered s n = Some response \<Longrightarrow>
      \<exists>e. exchanges s n = Some e \<and> past_queue (phase e) \<and> own_answer G H n e response"
    and "length (http_queue s) \<le> capacity limits"
  shows "http_inv G H limits s"
  using assms by (simp add: http_inv_def list_all_iff)

lemma item_ok_updates [simp]:
  "item_ok (s\<lparr>http_queue := q\<rparr>) = item_ok s" "item_ok (s\<lparr>at_worker := ws\<rparr>) = item_ok s"
  "item_ok (s\<lparr>receivers := b\<rparr>) = item_ok s" "item_ok (s\<lparr>stop_at := p\<rparr>) = item_ok s"
  by (simp_all add: item_ok_def fun_eq_iff)

lemma http_inv_put:
  assumes "http_inv G H limits s" and "exchanges s n = Some e" and "moves e e'"
    and "exchange_ok G H (max_wait limits) n e'"
  shows "http_inv G H limits (put n e' s)"
proof (rule http_invI)
  fix m f
  assume "exchanges (put n e' s) m = Some f"
  then show "m < next_exchange (put n e' s)" and "exchange_ok G H (max_wait limits) m f"
    using http_invD(1,2) [OF assms(1)] assms(2,4) by (auto split: if_splits)
next
  fix r
  assume "r \<in> set (items (put n e' s))"
  then have "item_ok s r"
    using http_invD(3) [OF assms(1), of r] by simp
  then show "item_ok (put n e' s) r"
    using assms(2,3) by (auto simp: item_ok_def moves_def)
next
  fix m response
  assume "answered (put n e' s) m = Some response"
  then obtain f where "exchanges s m = Some f" "past_queue (phase f)" "own_answer G H m f response"
    using http_invD(5) [OF assms(1)] by auto
  then show "\<exists>e. exchanges (put n e' s) m = Some e \<and> past_queue (phase e) \<and> own_answer G H m e response"
    using assms(2,3) own_answer_cong [of e' e G H n response] by (auto simp: moves_def)
qed (use http_invD(4,6) [OF assms(1)] in simp_all)

lemma http_inv_push:
  assumes "http_inv G H limits s" and "exchanges s n = Some e" and "past_queue (phase e)"
    and "answered s n = None" and "n \<notin> response_tx ` set (items s)"
    and "length (http_queue s) < capacity limits"
  shows "http_inv G H limits (s\<lparr>http_queue := http_queue s @ [\<lparr>work_request = hyper_request e, response_tx = n\<rparr>]\<rparr>)"
    (is "http_inv G H limits ?s")
proof (rule http_invI)
  fix r
  assume "r \<in> set (items ?s)"
  then consider "r \<in> set (items s)" | "r = \<lparr>work_request = hyper_request e, response_tx = n\<rparr>"
    by auto
  then have "item_ok s r"
    using http_invD(3) [OF assms(1), of r] assms(2-4) by cases (simp_all add: item_ok_def)
  then show "item_ok ?s r"
    by (simp add: item_ok_def)
qed (use http_invD [OF assms(1)] assms(5,6) in auto)

lemma distinct_map_subset:
  assumes "mset ys \<subseteq># mset xs" and "distinct (map f xs)"
  shows "distinct (map f ys)"
proof -
  obtain zs where "mset xs = mset (ys @ zs)"
    using assms(1) by (metis ex_mset mset_append subset_mset.le_iff_add)
  then have "mset (map f xs) = mset (map f (ys @ zs))"
    by (simp only: mset_map)
  then have "distinct (map f (ys @ zs))"
    using assms(2) by (metis mset_eq_imp_distinct_iff)
  then show ?thesis
    by simp
qed

lemma http_inv_items:
  assumes "http_inv G H limits s" and "mset (q @ held ws) \<subseteq># mset (items s)"
    and "length q \<le> capacity limits"
  shows "http_inv G H limits (s\<lparr>http_queue := q, at_worker := ws\<rparr>)" (is "http_inv G H limits ?s")
proof (rule http_invI)
  fix r
  assume "r \<in> set (items ?s)"
  then have "r \<in> set (items s)"
    using set_mset_mono [OF assms(2)] by auto
  then show "item_ok ?s r"
    using http_invD(3) [OF assms(1), of r] by (simp add: item_ok_def)
next
  show "distinct (map response_tx (items ?s))"
    using distinct_map_subset [OF assms(2) http_invD(4) [OF assms(1)]] by simp
qed (use http_invD(1,2,5) [OF assms(1)] assms(3) in auto)

lemma exchange_updates [simp]:
  "hyper_request (e\<lparr>phase := p\<rparr>) = hyper_request e"
  "hyper_request (e\<lparr>full_at := ts\<rparr>) = hyper_request e"
  "wrong_length (e\<lparr>phase := p\<rparr>) b = wrong_length e b"
  "wrong_length (e\<lparr>full_at := ts\<rparr>) b = wrong_length e b"
  "wrong_length (e\<lparr>body := c\<rparr>) b = wrong_length e b"
  "complete_body (e\<lparr>phase := p\<rparr>) = complete_body e"
  "complete_body (e\<lparr>full_at := ts\<rparr>) = complete_body e"
  by (simp_all add: hyper_request_def wrong_length_def complete_body_def split: option.splits collect.splits)

lemma explainedI:
  assumes "body e = Some c" and "handled_as H mw e c lst answer = Some \<lparr>queued = q, result = r\<rparr>"
    and "\<And>response. answer = Some response \<Longrightarrow> own_answer G H n e response"
  shows "explained G H mw n e r"
  using assms unfolding explained_def by blast

text \<open>The four ways in which an attempt to queue a request ends.\<close>

lemma explained_too_busy:
  assumes "complete_body e" and "\<forall>t \<in> set (full_at e). t < mw" and "mw \<le> now"
  shows "explained G H mw n (e\<lparr>full_at := full_at e @ [now], phase := p\<rparr>)
    (map_option Inr (too_busy_response H (hyper_request e)))"
proof -
  obtain b where b: "body e = Some (CollectedBody b)" "\<not> wrong_length e b"
    using assms(1) by (auto simp: complete_body_def)
  then show ?thesis
    using handled_as_timeout [of "e\<lparr>full_at := full_at e @ [now], phase := p\<rparr>" b "full_at e" now mw H Full None]
      assms(2,3)
    by (auto simp: explained_def)
qed

lemma explained_sent:
  assumes "complete_body e" and "\<forall>t \<in> set (full_at e). t < mw"
  shows "explained G H mw n (e\<lparr>phase := p\<rparr>) (map_option Inr
      (shutting_down_response H (is_grpc_request H (hyper_request e)) ''Server shutting down''))"
    and "explained G H mw n (e\<lparr>phase := p\<rparr>) (map_option Inr
      (shutting_down_response H (is_grpc_request H (hyper_request e)) ''Failed to get response''))"
    and "own_answer G H n e response \<Longrightarrow> explained G H mw n (e\<lparr>phase := p\<rparr>) (Some (Inr response))"
proof -
  let ?e = "e\<lparr>phase := p\<rparr>"
  obtain b where b: "body e = Some (CollectedBody b)" "\<not> wrong_length e b"
    using assms(1) by (auto simp: complete_body_def)
  then have h: "handled_as H mw ?e (CollectedBody b) lst answer =
    (let g = is_grpc_request H (hyper_request e) in
     Some (if lst = Sent
       then \<lparr>queued = Some (hyper_request e),
             result = (case answer of
                 Some response \<Rightarrow> Some (Inr response)
               | None \<Rightarrow> map_option Inr (shutting_down_response H g ''Failed to get response''))\<rparr>
       else \<lparr>queued = None, result = map_option Inr (shutting_down_response H g ''Server shutting down'')\<rparr>))"
    if "lst \<noteq> Full" for lst answer
    using handled_as_sent [of ?e b mw lst H answer] assms(2) that by (simp add: Let_def)
  show "explained G H mw n ?e (map_option Inr
      (shutting_down_response H (is_grpc_request H (hyper_request e)) ''Server shutting down''))"
    by (rule explainedI [where c = "CollectedBody b" and lst = SendDisconnected and answer = None])
      (simp_all add: b h Let_def)
  show "explained G H mw n ?e (map_option Inr
      (shutting_down_response H (is_grpc_request H (hyper_request e)) ''Failed to get response''))"
    by (rule explainedI [where c = "CollectedBody b" and lst = Sent and answer = None])
      (simp_all add: b h Let_def)
  show "explained G H mw n ?e (Some (Inr response))" if "own_answer G H n e response"
    using that own_answer_cong [of ?e e G H n response]
    by (intro explainedI [where c = "CollectedBody b" and lst = Sent and answer = "Some response"])
      (simp_all add: b h Let_def)
qed

lemma attempt_send_inv:
  assumes inv: "http_inv G H limits s" and e0: "exchanges s n = Some e0" "\<not> past_queue (phase e0)"
    and e: "complete_body e" "\<forall>t \<in> set (full_at e). t < max_wait limits"
  shows "http_inv G H limits (attempt_send H limits n e now s)"
proof -
  have keep: "http_inv G H limits (put n e' s)" if "exchange_ok G H (max_wait limits) n e'" for e'
    using http_inv_put [OF inv e0(1) _ that] e0(2) by (simp add: moves_def)
  have "\<not> item_ok s r" if "response_tx r = n" for r
    using that e0 by (auto simp: item_ok_def)
  then have new: "n \<notin> response_tx ` set (items s)" "answered s n = None"
    using http_invD(3) [OF inv] http_invD(5) [OF inv, of n] e0 by (blast, cases "answered s n") auto
  show ?thesis
  proof (cases "try_push limits s")
    case Sent
    then have "length (http_queue s) < capacity limits"
      by (simp add: try_push_def split: if_splits)
    then have "http_inv G H limits ((put n (e\<lparr>phase := Waiting\<rparr>) s)\<lparr>http_queue := http_queue (put n (e\<lparr>phase := Waiting\<rparr>) s)
        @ [\<lparr>work_request = hyper_request (e\<lparr>phase := Waiting\<rparr>), response_tx = n\<rparr>]\<rparr>)"
      using new e by (intro http_inv_push keep) (simp_all add: exchange_ok_def)
    with Sent show ?thesis
      by (simp add: attempt_send_def)
  next
    case Full
    then show ?thesis
      using e explained_too_busy [OF e] by (auto simp: attempt_send_def exchange_ok_def intro!: keep)
  next
    case SendDisconnected
    then show ?thesis
      using explained_sent(1) [OF e] by (auto simp: attempt_send_def exchange_ok_def Let_def intro!: keep)
  qed
qed

lemma in_phaseD: "in_phase p n s = Some e \<Longrightarrow> exchanges s n = Some e \<and> phase e = p"
  by (auto simp: in_phase_def split: option.splits phase.splits)

lemma step_collected_inv:
  assumes inv: "http_inv G H limits s" and "in_phase Collecting n s = Some e"
  shows "http_inv G H limits (step_collected H limits n e c now s)"
proof -
  have e: "exchanges s n = Some e" "phase e = Collecting"
    using in_phaseD [OF assms(2)] by simp_all
  have ok: "full_at e = []"
    using http_invD(2) [OF inv e(1)] e(2) by (simp add: exchange_ok_def)
  have keep: "http_inv G H limits (put n e' s)" if "exchange_ok G H (max_wait limits) n e'" for e'
    using http_inv_put [OF inv e(1) _ that] e(2) by (simp add: moves_def)
  have complete: "http_inv G H limits (put n (e\<lparr>body := Some c, phase := Completed r\<rparr>) s)"
    if "handled_as H (max_wait limits) (e\<lparr>body := Some c, phase := Completed r\<rparr>) c Sent None
      = Some \<lparr>queued = None, result = r\<rparr>" for r
    using that by (intro keep) (auto simp: exchange_ok_def explained_def)
  show ?thesis
  proof (cases c)
    case (CollectedBody b)
    show ?thesis
    proof (cases "wrong_length e b")
      case True
      with CollectedBody complete [of "map_option Inr (create_bad_request_response H ''Body length does not match Content-Length'')"]
      show ?thesis
        by (simp add: step_collected_def handled_as_def handle_request_def wrong_length_def Let_def)
    next
      case False
      then have "complete_body (e\<lparr>body := Some c\<rparr>)"
        by (simp add: complete_body_def CollectedBody)
      with False CollectedBody ok e show ?thesis
        by (simp add: step_collected_def attempt_send_inv [OF inv e(1)])
    qed
  next
    case (CollectError err)
    with complete [of "Some (Inl err)"] show ?thesis
      by (simp add: step_collected_def handled_as_def handle_request_def)
  next
    case CollectTimeout
    with complete [of "map_option Inr (create_timeout_response H)"] show ?thesis
      by (simp add: step_collected_def handled_as_def handle_request_def Let_def)
  qed
qed

lemma process_http_tx: "process_http H block r = Some reply \<Longrightarrow> \<exists>response. reply = Responded (response_tx r) response"
  by (auto simp: process_http_def Let_def split: if_splits option.splits sum.splits Option.bind_splits)

lemma Arrive_inv:
  assumes "http_inv G H limits s"
    and s': "s' = put (next_exchange s)
      \<lparr>parts = req, declared_len = len, body = None, full_at = [], phase = Collecting\<rparr>
      (s\<lparr>next_exchange := Suc (next_exchange s)\<rparr>)"
  shows "http_inv G H limits s'"
proof -
  have new: "exchanges s (next_exchange s) = None"
    using http_invD(1) [OF assms(1), of "next_exchange s"] by (cases "exchanges s (next_exchange s)") auto
  show ?thesis
  proof (rule http_invI)
    fix n e
    assume "exchanges s' n = Some e"
    then show "n < next_exchange s'" and "exchange_ok G H (max_wait limits) n e"
      using s' http_invD(1,2) [OF assms(1), of n e]
      by (auto simp: exchange_ok_def split: if_splits)
  next
    fix r
    assume "r \<in> set (items s')"
    then have "item_ok s r"
      using s' http_invD(3) [OF assms(1), of r] by auto
    with new s' show "item_ok s' r"
      by (auto simp: item_ok_def)
  next
    fix n response
    assume "answered s' n = Some response"
    with s' http_invD(5) [OF assms(1), of n response] new
    show "\<exists>e. exchanges s' n = Some e \<and> past_queue (phase e) \<and> own_answer G H n e response"
      by auto
  qed (use s' http_invD(4,6) [OF assms(1)] in simp_all)
qed

lemma step_reply_inv:
  assumes inv: "http_inv G H limits s" and w: "w < length (at_worker s)" "at_worker s ! w = Some r"
    and "G block"
  shows "http_inv G H limits (step_reply H w r block s)"
proof -
  let ?ws = "(at_worker s)[w := None]" and ?tx = "response_tx r"
  have ms: "mset (items s) = add_mset r (mset (http_queue s @ held ?ws))"
    using held_Some [OF w] by simp
  have inv': "http_inv G H limits (s\<lparr>at_worker := ?ws\<rparr>)"
    using http_inv_items [OF inv, of "http_queue s" ?ws] ms http_invD(6) [OF inv] by simp
  have "mset (map response_tx (items s)) = add_mset ?tx (mset (map response_tx (http_queue s @ held ?ws)))"
    using arg_cong [OF ms, of "image_mset response_tx"] by simp
  then have "distinct (?tx # map response_tx (http_queue s @ held ?ws))"
    using http_invD(4) [OF inv] mset_eq_imp_distinct_iff [of "map response_tx (items s)"
        "?tx # map response_tx (http_queue s @ held ?ws)"] by simp
  then have fresh: "?tx \<notin> response_tx ` set (http_queue s @ held ?ws)"
    by (simp add: image_Un)
  have "r \<in> set (items s)"
    using ms by (metis set_mset_mset union_single_eq_member add_mset_add_single)
  then obtain e where e: "exchanges s ?tx = Some e" "past_queue (phase e)" "work_request r = hyper_request e"
    using http_invD(3) [OF inv, of r] by (auto simp: item_ok_def)
  show ?thesis
  proof (cases "process_http H block r")
    case None
    with inv' show ?thesis
      by (simp add: step_reply_def)
  next
    case (Some reply)
    then obtain response where reply: "reply = Responded ?tx response"
      using process_http_tx by blast
    then have own: "own_answer G H ?tx e response"
      using Some e(3) assms(4) unfolding own_answer_def
      by (metis RequestWithCompletion.surjective old.unit.exhaust)
    have step: "step_reply H w r block s
        = s\<lparr>at_worker := ?ws, answered := (answered s)(?tx \<mapsto> response)\<rparr>" (is "_ = ?s")
      using Some reply by (simp add: step_reply_def)
    show ?thesis
      unfolding step
    proof (rule http_invI)
      fix q
      assume q: "q \<in> set (items ?s)"
      then have "item_ok (s\<lparr>at_worker := ?ws\<rparr>) q"
        using http_invD(3) [OF inv', of q] by simp
      moreover have "q \<in> set (http_queue s @ held ?ws)"
        using q by simp
      then have "response_tx q \<noteq> ?tx"
        using fresh by (metis imageI)
      ultimately show "item_ok ?s q"
        by (simp add: item_ok_def)
    next
      fix n r'
      assume "answered ?s n = Some r'"
      then show "\<exists>e. exchanges ?s n = Some e \<and> past_queue (phase e) \<and> own_answer G H n e r'"
        using http_invD(5) [OF inv, of n r'] e own by (auto split: if_splits)
    qed (use http_invD(1,2,4,6) [OF inv'] in auto)
  qed
qed

lemma Take_inv:
  assumes "http_inv G H limits s" and "http_step H limits (Take w) s = Some s'"
  shows "http_inv G H limits s'"
proof -
  from assms(2) obtain r rs where step: "w < length (at_worker s)" "at_worker s ! w = None" "http_queue s = r # rs"
      "s' = s\<lparr>http_queue := rs, at_worker := (at_worker s)[w := Some r]\<rparr>"
    by (auto split: if_splits list.splits)
  then show ?thesis
    using http_invD(6) [OF assms(1)] held_None [OF step(1,2), of r]
    by (auto intro!: http_inv_items [OF assms(1)])
qed

lemma drop_unfinished_inv:
  assumes "http_inv G H limits s"
  shows "http_inv G H limits (drop_unfinished (s\<lparr>stop_at := p\<rparr>))" (is "http_inv G H limits ?s")
proof -
  have moved: "\<exists>e'. exchanges ?s n = Some e' \<and> past_queue (phase e') \<and> hyper_request e' = hyper_request e"
    if "exchanges s n = Some e" "past_queue (phase e)" for n e
    using that by (simp add: drop_unfinished_def)
  show ?thesis
  proof (rule http_invI)
    fix n e
    assume "exchanges ?s n = Some e"
    then show "n < next_exchange ?s" and "exchange_ok G H (max_wait limits) n e"
      using http_invD(1,2) [OF assms, of n]
      by (auto simp: drop_unfinished_def exchange_ok_def split: if_splits)
  next
    fix r
    assume "r \<in> set (items ?s)"
    then have "item_ok s r"
      using http_invD(3) [OF assms, of r] by (simp add: drop_unfinished_def)
    then obtain e where e: "exchanges s (response_tx r) = Some e" "past_queue (phase e)"
        "work_request r = hyper_request e" "answered ?s (response_tx r) = None"
      by (auto simp: item_ok_def drop_unfinished_def)
    with moved [OF e(1,2)] show "item_ok ?s r"
      by (auto simp: item_ok_def)
  next
    fix n response
    assume "answered ?s n = Some response"
    then obtain e where "exchanges s n = Some e" "past_queue (phase e)" "own_answer G H n e response"
      using http_invD(5) [OF assms, of n response] by (auto simp: drop_unfinished_def)
    with moved [of n e] own_answer_cong [of _ e G H n response]
    show "\<exists>e. exchanges ?s n = Some e \<and> past_queue (phase e) \<and> own_answer G H n e response"
      by blast
  qed (use http_invD(4,6) [OF assms] in \<open>simp_all add: drop_unfinished_def\<close>)
qed

lemma stop_at_inv: "http_inv G H limits (s\<lparr>stop_at := p\<rparr>) = http_inv G H limits s"
  by (simp add: http_inv_def)

lemma Receive_inv:
  assumes "http_inv G H limits s" and "http_step H limits (Receive n) s = Some s'"
  shows "http_inv G H limits s'"
proof -
  from assms(2) obtain e where e: "in_phase Waiting n s = Some e" "step_receive H n e s = Some s'"
    by (auto split: Option.bind_splits)
  have ex: "exchanges s n = Some e" "phase e = Waiting"
    using in_phaseD [OF e(1)] by simp_all
  then have ok: "complete_body e" "\<forall>t \<in> set (full_at e). t < max_wait limits"
    using http_invD(2) [OF assms(1) ex(1)] by (simp_all add: exchange_ok_def)
  have keep: "http_inv G H limits (put n (e\<lparr>phase := Completed r\<rparr>) s)"
    if "explained G H (max_wait limits) n (e\<lparr>phase := Completed r\<rparr>) r" for r
    using that ex by (intro http_inv_put [OF assms(1) ex(1)]) (simp_all add: moves_def exchange_ok_def)
  show ?thesis
    using e(2) explained_sent(2,3) [OF ok, of G H n] http_invD(5) [OF assms(1), of n] ex(1)
    by (fastforce simp: step_receive_def split: option.splits if_splits intro!: keep)
qed

fun allowed :: "('hm block \<Rightarrow> bool) \<Rightarrow> ('e, 'hm) http_action \<Rightarrow> bool" where
  "allowed G (Reply w block) = G block"
| "allowed G _ = True"

lemma http_inv_step:
  assumes "http_inv G H limits s" and "http_step H limits a s = Some s'" and "allowed G a"
  shows "http_inv G H limits s'"
proof (cases a)
  case (Collected n c now)
  with assms show ?thesis
    by (auto intro: step_collected_inv)
next
  case (Poll n now)
  with assms(2) obtain e where e: "in_phase Sending n s = Some e" "s' = attempt_send H limits n e now s"
    by auto
  have ex: "exchanges s n = Some e" "phase e = Sending"
    using in_phaseD [OF e(1)] by simp_all
  then show ?thesis
    using http_invD(2) [OF assms(1) ex(1)] unfolding e(2)
    by (intro attempt_send_inv [OF assms(1) ex(1)]) (simp_all add: exchange_ok_def)
next
  case (Reply w block)
  with assms show ?thesis
    by (auto split: if_splits intro: step_reply_inv)
next
  case (Hang_Up n)
  with assms show ?thesis
    by (auto split: option.splits if_splits intro!: http_inv_put [OF assms(1)] simp: exchange_ok_def moves_def)
next
  case Close_Queue
  with assms(2) have "s' = s\<lparr>http_queue := [], at_worker := at_worker s, receivers := False\<rparr>"
    by (auto split: if_splits)
  moreover have "http_inv G H limits (s\<lparr>http_queue := [], at_worker := at_worker s\<rparr>)"
    by (rule http_inv_items [OF assms(1)]) simp_all
  ultimately show ?thesis
    by (simp add: http_inv_def item_ok_def)
next
  case Drop_Runtime
  with assms show ?thesis
    by (auto split: if_splits intro: drop_unfinished_inv)
qed (use assms in \<open>auto simp: stop_at_inv intro: Arrive_inv Take_inv Receive_inv split: if_splits\<close>)

text \<open>The steps with blocks of \<open>G\<close> only.\<close>

definition allowed_step ::
  "('hm block \<Rightarrow> bool) \<Rightarrow> ('hm, 'b) http \<Rightarrow> http_limits \<Rightarrow> ('e, 'hm) http_action \<Rightarrow> ('e, 'hm) http_state
   \<Rightarrow> ('e, 'hm) http_state option" where
  "allowed_step G H limits a s = (if allowed G a then http_step H limits a s else None)"

lemma allowed_stepD: "allowed_step G H limits a s = Some s' \<Longrightarrow> allowed G a \<and> http_step H limits a s = Some s'"
  by (simp add: allowed_step_def split: if_splits)

lemma allowed_any: "allowed (\<lambda>_. True) a"
  by (cases a) simp_all

interpretation http: step_invariant "allowed_step G H limits" "http_inv G H limits"
  by unfold_locales (auto dest!: allowed_stepD intro: http_inv_step)

lemma runs_allowed:
  "list_all (allowed G) acts \<Longrightarrow> runs (http_step H limits) acts s = runs (allowed_step G H limits) acts s"
  by (induction acts arbitrary: s) (auto simp: allowed_step_def split: option.splits)

lemma http_start_inv: "http_inv G H limits (http_start workers)"
  by (simp add: http_inv_def http_start_def held_def)

section \<open>No request is lost\<close>

definition pending_at :: "('e, 'hm) http_state \<Rightarrow> nat \<Rightarrow> bool" where
  "pending_at s n \<longleftrightarrow> answered s n \<noteq> None \<or> \<not> sender_gone s n"

definition not_lost :: "('e, 'hm) http_state \<Rightarrow> bool" where
  "not_lost s \<longleftrightarrow> receivers s \<longrightarrow> (\<forall>n e. exchanges s n = Some e \<longrightarrow> phase e = Waiting \<longrightarrow> pending_at s n)"

lemma pending_at_iff: "pending_at s n \<longleftrightarrow> answered s n \<noteq> None \<or> n \<in> response_tx ` set (items s)"
  by (auto simp: pending_at_def sender_gone_def list_all_iff)

lemma set_held:
  "w < length ws \<Longrightarrow> ws ! w = Some r \<Longrightarrow> set (held ws) = insert r (set (held (ws[w := None])))"
  "w < length ws \<Longrightarrow> ws ! w = None \<Longrightarrow> set (held (ws[w := Some r])) = insert r (set (held ws))"
  by (drule (1) held_Some [THEN arg_cong [where f = set_mset]], simp)
    (drule (1) held_None [THEN arg_cong [where f = set_mset]], simp)

lemma process_http_responds:
  assumes "http_ok H"
  shows "\<exists>response. process_http H block r = Some (Responded (response_tx r) response)"
  using process_item_answers [OF assms, of block "Http r"] process_http_tx [of H block r] by auto

lemma step_reply_pending:
  assumes "http_ok H" and "w < length (at_worker s)" and "at_worker s ! w = Some r"
  shows "pending_at (step_reply H w r block s) n \<longleftrightarrow> pending_at s n"
proof -
  obtain response where "process_http H block r = Some (Responded (response_tx r) response)"
    using process_http_responds [OF assms(1)] by blast
  then show ?thesis
    using set_held(1) [OF assms(2,3)] by (auto simp: step_reply_def pending_at_iff)
qed

lemma Take_pending:
  "http_step H limits (Take w) s = Some s' \<Longrightarrow> pending_at s' n \<longleftrightarrow> pending_at s n"
  by (auto simp: pending_at_iff set_held(2) split: if_splits list.splits)

lemma not_lost_put: "not_lost s \<Longrightarrow> phase e \<noteq> Waiting \<Longrightarrow> not_lost (put n e s)"
  by (simp add: not_lost_def pending_at_iff)

lemma not_lost_stop_at: "not_lost (s\<lparr>stop_at := p\<rparr>) = not_lost s"
  by (simp add: not_lost_def pending_at_iff)

lemma attempt_send_not_lost:
  assumes "not_lost s"
  shows "not_lost (attempt_send H limits n e now s)"
proof (cases "try_push limits s")
  case Sent
  then have step: "attempt_send H limits n e now s = (put n (e\<lparr>phase := Waiting\<rparr>) s)
      \<lparr>http_queue := http_queue s @ [\<lparr>work_request = hyper_request e, response_tx = n\<rparr>]\<rparr>" (is "_ = ?s")
    by (simp add: attempt_send_def)
  have "pending_at ?s m" if "m = n \<or> pending_at s m" for m
    using that by (auto simp: pending_at_iff)
  then show ?thesis
    unfolding step using assms by (simp add: not_lost_def)
qed (use assms in \<open>simp_all add: attempt_send_def Let_def not_lost_put\<close>)

lemma step_collected_not_lost: "not_lost s \<Longrightarrow> not_lost (step_collected H limits n e c now s)"
  by (cases c) (simp_all add: step_collected_def attempt_send_not_lost not_lost_put Let_def)

lemma not_lost_step:
  assumes "http_ok H" and "not_lost s" and "http_step H limits a s = Some s'"
  shows "not_lost s'"
proof (cases a)
  case (Arrive req len)
  with assms(3) have "s' = put (next_exchange s)
      \<lparr>parts = req, declared_len = len, body = None, full_at = [], phase = Collecting\<rparr>
      (s\<lparr>next_exchange := Suc (next_exchange s)\<rparr>)"
    by (simp split: if_splits)
  moreover have "not_lost (s\<lparr>next_exchange := Suc (next_exchange s)\<rparr>)"
    using assms(2) by (simp add: not_lost_def pending_at_iff)
  ultimately show ?thesis
    by (simp add: not_lost_put)
next
  case (Take w)
  with assms(3) have "exchanges s' = exchanges s" "receivers s' = receivers s"
    by (auto split: if_splits list.splits)
  with assms(2,3) Take Take_pending [of H limits w s s'] show ?thesis
    by (simp add: not_lost_def)
next
  case (Reply w block)
  with assms(3) obtain r where r: "w < length (at_worker s)" "at_worker s ! w = Some r" "s' = step_reply H w r block s"
    by (auto split: if_splits)
  have "exchanges s' = exchanges s" "receivers s' = receivers s"
    using r(3) by (simp_all add: step_reply_def Let_def split: option.splits reply.splits)
  with assms(2) show ?thesis
    using step_reply_pending [OF assms(1) r(1,2)] r(3) by (simp add: not_lost_def)
next
  case (Collected n c now)
  with assms(2,3) show ?thesis
    by (auto intro: step_collected_not_lost)
next
  case (Poll n now)
  with assms(2,3) show ?thesis
    by (auto intro: attempt_send_not_lost)
next
  case (Receive n)
  with assms(2,3) show ?thesis
    by (auto simp: step_receive_def intro: not_lost_put split: Option.bind_splits option.splits if_splits)
next
  case (Hang_Up n)
  with assms(2,3) show ?thesis
    by (auto intro: not_lost_put split: option.splits if_splits)
next
  case Close_Queue
  with assms(3) show ?thesis
    by (auto simp: not_lost_def split: if_splits)
next
  case Drop_Runtime
  with assms(3) have "s' = drop_unfinished (s\<lparr>stop_at := Stopped\<rparr>)"
    by (auto split: if_splits)
  moreover have "phase e \<noteq> Waiting" if "exchanges (drop_unfinished (s\<lparr>stop_at := Stopped\<rparr>)) n = Some e" for n e
  proof -
    from that obtain z where "e = (if unfinished (phase z) then z\<lparr>phase := Dropped\<rparr> else z)"
      by (auto simp: drop_unfinished_def)
    then show ?thesis
      by (cases "unfinished (phase z)") auto
  qed
  ultimately show ?thesis
    by (simp add: not_lost_def)
qed (use assms(2,3) in \<open>auto simp: not_lost_stop_at split: if_splits\<close>)

interpretation kept: step_invariant "http_step H limits" "\<lambda>s. http_ok H \<and> not_lost s"
  by unfold_locales (auto intro: not_lost_step)

lemma http_start_not_lost: "not_lost (http_start workers)"
  by (simp add: not_lost_def http_start_def)

section \<open>Answering what is queued\<close>

fun http_drains :: "('e, 'hm) http_action \<Rightarrow> bool" where
  "http_drains (Take _) = True"
| "http_drains (Reply _ _) = True"
| "http_drains (Receive _) = True"
| "http_drains _ = False"

definition drain_step ::
  "('hm, 'b) http \<Rightarrow> http_limits \<Rightarrow> ('e, 'hm) http_action \<Rightarrow> ('e, 'hm) http_state
   \<Rightarrow> ('e, 'hm) http_state option" where
  "drain_step H limits a s = (if http_drains a then http_step H limits a s else None)"

definition waits :: "('e, 'hm) http_state \<Rightarrow> nat \<Rightarrow> bool" where
  "waits s n \<longleftrightarrow> in_phase Waiting n s \<noteq> None"

definition http_work :: "('e, 'hm) http_state \<Rightarrow> nat" where
  "http_work s = 3 * length (http_queue s) + 2 * length (held (at_worker s))
     + length (filter (waits s) [0..<next_exchange s])"

definition all_answered :: "('e, 'hm) http_state \<Rightarrow> bool" where
  "all_answered s = (\<not> list_ex (waits s) [0..<next_exchange s])"

definition workers_run :: "('hm, 'b) http \<Rightarrow> http_limits \<Rightarrow> ('e, 'hm) http_state \<Rightarrow> bool" where
  "workers_run H limits s \<longleftrightarrow> http_inv (\<lambda>_. True) H limits s \<and> \<not> stopping s \<and> at_worker s \<noteq> []"

lemma waits_iff: "waits s n \<longleftrightarrow> (\<exists>e. exchanges s n = Some e \<and> phase e = Waiting)"
  by (auto simp: waits_def in_phase_def split: option.splits phase.splits)

lemma waits_cong: "exchanges s' = exchanges s \<Longrightarrow> waits s' = waits s"
  by (simp add: waits_iff fun_eq_iff)

lemma length_held:
  "w < length ws \<Longrightarrow> ws ! w = Some r \<Longrightarrow> length (held ws) = Suc (length (held (ws[w := None])))"
  "w < length ws \<Longrightarrow> ws ! w = None \<Longrightarrow> length (held (ws[w := Some r])) = Suc (length (held ws))"
  by (drule (1) held_Some [THEN arg_cong [where f = size]], simp)
    (drule (1) held_None [THEN arg_cong [where f = size]], simp)

text \<open>What a draining step does: an item is taken, an item is answered, or an exchange ends.\<close>

lemma drain_step_cases:
  assumes "drain_step H limits a s = Some s'"
  obtains (Take) w r rs where "w < length (at_worker s)" "at_worker s ! w = None" "http_queue s = r # rs"
      "s' = s\<lparr>http_queue := rs, at_worker := (at_worker s)[w := Some r]\<rparr>"
  | (Reply) w r block where "w < length (at_worker s)" "at_worker s ! w = Some r" "s' = step_reply H w r block s"
  | (Receive) n e r where "exchanges s n = Some e" "phase e = Waiting" "step_receive H n e s = Some s'"
      "s' = put n (e\<lparr>phase := Completed r\<rparr>) s"
proof (cases a)
  case (Receive n)
  with assms obtain e where e: "in_phase Waiting n s = Some e" "step_receive H n e s = Some s'"
    by (auto simp: drain_step_def split: Option.bind_splits)
  then obtain r where "s' = put n (e\<lparr>phase := Completed r\<rparr>) s"
    by (auto simp: step_receive_def split: option.splits if_splits)
  with e in_phaseD [OF e(1)] that(3) show ?thesis
    by blast
qed (use assms that(1,2) in \<open>auto simp: drain_step_def split: if_splits list.splits\<close>)

lemma step_reply_sels [simp]:
  "exchanges (step_reply H w r block s) = exchanges s" "next_exchange (step_reply H w r block s) = next_exchange s"
  "http_queue (step_reply H w r block s) = http_queue s" "receivers (step_reply H w r block s) = receivers s"
  "at_worker (step_reply H w r block s) = (at_worker s)[w := None]"
  "stop_at (step_reply H w r block s) = stop_at s" "stopping (step_reply H w r block s) = stopping s"
  by (simp_all add: step_reply_def stopping_def Let_def split: option.splits reply.splits)

lemma filter_one_less:
  assumes "\<And>m. Q m \<Longrightarrow> P m" and "n \<in> set xs" and "P n" and "\<not> Q n"
  shows "length (filter Q xs) < length (filter P xs)"
  using assms(2)
proof (induction xs)
  case (Cons x xs)
  have "length (filter Q xs) \<le> length (filter P xs)"
    using assms(1) by (induction xs) auto
  with Cons assms show ?case
    by (auto simp: less_Suc_eq_le)
qed simp

lemma drain_step_uses_up:
  assumes "workers_run H limits s" and "drain_step H limits a s = Some s'"
  shows "http_work s' < http_work s"
  using assms(2)
proof (cases rule: drain_step_cases)
  case (Take w r rs)
  then show ?thesis
    using length_held(2) [OF Take(1,2), of r] waits_cong [of s' s] by (simp add: http_work_def)
next
  case (Reply w r block)
  then show ?thesis
    using length_held(1) [OF Reply(1,2)] waits_cong [of s' s] by (simp add: http_work_def)
next
  case (Receive n e r)
  have "n \<in> set [0..<next_exchange s]"
    using assms(1) http_invD(1) [of "\<lambda>_. True" H limits s n e] Receive(1) by (simp add: workers_run_def)
  then have "length (filter (waits s') [0..<next_exchange s]) < length (filter (waits s) [0..<next_exchange s])"
    by (rule filter_one_less [rotated]) (auto simp: waits_iff Receive split: if_splits)
  then show ?thesis
    by (simp add: http_work_def Receive(4))
qed

lemma drain_step_keeps:
  assumes "workers_run H limits s" and "drain_step H limits a s = Some s'"
  shows "workers_run H limits s'"
proof -
  have "http_inv (\<lambda>_. True) H limits s'"
    using assms http_inv_step [OF _ _ allowed_any, of H limits s a s']
    by (auto simp: workers_run_def drain_step_def split: if_splits)
  with assms(1) show ?thesis
    by (cases rule: drain_step_cases [OF assms(2)]) (auto simp: workers_run_def stopping_def)
qed

lemma held_in: "r \<in> set (held ws) \<longleftrightarrow> (\<exists>w < length ws. ws ! w = Some r)"
  by (auto simp: held_def in_set_conv_nth split: option.splits)

lemma answering_goes_on:
  assumes "workers_run H limits s" and "\<not> all_answered s"
  shows "\<exists>a s'. http_drains a \<and> drain_step H limits a s = Some s'"
proof -
  obtain n where n: "waits s n"
    using assms(2) by (auto simp: all_answered_def list_ex_iff)
  then obtain e where e: "in_phase Waiting n s = Some e"
    by (auto simp: waits_def)
  have reply: ?thesis if "w < length (at_worker s)" "at_worker s ! w = Some r" for w r
    using that assms(1) by (intro exI [of _ "Reply w (\<lambda>_. BlockError)"]) (simp add: drain_step_def workers_run_def)
  show ?thesis
  proof (cases "step_receive H n e s")
    case (Some s')
    with e show ?thesis
      by (intro exI [of _ "Receive n"]) (simp add: drain_step_def)
  next
    case None
    then have "\<not> sender_gone s n"
      by (auto simp: step_receive_def split: option.splits if_splits)
    then consider (queue) r rs where "http_queue s = r # rs" | (hand) r where "r \<in> set (held (at_worker s))"
      by (auto simp: sender_gone_def list_all_iff dest: split_list_first) (metis list.exhaust list.set(1) empty_iff)
    then show ?thesis
    proof cases
      case hand
      then show ?thesis
        using reply by (auto simp: held_in)
    next
      case queue
      have "0 < length (at_worker s)"
        using assms(1) by (simp add: workers_run_def)
      with queue reply [of 0] show ?thesis
        by (cases "at_worker s ! 0") (auto simp: drain_step_def intro!: exI [of _ "Take 0"])
    qed
  qed
qed

interpretation answering: draining "drain_step H limits" "workers_run H limits" http_drains http_work all_answered
  by unfold_locales (blast intro: drain_step_keeps drain_step_uses_up answering_goes_on)+

text \<open>An exchange that waits for a worker which has its request, or was answered by one.\<close>

definition served :: "('hm block \<Rightarrow> bool) \<Rightarrow> ('hm, 'b) http \<Rightarrow> nat \<Rightarrow> ('e, 'hm) http_state \<Rightarrow> bool" where
  "served G H n s \<longleftrightarrow> (\<exists>e. exchanges s n = Some e
     \<and> (phase e = Waiting \<and> pending_at s n
        \<or> (\<exists>response. phase e = Completed (Some (Inr response)) \<and> own_answer G H n e response)))"

lemma served_step:
  assumes "http_ok H" and "http_inv G H limits s" and "served G H n s" and "drain_step H limits a s = Some s'"
  shows "served G H n s'"
  using assms(4)
proof (cases rule: drain_step_cases)
  case (Take w r rs)
  then have "pending_at s' n = pending_at s n"
    using Take_pending [of H limits w s s' n] by simp
  with assms(3) Take(4) show ?thesis
    by (simp add: served_def)
next
  case (Reply w r block)
  with assms(3) step_reply_pending [OF assms(1) Reply(1,2)] show ?thesis
    by (simp add: served_def)
next
  case (Receive m e r)
  show ?thesis
  proof (cases "m = n")
    case False
    with assms(3) show ?thesis
      by (simp add: served_def Receive(4) pending_at_iff)
  next
    case True
    with assms(3) Receive(1,2) have "pending_at s n"
      by (auto simp: served_def)
    with True Receive(3) obtain response where "answered s n = Some response"
        "s' = put n (e\<lparr>phase := Completed (Some (Inr response))\<rparr>) s"
      by (auto simp: step_receive_def pending_at_def split: option.splits if_splits)
    moreover have "own_answer G H n e response"
      using http_invD(5) [OF assms(2), of n response] calculation(1) Receive(1) True by auto
    ultimately show ?thesis
      using own_answer_cong [of "e\<lparr>phase := Completed (Some (Inr response))\<rparr>" e G H n response]
      by (auto simp: served_def)
  qed
qed

definition allowed_drain ::
  "('hm block \<Rightarrow> bool) \<Rightarrow> ('hm, 'b) http \<Rightarrow> http_limits \<Rightarrow> ('e, 'hm) http_action \<Rightarrow> ('e, 'hm) http_state
   \<Rightarrow> ('e, 'hm) http_state option" where
  "allowed_drain G H limits a s = (if allowed G a then drain_step H limits a s else None)"

lemma allowed_drain_served:
  assumes "http_ok H \<and> http_inv G H limits s \<and> served G H n s" and "allowed_drain G H limits a s = Some s'"
  shows "http_ok H \<and> http_inv G H limits s' \<and> served G H n s'"
proof -
  have step: "drain_step H limits a s = Some s'" "allowed G a"
    using assms(2) by (simp_all add: allowed_drain_def split: if_splits)
  then have "http_step H limits a s = Some s'"
    by (simp add: drain_step_def split: if_splits)
  with assms(1) step served_step [where G = G and H = H and limits = limits and s = s and n = n and a = a and s' = s']
    http_inv_step [where G = G and H = H and limits = limits and s = s and a = a and s' = s']
  show ?thesis
    by blast
qed

interpretation serving: step_invariant "allowed_drain G H limits"
    "\<lambda>s. http_ok H \<and> http_inv G H limits s \<and> served G H n s"
  by unfold_locales (rule allowed_drain_served)

section \<open>Stopping\<close>

text \<open>
  An exchange that waits for a worker that cannot run, or has been dropped; and the steps other than the end of the
  wait where syslog listeners are then drained.
\<close>

definition starved :: "('hm, 'b) http \<Rightarrow> http_limits \<Rightarrow> nat \<Rightarrow> ('e, 'hm) http_state \<Rightarrow> bool" where
  "starved H limits n s \<longleftrightarrow> http_inv (\<lambda>_. True) H limits s
     \<and> (\<exists>e. exchanges s n = Some e
          \<and> (phase e = Dropped \<or> phase e = Waiting \<and> stopping s \<and> \<not> sender_gone s n))"

definition undrained_step ::
  "('hm, 'b) http \<Rightarrow> http_limits \<Rightarrow> ('e, 'hm) http_action \<Rightarrow> ('e, 'hm) http_state
   \<Rightarrow> ('e, 'hm) http_state option" where
  "undrained_step H limits a s =
     (case a of
        Task_Ended _ \<Rightarrow> if syslog_running limits then None else http_step H limits a s
      | _ \<Rightarrow> http_step H limits a s)"

lemma undrained_stepD:
  assumes "undrained_step H limits a s = Some s'"
  shows "http_step H limits a s = Some s'" and "a = Task_Ended b \<Longrightarrow> \<not> syslog_running limits"
  using assms by (auto simp: undrained_step_def split: http_action.splits if_splits)

lemma sender_gone_iff: "\<not> sender_gone s n \<longleftrightarrow> n \<in> response_tx ` set (items s)"
  by (auto simp: sender_gone_def list_all_iff)

text \<open>A step of another exchange.\<close>

definition elsewhere :: "nat \<Rightarrow> ('e, 'hm) http_state \<Rightarrow> ('e, 'hm) http_state \<Rightarrow> bool" where
  "elsewhere n s s' \<longleftrightarrow> exchanges s' n = exchanges s n \<and> stopping s' = stopping s
     \<and> (\<not> sender_gone s n \<longrightarrow> \<not> sender_gone s' n)"

lemma elsewhere_put: "m \<noteq> n \<Longrightarrow> elsewhere n s (put m e s)"
  by (simp add: elsewhere_def sender_gone_def)

lemma attempt_send_elsewhere: "m \<noteq> n \<Longrightarrow> elsewhere n s (attempt_send H limits m e now s)"
  by (cases "try_push limits s")
    (simp_all add: attempt_send_def Let_def elsewhere_put, simp add: elsewhere_def sender_gone_def stopping_def)

lemma step_collected_elsewhere: "m \<noteq> n \<Longrightarrow> elsewhere n s (step_collected H limits m e c now s)"
  by (cases c) (simp_all add: step_collected_def Let_def elsewhere_put attempt_send_elsewhere)

text \<open>Whatever is done to an exchange that waits or is dropped, unless it is received, dropped or swept away.\<close>

lemma step_elsewhere:
  assumes "http_inv G H limits s" and "exchanges s n = Some e" and "phase e = Waiting \<or> phase e = Dropped"
    and "http_step H limits a s = Some s'"
  shows "elsewhere n s s' \<or> a = Receive n \<or> a = Hang_Up n
    \<or> (\<exists>w block. a = Reply w block) \<or> a \<in> {Close_Queue, Stop, Syslog_Drained, Drop_Runtime} \<or> (\<exists>b. a = Task_Ended b)"
proof (cases a)
  case (Arrive req len)
  moreover have "n \<noteq> next_exchange s"
    using assms(2) http_invD(1) [OF assms(1)] by blast
  ultimately show ?thesis
    using assms(4) by (auto simp: elsewhere_def sender_gone_def stopping_def split: if_splits)
next
  case (Collected m c now)
  then obtain f where f: "in_phase Collecting m s = Some f" "s' = step_collected H limits m f c now s"
    using assms(4) by auto
  moreover have "m \<noteq> n"
    using in_phaseD [OF f(1)] assms(2,3) by auto
  ultimately show ?thesis
    by (simp add: step_collected_elsewhere)
next
  case (Poll m now)
  then obtain f where f: "in_phase Sending m s = Some f" "s' = attempt_send H limits m f now s"
    using assms(4) by auto
  moreover have "m \<noteq> n"
    using in_phaseD [OF f(1)] assms(2,3) by auto
  ultimately show ?thesis
    by (simp add: attempt_send_elsewhere)
next
  case (Take w)
  then show ?thesis
    using assms(4) by (auto simp: elsewhere_def sender_gone_iff stopping_def set_held(2) split: if_splits list.splits)
next
  case (Receive m)
  then show ?thesis
    using assms(4) by (auto simp: step_receive_def elsewhere_put split: Option.bind_splits option.splits if_splits)
next
  case (Hang_Up m)
  then show ?thesis
    using assms(4) by (auto simp: elsewhere_put split: option.splits if_splits)
qed auto

lemma drop_unfinished_at:
  "exchanges s n = Some e \<Longrightarrow> phase e = Waiting \<or> phase e = Dropped \<Longrightarrow>
   \<exists>e'. exchanges (drop_unfinished (s\<lparr>stop_at := p\<rparr>)) n = Some e' \<and> phase e' = Dropped"
  by (auto simp: drop_unfinished_def)

text \<open>An exchange that was dropped stays so.\<close>

lemma dropped_step:
  assumes "http_inv G H limits s" and "exchanges s n = Some e" and "phase e = Dropped"
    and "http_step H limits a s = Some s'"
  shows "\<exists>e'. exchanges s' n = Some e' \<and> phase e' = Dropped"
proof (cases "elsewhere n s s' \<or> exchanges s' = exchanges s")
  case True
  with assms(2,3) show ?thesis
    by (auto simp: elsewhere_def)
next
  case False
  moreover have "a \<noteq> Receive n" "a \<noteq> Hang_Up n"
    using assms(2-4) by (auto simp: in_phase_def)
  moreover have "exchanges s' = exchanges s"
    if "a \<in> {Close_Queue, Stop, Syslog_Drained} \<or> (\<exists>w block. a = Reply w block) \<or> (\<exists>b. a = Task_Ended b)"
    using that assms(4) by (auto split: if_splits)
  ultimately have "a = Drop_Runtime"
    using step_elsewhere [OF assms(1,2) _ assms(4)] assms(3) by blast
  with assms(2-4) drop_unfinished_at [of s n e Stopped] show ?thesis
    by (auto split: if_splits)
qed

lemma waiting_step:
  assumes "http_inv G H limits s" and "exchanges s n = Some e" and "phase e = Waiting"
    and "stopping s" and "\<not> sender_gone s n" and "undrained_step H limits a s = Some s'"
  shows "\<exists>e'. exchanges s' n = Some e' \<and> (phase e' = Dropped \<or> phase e' = Waiting \<and> stopping s' \<and> \<not> sender_gone s' n)"
proof -
  note step = undrained_stepD [OF assms(6)]
  have "answered s n = None"
    using assms(1,5) http_invD(3) [OF assms(1)] by (fastforce simp: sender_gone_iff item_ok_def)
  then have no: "a \<noteq> Receive n" "\<And>w block. a \<noteq> Reply w block" "a \<notin> {Close_Queue, Stop, Syslog_Drained}"
    using step(1) assms(2-5) by (auto simp: step_receive_def stopping_def in_phase_def split: if_splits)
  consider "elsewhere n s s'" | "a = Hang_Up n" | "a = Drop_Runtime" | b where "a = Task_Ended b"
    using step_elsewhere [OF assms(1,2) _ step(1)] assms(3) no by blast
  then show ?thesis
  proof cases
    case 1
    with assms(2-5) show ?thesis
      by (auto simp: elsewhere_def)
  next
    case 2
    with step(1) assms(2,3) show ?thesis
      by auto
  next
    case 3
    with step(1) assms(2,3) drop_unfinished_at [of s n e Stopped] show ?thesis
      by (auto split: if_splits)
  next
    case (4 b)
    with step assms(2-5) show ?thesis
      by (auto simp: stopping_def sender_gone_def split: if_splits)
  qed
qed

lemma starved_step:
  assumes "starved H limits n s" and "undrained_step H limits a s = Some s'"
  shows "starved H limits n s'"
proof -
  note step = undrained_stepD(1) [OF assms(2)]
  obtain e where e: "http_inv (\<lambda>_. True) H limits s" "exchanges s n = Some e"
      "phase e = Dropped \<or> phase e = Waiting \<and> stopping s \<and> \<not> sender_gone s n"
    using assms(1) by (auto simp: starved_def)
  have "http_inv (\<lambda>_. True) H limits s'"
    using http_inv_step [OF e(1) step allowed_any] .
  with dropped_step [OF e(1,2) _ step] waiting_step [OF e(1,2) _ _ _ assms(2)] e(3) show ?thesis
    unfolding starved_def by blast
qed

interpretation stopping: step_invariant "undrained_step H limits" "starved H limits n"
  by unfold_locales (rule starved_step)

section \<open>Properties of the HTTP service\<close>

lemma runs_undrained:
  "\<forall>b. Task_Ended b \<in> set acts \<longrightarrow> \<not> syslog_running limits \<Longrightarrow>
   runs (http_step H limits) acts s = runs (undrained_step H limits) acts s"
proof (induction acts arbitrary: s)
  case (Cons a acts)
  then have "http_step H limits a s = undrained_step H limits a s"
    by (cases a) (auto simp: undrained_step_def)
  with Cons show ?case
    by (auto split: option.splits)
qed simp

lemma runs_drain:
  "list_all http_drains acts \<Longrightarrow> runs (http_step H limits) acts s = runs (drain_step H limits) acts s"
  by (induction acts arbitrary: s) (auto simp: drain_step_def split: option.splits)

lemma attempt_send_workers: "at_worker (attempt_send H limits n e now s) = at_worker s"
  by (cases "try_push limits s") (simp_all add: attempt_send_def Let_def)

lemma step_collected_workers: "at_worker (step_collected H limits n e c now s) = at_worker s"
  by (cases c) (simp_all add: step_collected_def attempt_send_workers Let_def)

lemma runs_allowed_drain:
  "list_all (allowed G) acts \<Longrightarrow> runs (drain_step H limits) acts s = runs (allowed_drain G H limits) acts s"
  by (induction acts arbitrary: s) (auto simp: allowed_drain_def split: option.splits)

lemma http_step_workers:
  assumes "http_step H limits a s = Some s'"
  shows "length (at_worker s') = length (at_worker s)"
  using assms
  by (cases a) (auto simp: attempt_send_workers step_collected_workers step_receive_def drop_unfinished_def
      split: if_splits option.splits list.splits Option.bind_splits)

interpretation crew: step_invariant "http_step H limits" "\<lambda>s. length (at_worker s) = n"
  by unfold_locales (simp add: http_step_workers)

definition sample_limits :: http_limits where
  "sample_limits = \<lparr>capacity = 1, max_wait = 1000, max_age = None, syslog_running = False, handle_stored = True\<rparr>"

definition sample_parts :: "(string \<times> bytes) list HyperRequest" where
  "sample_parts = \<lparr>request_method = ''GET'', uri_host = None, uri_path = ''/'', uri_query = None,
     request_headers = [], request_body = []\<rparr>"

definition sample_response :: "(string \<times> bytes) list HyperResponse" where
  "sample_response = \<lparr>response_status = 200, response_headers = [], response_body = BodyWithTrailers_new [79, 75] None\<rparr>"

definition sample_acts :: "(string, (string \<times> bytes) list) http_action list" where
  "sample_acts = [Arrive sample_parts None, Collected 0 (CollectedBody [1]) 0, Arrive sample_parts None,
     Collected 1 (CollectedBody []) 0, Take 0]"

lemma sample_run:
  "\<exists>s e f. runs (http_step simple_http sample_limits) sample_acts (http_start 1) = Some s
     \<and> exchanges s 0 = Some e \<and> phase e = Waiting \<and> exchanges s 1 = Some f \<and> phase f = Sending
     \<and> \<not> stopping s \<and> receivers s \<and> \<not> sender_gone s 0"
  by (simp add: sample_acts_def sample_limits_def http_start_def put_def in_phase_def step_collected_def
      attempt_send_def try_push_def wrong_length_def held_def sender_gone_def stopping_def Let_def)

definition run_blocks :: "('e, 'hm) http_action list \<Rightarrow> 'hm block \<Rightarrow> bool" where
  "run_blocks acts block \<longleftrightarrow> (\<exists>w. Reply w block \<in> set acts)"

lemma allowed_run_blocks: "set acts \<subseteq> set all_acts \<Longrightarrow> list_all (allowed (run_blocks all_acts)) acts"
proof -
  have "allowed (run_blocks all_acts) a" if "a \<in> set all_acts" for a
    using that by (cases a rule: http_action.exhaust) (auto simp: run_blocks_def)
  then show "set acts \<subseteq> set all_acts \<Longrightarrow> list_all (allowed (run_blocks all_acts)) acts"
    by (auto simp: list_all_iff)
qed

lemma reachable_inv:
  assumes "runs (http_step H limits) acts (http_start workers) = Some s" and "list_all (allowed G) acts"
  shows "http_inv G H limits s"
  using http.runs_keep [OF http_start_inv] assms runs_allowed [OF assms(2)] by metis

text \<open>
  C10. The HTTP service refines \<open>handle_request\<close>: however the exchanges, the queue, the workers
  and \<open>stop\<close> interleave, a completed exchange has the outcome of \<open>handle_request\<close> on its own
  request, body and declared length, with the times at which it found the queue full; and
  where that outcome is a worker's answer, it is what a block of the run made of this very
  request, sent back on this exchange's channel. Responses are never exchanged between requests.
\<close>

theorem http_service_refines_handler:
  assumes "runs (http_step H limits) acts (http_start workers) = Some s"
    and "exchanges s n = Some e" and "phase e = Completed r"
  shows "\<exists>c final answer q. body e = Some c
    \<and> handle_request H (length (full_at e)) (max_wait limits) (\<lambda>i. full_at e ! i)
        (if full_at e = [] then final else Full) (\<lambda>i. if Suc i < length (full_at e) then Full else final)
        answer (parts e) (declared_len e) c = Some \<lparr>queued = q, result = r\<rparr>
    \<and> (\<forall>response. answer = Some response \<longrightarrow>
        (\<exists>w block. Reply w block \<in> set acts
           \<and> process_http H block \<lparr>work_request = hyper_request e, response_tx = n\<rparr>
             = Some (Responded n response)))"
proof -
  have "http_inv (run_blocks acts) H limits s"
    by (rule reachable_inv [OF assms(1) allowed_run_blocks]) simp
  from http_invD(2) [OF this assms(2)] show ?thesis
    using assms(3) by (fastforce simp: exchange_ok_def explained_def handled_as_def own_answer_def run_blocks_def)
qed

theorem http_service_refines_handler_witness:
  "\<exists>s e r c final answer q.
     runs (http_step simple_http sample_limits) (sample_acts @ [Reply 0 (\<lambda>_. ResponseValue sample_response), Receive 0])
       (http_start 1) = Some s
     \<and> exchanges s 0 = Some e \<and> phase e = Completed r \<and> body e = Some c
     \<and> handle_request simple_http (length (full_at e)) (max_wait sample_limits) (\<lambda>i. full_at e ! i)
         (if full_at e = [] then final else Full) (\<lambda>i. if Suc i < length (full_at e) then Full else final)
         answer (parts e) (declared_len e) c = Some \<lparr>queued = q, result = r\<rparr>"
proof -
  have "\<exists>s e r. runs (http_step simple_http sample_limits)
       (sample_acts @ [Reply 0 (\<lambda>_. ResponseValue sample_response), Receive 0]) (http_start 1) = Some s
     \<and> exchanges s 0 = Some e \<and> phase e = Completed r"
    by (simp add: sample_acts_def sample_limits_def sample_parts_def http_start_def put_def in_phase_def
        step_collected_def attempt_send_def try_push_def wrong_length_def held_def Let_def step_reply_def
        process_http_def is_grpc_request_def hyper_request_def step_receive_def stopping_def)
  then obtain s e r where run: "runs (http_step simple_http sample_limits)
       (sample_acts @ [Reply 0 (\<lambda>_. ResponseValue sample_response), Receive 0]) (http_start 1) = Some s"
      and e: "exchanges s 0 = Some e" and r: "phase e = Completed r"
    by blast
  with http_service_refines_handler [OF run e r] show ?thesis
    by blast
qed

text \<open>
  C11. Queued requests are answered: in any state the service can reach, with a worker, \<open>stop\<close>
  not holding the GVL and the queue open, the steps of the workers and of the waiting exchanges come to
  an end within the work there is, and once none of them is possible every exchange that
  waited has been answered with what a block made of its own request.
\<close>

theorem queued_requests_answered:
  assumes "http_ok H" and "runs (http_step H limits) acts (http_start workers) = Some s"
    and "0 < workers" and "\<not> stopping s" and "receivers s"
    and "exchanges s n = Some e" and "phase e = Waiting"
    and "list_all http_drains more_acts" and "runs (http_step H limits) more_acts s = Some s'"
  shows "length more_acts \<le> http_work s
    \<and> ((\<forall>a. http_drains a \<longrightarrow> http_step H limits a s' = None) \<longrightarrow>
        (\<exists>e' response w block. exchanges s' n = Some e' \<and> phase e' = Completed (Some (Inr response))
           \<and> Reply w block \<in> set (acts @ more_acts)
           \<and> process_http H block \<lparr>work_request = hyper_request e', response_tx = n\<rparr>
             = Some (Responded n response)))"
proof -
  let ?G = "run_blocks (acts @ more_acts)"
  have "length (at_worker s) = workers"
    using crew.runs_keep [OF _ assms(2), of workers] by (simp add: http_start_def)
  moreover have "list_all (allowed (\<lambda>_. True)) acts"
    by (simp add: list_all_iff allowed_any)
  ultimately have run: "workers_run H limits s"
    using reachable_inv [OF assms(2)] assms(3,4) by (auto simp: workers_run_def)
  have drain: "runs (drain_step H limits) more_acts s = Some s'"
    using assms(9) runs_drain [OF assms(8)] by metis
  have inv: "http_inv ?G H limits s"
    by (rule reachable_inv [OF assms(2) allowed_run_blocks]) simp
  moreover have "served ?G H n s"
    using kept.runs_keep [of H "http_start workers" limits acts s] http_start_not_lost assms(1,2,5-7)
    by (auto simp: served_def not_lost_def)
  moreover have "runs (allowed_drain ?G H limits) more_acts s = Some s'"
    using drain runs_allowed_drain [OF allowed_run_blocks, of more_acts "acts @ more_acts" H limits s] by simp
  ultimately have srv: "http_inv ?G H limits s'" "served ?G H n s'"
    using serving.runs_keep [of H ?G limits s n] assms(1) by blast+
  have "all_answered s'" if "\<forall>a. http_drains a \<longrightarrow> http_step H limits a s' = None"
    by (rule answering.stuck_at_rest [OF run drain]) (use that in \<open>simp add: drain_step_def\<close>)
  moreover have "n < next_exchange s'" if "exchanges s' n = Some e'" for e'
    using http_invD(1) [OF srv(1) that] .
  ultimately show ?thesis
    using answering.runs_bounded [OF run assms(8) drain] srv(2)
    by (fastforce simp: served_def own_answer_def run_blocks_def all_answered_def list_ex_iff waits_iff)
qed

theorem queued_requests_answered_witness:
  "\<exists>s s' e' response.
     runs (http_step simple_http sample_limits) sample_acts (http_start 1) = Some s
     \<and> runs (http_step simple_http sample_limits) [Reply 0 (\<lambda>_. ResponseValue sample_response), Receive 0] s = Some s'
     \<and> exchanges s' 0 = Some e' \<and> phase e' = Completed (Some (Inr response))
     \<and> (\<exists>block. process_http simple_http block \<lparr>work_request = hyper_request e', response_tx = 0\<rparr>
           = Some (Responded 0 response))"
proof -
  obtain s e where s: "runs (http_step simple_http sample_limits) sample_acts (http_start 1) = Some s"
      "\<not> stopping s" "receivers s" "exchanges s 0 = Some e" "phase e = Waiting"
    using sample_run by blast
  let ?more = "[Reply 0 (\<lambda>_. ResponseValue sample_response), Receive 0]"
  have "\<exists>s'. runs (http_step simple_http sample_limits) (sample_acts @ ?more) (http_start 1) = Some s'
      \<and> http_queue s' = [] \<and> at_worker s' = [None] \<and> (\<forall>m. in_phase Waiting m s' = None)"
    by (simp add: sample_acts_def sample_limits_def sample_parts_def http_start_def put_def in_phase_def
        step_collected_def attempt_send_def try_push_def wrong_length_def held_def Let_def step_reply_def
        process_http_def is_grpc_request_def hyper_request_def step_receive_def stopping_def)
  then obtain s' where s': "runs (http_step simple_http sample_limits) ?more s = Some s'"
      "http_queue s' = []" "at_worker s' = [None]" "\<forall>m. in_phase Waiting m s' = None"
    using s(1) by (auto simp: runs_append)
  have "http_step simple_http sample_limits a s' = None" if "http_drains a" for a
    using that s'(2-4) by (cases a) (auto simp: less_Suc_eq)
  moreover have "list_all http_drains ?more"
    by simp
  ultimately have "\<exists>e' response. exchanges s' 0 = Some e' \<and> phase e' = Completed (Some (Inr response))
      \<and> (\<exists>block. process_http simple_http block \<lparr>work_request = hyper_request e', response_tx = 0\<rparr>
           = Some (Responded 0 response))"
    using queued_requests_answered [OF simple_http_ok s(1) _ s(2-5) _ s'(1)] by fastforce
  with s(1) s'(1) show ?thesis
    by blast
qed

text \<open>
  C38. \<open>stop\<close> starves the requests it waits for: while it waits for the server task it keeps the GVL, so a
  request that is queued or with a worker is not answered, whatever else happens: its exchange
  waits on or is dropped. Without a maximum age and with the handle of the task stored, the wait does not end
  before its timeout. Where no syslog listeners run the exchange is not answered at all: \<open>stop\<close>
  drops it with the runtime. Only where they do are the workers let in, after the wait, while the
  listeners are drained.
\<close>

theorem stop_starves_requests:
  assumes "runs (http_step H limits) acts (http_start workers) = Some s"
    and "stop_at s = Awaiting_Task" and "exchanges s n = Some e" and "phase e = Waiting" and "\<not> sender_gone s n"
    and "runs (http_step H limits) more_acts s = Some s'"
    and "\<forall>b. Task_Ended b \<in> set more_acts \<longrightarrow> \<not> syslog_running limits"
  shows "\<exists>e'. exchanges s' n = Some e' \<and> (phase e' = Waiting \<or> phase e' = Dropped)
    \<and> (phase e' = Waiting \<longrightarrow> max_age limits = None \<longrightarrow> handle_stored limits \<longrightarrow>
        http_step H limits (Task_Ended False) s' = None)
    \<and> (stop_at s' = Stopped \<longrightarrow> phase e' = Dropped)"
proof -
  have "list_all (allowed (\<lambda>_. True)) acts"
    by (simp add: list_all_iff allowed_any)
  then have "starved H limits n s"
    using reachable_inv [OF assms(1)] assms(2-5) by (simp add: starved_def stopping_def)
  moreover have "runs (undrained_step H limits) more_acts s = Some s'"
    using assms(6) runs_undrained [OF assms(7)] by metis
  ultimately have "starved H limits n s'"
    by (rule stopping.runs_keep)
  then obtain e' where e': "http_inv (\<lambda>_. True) H limits s'" "exchanges s' n = Some e'"
      "phase e' = Dropped \<or> phase e' = Waiting \<and> stopping s' \<and> \<not> sender_gone s' n"
    by (auto simp: starved_def)
  have "n < next_exchange s'"
    using http_invD(1) [OF e'(1,2)] .
  then have "\<not> all_finished s'" if "phase e' = Waiting"
    using that e'(2) by (auto simp: all_finished_def list_all_iff intro!: bexI [of _ n])
  then show ?thesis
    using e'(2,3) by (auto simp: task_ends_def stopping_def)
qed

theorem stop_starves_requests_witness:
  "\<exists>s s' e'. runs (http_step simple_http sample_limits) (sample_acts @ [Stop]) (http_start 1) = Some s
     \<and> runs (http_step simple_http sample_limits) [Poll 1 10, Task_Ended True, Drop_Runtime] s = Some s'
     \<and> exchanges s' 0 = Some e' \<and> phase e' = Dropped"
proof -
  let ?more = "[Poll 1 10, Task_Ended True, Drop_Runtime]"
  have "\<exists>s e s'. runs (http_step simple_http sample_limits) (sample_acts @ [Stop]) (http_start 1) = Some s
      \<and> stop_at s = Awaiting_Task \<and> exchanges s 0 = Some e \<and> phase e = Waiting \<and> \<not> sender_gone s 0
      \<and> runs (http_step simple_http sample_limits) ?more s = Some s' \<and> stop_at s' = Stopped"
    by (simp add: sample_acts_def sample_limits_def http_start_def put_def in_phase_def step_collected_def
      attempt_send_def try_push_def wrong_length_def held_def sender_gone_def task_ends_def drop_unfinished_def Let_def)
  then obtain s e s' where s: "runs (http_step simple_http sample_limits) (sample_acts @ [Stop]) (http_start 1) = Some s"
      "stop_at s = Awaiting_Task" "exchanges s 0 = Some e" "phase e = Waiting" "\<not> sender_gone s 0"
      "runs (http_step simple_http sample_limits) ?more s = Some s'" "stop_at s' = Stopped"
    by blast
  have "\<forall>b. Task_Ended b \<in> set ?more \<longrightarrow> \<not> syslog_running sample_limits"
    by (simp add: sample_limits_def)
  from stop_starves_requests [OF s(1-6) this] s(1,6,7) show ?thesis
    by blast
qed

text \<open>With syslog listeners the same request is answered while they are drained.\<close>

lemma drained_stop_answers:
  "\<exists>s e response. runs (http_step simple_http (sample_limits\<lparr>syslog_running := True\<rparr>))
      (sample_acts @ [Stop, Task_Ended True, Reply 0 (\<lambda>_. ResponseValue sample_response), Receive 0,
         Syslog_Drained, Drop_Runtime]) (http_start 1) = Some s
    \<and> exchanges s 0 = Some e \<and> phase e = Completed (Some (Inr response))"
  by (simp add: sample_acts_def sample_limits_def sample_parts_def http_start_def put_def in_phase_def
      step_collected_def attempt_send_def try_push_def wrong_length_def held_def Let_def step_reply_def
      process_http_def is_grpc_request_def hyper_request_def step_receive_def task_ends_def drop_unfinished_def stopping_def)

end
