(* ===== verification/Connections.thy ===== *)
theory Connections
  imports Std_Net Transitions
begin

text \<open>
  The task of the HTTP server (\<open>Server::start\<close> in \<open>lib.rs\<close>): the accept loop, the connections with
  and without a maximum age, the shutdown signal and the wait for the connections, as
  interleaved steps of the tasks involved.

  What hyper does with a connection is its end, an action. A connection without a maximum age is
  watched by \<open>GracefulShutdown\<close> of hyper-util, which asks it to shut down when the accept loop is
  over and lets the task wait for it. The signal is a broadcast: it is seen by those who have
  subscribed when it is sent, and by all subscribers when the last sender is dropped; the server holds
  one and its task another. \<open>stop\<close> sends the signal, waits for the task if \<open>start\<close> stored its
  handle, drops its sender and then the runtime, with all tasks that are left. After a \<open>start\<close> whose syslog
  listeners failed there is a task but no handle. The theory is about servers that end by \<open>stop\<close>.
\<close>

section \<open>The listener\<close>

datatype Listener = Listener_Unix | Listener_Tcp

text \<open>\<open>None\<close>: the panic of \<open>unwrap\<close>. The address of a Unix client is not looked at.\<close>

fun Listener_accept :: "Listener \<Rightarrow> 'e + SocketAddr \<Rightarrow> ('e + SocketAddr) option" where
  "Listener_accept Listener_Unix (Inl e) = Some (Inl e)"
| "Listener_accept Listener_Unix (Inr _) =
     (case SocketAddr_parse ''0.0.0.0:0'' of Inr addr \<Rightarrow> Some (Inr addr) | Inl _ \<Rightarrow> None)"
| "Listener_accept Listener_Tcp accepted = Some accepted"

section \<open>The state\<close>

datatype task_phase = Accept_Phase | Accept_Disabled | Drain_Phase | Task_Done

datatype conn_status = Conn_Open | Conn_Closed | Conn_Cut

text \<open>\<open>unseen\<close>: a signal the task of the connection can receive. \<open>goaways\<close> counts the calls of \<open>graceful_shutdown\<close>.\<close>

record http_conn =
  with_age :: bool
  unseen :: bool
  graceful_shutdown_started :: bool
  goaways :: nat
  status :: conn_status

record server_task_state =
  st_phase :: task_phase
  st_total :: u64
  st_conns :: "http_conn list"
  st_unseen :: bool
  st_sent :: bool
  st_timed_out :: bool
  st_senders :: bool
  st_handle :: bool
  st_dropped :: bool

text \<open>
  \<open>st_senders\<close>: the server still has its sender. \<open>st_handle\<close>: the handle of the task is stored.
  \<open>st_dropped\<close>: the runtime is gone.
\<close>

definition task_start :: "bool \<Rightarrow> u64 \<Rightarrow> server_task_state" where
  "task_start handle total_connections =
     \<lparr>st_phase = Accept_Phase, st_total = total_connections, st_conns = [], st_unseen = False, st_sent = False,
      st_timed_out = False, st_senders = True, st_handle = handle, st_dropped = False\<rparr>"

section \<open>The steps\<close>

datatype 'e task_action =
    Accept_Result "'e + SocketAddr"
  | Send_Signal
  | Loop_Receives
  | Age_Reached nat
  | Conn_Receives nat
  | Watch_Signals nat
  | Conn_Ends nat
  | Drain_Ends bool
  | Senders_Dropped
  | Runtime_Dropped

definition new_conn :: "u64 option \<Rightarrow> http_conn" where
  "new_conn max_connection_age =
     \<lparr>with_age = (max_connection_age \<noteq> None), unseen = False, graceful_shutdown_started = False, goaways = 0,
      status = Conn_Open\<rparr>"

text \<open>
  One round of the accept loop. A result that does not match \<open>Ok((stream, _))\<close> disables the
  branch: the \<open>select!\<close> then waits for the signal alone.
\<close>

definition accept_round ::
  "Listener \<Rightarrow> u64 option \<Rightarrow> 'e + SocketAddr \<Rightarrow> server_task_state \<Rightarrow> server_task_state" where
  "accept_round listener max_connection_age accepted s =
     (case Listener_accept listener accepted of
        None \<Rightarrow> s\<lparr>st_phase := Task_Done\<rparr>
      | Some (Inl _) \<Rightarrow> s\<lparr>st_phase := Accept_Disabled\<rparr>
      | Some (Inr _) \<Rightarrow>
          s\<lparr>st_total := st_total s + 1, st_conns := st_conns s @ [new_conn max_connection_age]\<rparr>)"

definition ask_to_close :: "http_conn \<Rightarrow> http_conn" where
  "ask_to_close c = c\<lparr>graceful_shutdown_started := True, goaways := goaways c + 1\<rparr>"

text \<open>A step of the open connection \<open>n\<close>, where its branch is enabled.\<close>

definition conn_step ::
  "nat \<Rightarrow> (http_conn \<Rightarrow> bool) \<Rightarrow> (http_conn \<Rightarrow> http_conn) \<Rightarrow> server_task_state \<Rightarrow> server_task_state option" where
  "conn_step n enabled f s =
     (if n < length (st_conns s) \<and> status (st_conns s ! n) = Conn_Open \<and> enabled (st_conns s ! n)
      then Some (s\<lparr>st_conns := (st_conns s)[n := f (st_conns s ! n)]\<rparr>) else None)"

definition broadcast :: "server_task_state \<Rightarrow> server_task_state" where
  "broadcast s = s\<lparr>st_conns := map (\<lambda>c. if with_age c then c\<lparr>unseen := True\<rparr> else c) (st_conns s)\<rparr>"

text \<open>The server and the task have dropped their senders.\<close>

definition last_sender :: "server_task_state \<Rightarrow> server_task_state" where
  "last_sender s = (if \<not> st_senders s \<and> st_phase s = Task_Done then broadcast s else s)"

definition watched_closed :: "server_task_state \<Rightarrow> bool" where
  "watched_closed s = list_all (\<lambda>c. with_age c \<or> status c \<noteq> Conn_Open) (st_conns s)"

definition cut_open :: "http_conn \<Rightarrow> http_conn" where
  "cut_open c = (if status c = Conn_Open then c\<lparr>status := Conn_Cut\<rparr> else c)"

fun task_step ::
  "Listener \<Rightarrow> u64 option \<Rightarrow> 'e task_action \<Rightarrow> server_task_state \<Rightarrow> server_task_state option" where
  "task_step listener age (Accept_Result accepted) s =
     (if st_phase s = Accept_Phase \<and> \<not> st_dropped s then Some (accept_round listener age accepted s) else None)"
| "task_step listener age Send_Signal s =
     (if st_senders s then Some (broadcast (s\<lparr>st_unseen := True, st_sent := True\<rparr>)) else None)"
| "task_step listener age Loop_Receives s =
     (if st_unseen s \<and> (st_phase s = Accept_Phase \<or> st_phase s = Accept_Disabled) \<and> \<not> st_dropped s
      then Some (s\<lparr>st_phase := Drain_Phase, st_unseen := False\<rparr>) else None)"
| "task_step listener age (Age_Reached n) s =
     conn_step n (\<lambda>c. with_age c \<and> \<not> graceful_shutdown_started c) ask_to_close s"
| "task_step listener age (Conn_Receives n) s =
     conn_step n (\<lambda>c. with_age c \<and> unseen c \<and> \<not> graceful_shutdown_started c)
       (\<lambda>c. ask_to_close (c\<lparr>unseen := False\<rparr>)) s"
| "task_step listener age (Watch_Signals n) s =
     (if st_phase s = Drain_Phase \<and> \<not> st_dropped s
      then conn_step n (\<lambda>c. \<not> with_age c \<and> \<not> graceful_shutdown_started c) ask_to_close s else None)"
| "task_step listener age (Conn_Ends n) s = conn_step n (\<lambda>_. True) (\<lambda>c. c\<lparr>status := Conn_Closed\<rparr>) s"
| "task_step listener age (Drain_Ends timed_out) s =
     (if st_phase s = Drain_Phase \<and> \<not> st_dropped s \<and> (timed_out \<or> watched_closed s)
      then Some (last_sender (s\<lparr>st_phase := Task_Done, st_timed_out := timed_out\<rparr>)) else None)"
| "task_step listener age Senders_Dropped s =
     (if st_senders s \<and> st_sent s \<and> (st_handle s \<longrightarrow> st_phase s = Task_Done)
      then Some (last_sender (s\<lparr>st_senders := False\<rparr>)) else None)"
| "task_step listener age Runtime_Dropped s =
     (if \<not> st_senders s then Some (s\<lparr>st_conns := map cut_open (st_conns s), st_dropped := True\<rparr>) else None)"

section \<open>The listener does not panic\<close>

lemma no_address: "SocketAddr_parse ''0.0.0.0:0'' = Inr (SocketAddrV4 [0, 0, 0, 0] 0)"
proof -
  have "SocketAddr_to_string (SocketAddrV4 [0, 0, 0, 0] 0) = ''0.0.0.0:0''"
    by (simp add: to_string_radix radix_text.simps digit_char_def) code_simp
  then show ?thesis
    using SocketAddr_parse_to_string [of "SocketAddrV4 [0, 0, 0, 0] 0"] by simp
qed

lemma Listener_accept_total: "\<exists>r. Listener_accept listener accepted = Some r \<and> (isl r = isl accepted)"
  by (cases "(listener, accepted)" rule: Listener_accept.cases) (simp_all add: no_address)

lemma accept_round_cases:
  obtains "isl accepted" "accept_round listener age accepted s = s\<lparr>st_phase := Accept_Disabled\<rparr>"
  | "\<not> isl accepted" "accept_round listener age accepted s
      = s\<lparr>st_total := st_total s + 1, st_conns := st_conns s @ [new_conn age]\<rparr>"
proof -
  obtain r where "Listener_accept listener accepted = Some r" "isl r = isl accepted"
    using Listener_accept_total by blast
  with that show ?thesis
    by (cases r) (auto simp: accept_round_def)
qed

lemma accept_round_flags:
  "st_sent (accept_round listener age accepted s) = st_sent s"
  "st_unseen (accept_round listener age accepted s) = st_unseen s"
  by (simp_all add: accept_round_def split: option.splits sum.splits)

section \<open>The invariant of the task\<close>

definition conn_ok :: "u64 option \<Rightarrow> server_task_state \<Rightarrow> http_conn \<Rightarrow> bool" where
  "conn_ok age s c \<longleftrightarrow>
     with_age c = (age \<noteq> None)
     \<and> goaways c = (if graceful_shutdown_started c then 1 else 0)
     \<and> (status c = Conn_Cut \<longrightarrow> st_dropped s)
     \<and> (st_phase s = Task_Done \<and> \<not> st_timed_out s \<and> \<not> with_age c \<longrightarrow> status c = Conn_Closed)"

definition task_inv :: "bool \<Rightarrow> u64 \<Rightarrow> u64 option \<Rightarrow> server_task_state \<Rightarrow> bool" where
  "task_inv handle t age s \<longleftrightarrow>
     st_total s = t + of_nat (length (st_conns s)) \<and> list_all (conn_ok age s) (st_conns s)
     \<and> (st_unseen s \<longrightarrow> st_sent s)
     \<and> (st_phase s = Drain_Phase \<or> st_phase s = Task_Done \<longrightarrow> st_sent s)
     \<and> st_handle s = handle \<and> (st_dropped s \<longrightarrow> \<not> st_senders s)
     \<and> (\<not> st_senders s \<longrightarrow> st_sent s \<and> (handle \<longrightarrow> st_phase s = Task_Done))"

lemma task_start_inv: "task_inv handle t age (task_start handle t)"
  by (simp add: task_inv_def task_start_def)

lemma conn_step_inv:
  assumes "task_inv handle t age s" and "conn_step n enabled f s = Some s'"
    and "\<And>c. conn_ok age s c \<Longrightarrow> enabled c \<Longrightarrow> status c = Conn_Open \<Longrightarrow> conn_ok age s (f c)"
  shows "task_inv handle t age s'"
proof -
  from assms(2) have n: "n < length (st_conns s)" "status (st_conns s ! n) = Conn_Open" "enabled (st_conns s ! n)"
      and s': "s' = s\<lparr>st_conns := (st_conns s)[n := f (st_conns s ! n)]\<rparr>"
    by (simp_all add: conn_step_def split: if_splits)
  have "conn_ok age s (f (st_conns s ! n))"
    using assms(1,3) n by (simp add: task_inv_def list_all_length)
  then have "list_all (conn_ok age s) ((st_conns s)[n := f (st_conns s ! n)])"
    using assms(1) by (auto simp: task_inv_def list_all_iff dest: set_update_subset_insert [THEN subsetD])
  moreover have "conn_ok age s' = conn_ok age s"
    by (rule ext) (simp add: s' conn_ok_def)
  ultimately show ?thesis
    using assms(1) by (simp add: s' task_inv_def)
qed

lemma conn_ok_unseen: "conn_ok age s (c\<lparr>unseen := b\<rparr>) = conn_ok age s c"
  by (simp add: conn_ok_def)

lemma broadcast_inv: "task_inv handle t age s \<Longrightarrow> task_inv handle t age (broadcast s)"
  by (auto simp: task_inv_def broadcast_def conn_ok_def list_all_iff)

lemma last_sender_inv: "task_inv handle t age s \<Longrightarrow> task_inv handle t age (last_sender s)"
  by (simp add: last_sender_def broadcast_inv)

lemma ask_to_close_ok:
  "conn_ok age s c \<Longrightarrow> \<not> graceful_shutdown_started c \<Longrightarrow> conn_ok age s (ask_to_close c)"
  by (simp add: conn_ok_def ask_to_close_def)

lemma accept_round_inv:
  assumes "task_inv handle t age s" and "st_phase s = Accept_Phase"
  shows "task_inv handle t age (accept_round listener age accepted s)"
proof (cases rule: accept_round_cases [of accepted listener age s])
  case 1
  with assms show ?thesis
    by (auto simp: task_inv_def conn_ok_def list_all_iff)
next
  case 2
  with assms show ?thesis
    by (auto simp: task_inv_def conn_ok_def new_conn_def list_all_iff)
qed

lemma drain_ends_inv:
  assumes "task_inv handle t age s" and "st_phase s = Drain_Phase" and "\<not> st_dropped s"
    and "timed_out \<or> watched_closed s"
  shows "task_inv handle t age (last_sender (s\<lparr>st_phase := Task_Done, st_timed_out := timed_out\<rparr>))"
proof (rule last_sender_inv)
  have "conn_ok age (s\<lparr>st_phase := Task_Done, st_timed_out := timed_out\<rparr>) c" if "c \<in> set (st_conns s)" for c
  proof -
    have "conn_ok age s c" "\<not> st_dropped s" "timed_out \<or> with_age c \<or> status c \<noteq> Conn_Open"
      using that assms by (auto simp: task_inv_def watched_closed_def list_all_iff)
    then show ?thesis
      by (cases "status c") (simp_all add: conn_ok_def)
  qed
  with assms(1,2) show "task_inv handle t age (s\<lparr>st_phase := Task_Done, st_timed_out := timed_out\<rparr>)"
    by (simp add: task_inv_def list_all_iff)
qed

lemma loop_receives_inv:
  assumes "task_inv handle t age s" and "st_unseen s" and "st_phase s = Accept_Phase \<or> st_phase s = Accept_Disabled"
  shows "task_inv handle t age (s\<lparr>st_phase := Drain_Phase, st_unseen := False\<rparr>)"
  using assms by (auto simp: task_inv_def conn_ok_def list_all_iff)

lemma senders_dropped_inv:
  assumes "task_inv handle t age s" and "st_sent s" and "st_handle s \<longrightarrow> st_phase s = Task_Done"
  shows "task_inv handle t age (last_sender (s\<lparr>st_senders := False\<rparr>))"
  by (rule last_sender_inv) (use assms in \<open>auto simp: task_inv_def conn_ok_def list_all_iff\<close>)

lemma runtime_dropped_inv:
  assumes "task_inv handle t age s" and "\<not> st_senders s"
  shows "task_inv handle t age (s\<lparr>st_conns := map cut_open (st_conns s), st_dropped := True\<rparr>)"
proof -
  have "conn_ok age (s\<lparr>st_conns := map cut_open (st_conns s), st_dropped := True\<rparr>) (cut_open c)" if "conn_ok age s c" for c
    using that assms by (auto simp: conn_ok_def cut_open_def task_inv_def)
  with assms show ?thesis
    by (simp add: task_inv_def list_all_iff)
qed

lemma send_signal_inv:
  "task_inv handle t age s \<Longrightarrow> task_inv handle t age (broadcast (s\<lparr>st_unseen := True, st_sent := True\<rparr>))"
  by (rule broadcast_inv) (simp add: task_inv_def conn_ok_def list_all_iff)

lemma conn_asked_inv:
  assumes "task_inv handle t age s"
    and "conn_step n (\<lambda>c. P c \<and> \<not> graceful_shutdown_started c) ask_to_close s = Some s'"
  shows "task_inv handle t age s'"
  by (rule conn_step_inv [OF assms]) (simp add: ask_to_close_ok)

lemma conn_receives_inv:
  assumes "task_inv handle t age s"
    and "conn_step n (\<lambda>c. P c \<and> Q c \<and> \<not> graceful_shutdown_started c)
      (\<lambda>c. ask_to_close (c\<lparr>unseen := False\<rparr>)) s = Some s'"
  shows "task_inv handle t age s'"
  by (rule conn_step_inv [OF assms]) (simp add: ask_to_close_ok conn_ok_unseen)

lemma conn_ends_inv:
  assumes "task_inv handle t age s"
    and "conn_step n (\<lambda>_. True) (\<lambda>c. c\<lparr>status := Conn_Closed\<rparr>) s = Some s'"
  shows "task_inv handle t age s'"
  by (rule conn_step_inv [OF assms]) (simp add: conn_ok_def)

lemma task_step_inv:
  assumes "task_inv handle t age s" and "task_step listener age a s = Some s'"
  shows "task_inv handle t age s'"
proof (cases a)
  case (Accept_Result accepted)
  with assms show ?thesis
    by (auto intro: accept_round_inv split: if_splits)
next
  case Send_Signal
  with assms show ?thesis
    by (auto intro: send_signal_inv split: if_splits)
next
  case Loop_Receives
  with assms show ?thesis
    by (auto intro: loop_receives_inv split: if_splits)
next
  case (Age_Reached n)
  with assms show ?thesis
    by (simp only: task_step.simps) (rule conn_asked_inv)
next
  case (Conn_Receives n)
  with assms show ?thesis
    by (simp only: task_step.simps) (rule conn_receives_inv)
next
  case (Watch_Signals n)
  with assms show ?thesis
    by (simp only: task_step.simps option.distinct split: if_splits) (rule conn_asked_inv)
next
  case (Conn_Ends n)
  with assms show ?thesis
    by (simp only: task_step.simps) (rule conn_ends_inv)
next
  case (Drain_Ends timed_out)
  with assms show ?thesis
    by (auto intro: drain_ends_inv split: if_splits)
next
  case Senders_Dropped
  with assms show ?thesis
    by (auto intro: senders_dropped_inv split: if_splits)
next
  case Runtime_Dropped
  with assms show ?thesis
    by (auto intro: runtime_dropped_inv split: if_splits)
qed

interpretation task: step_invariant "task_step listener age" "task_inv handle t age"
  by unfold_locales (rule task_step_inv)

section \<open>The end of the accept loop\<close>

text \<open>Once a connection is no longer accepted, it is so for good.\<close>

lemma task_step_deaf:
  assumes "task_step listener age a s = Some s'" and "st_phase s \<noteq> Accept_Phase"
  shows "st_phase s' \<noteq> Accept_Phase \<and> st_total s' = st_total s \<and> length (st_conns s') = length (st_conns s)
    \<and> (a \<noteq> Send_Signal \<and> st_phase s = Accept_Disabled \<and> \<not> st_unseen s \<longrightarrow>
        st_phase s' = Accept_Disabled \<and> \<not> st_unseen s')"
  using assms by (cases a) (auto simp: conn_step_def broadcast_def last_sender_def split: if_splits)

lemma runs_deaf:
  "runs (task_step listener age) acts s = Some s' \<Longrightarrow> st_phase s \<noteq> Accept_Phase \<Longrightarrow>
   st_phase s' \<noteq> Accept_Phase \<and> st_total s' = st_total s \<and> length (st_conns s') = length (st_conns s)
   \<and> (Send_Signal \<notin> set acts \<and> st_phase s = Accept_Disabled \<and> \<not> st_unseen s \<longrightarrow> st_phase s' = Accept_Disabled)"
proof (induction acts arbitrary: s)
  case (Cons a acts)
  then obtain s1 where s1: "task_step listener age a s = Some s1" "runs (task_step listener age) acts s1 = Some s'"
    by (auto split: option.splits)
  have step: "st_phase s1 \<noteq> Accept_Phase" "st_total s1 = st_total s" "length (st_conns s1) = length (st_conns s)"
      "a \<noteq> Send_Signal \<Longrightarrow> st_phase s = Accept_Disabled \<Longrightarrow> \<not> st_unseen s \<Longrightarrow>
        st_phase s1 = Accept_Disabled \<and> \<not> st_unseen s1"
    using task_step_deaf [OF s1(1) Cons.prems(2)] by simp_all
  from Cons.IH [OF s1(2) step(1)] step show ?case
    by auto
qed simp

section \<open>The shutdown comes to its end\<close>

text \<open>
  The steps that take part in a shutdown: the signal is received, connections are asked to
  close and end, and the task ends without its timeout.
\<close>

fun closes :: "'e task_action \<Rightarrow> bool" where
  "closes Loop_Receives = True"
| "closes (Conn_Receives n) = True"
| "closes (Watch_Signals n) = True"
| "closes (Conn_Ends n) = True"
| "closes (Drain_Ends timed_out) = (\<not> timed_out)"
| "closes _ = False"

fun phase_work :: "task_phase \<Rightarrow> nat" where
  "phase_work Accept_Phase = 2"
| "phase_work Accept_Disabled = 2"
| "phase_work Drain_Phase = 1"
| "phase_work Task_Done = 0"

definition conn_work :: "http_conn \<Rightarrow> nat" where
  "conn_work c = (if status c = Conn_Open then if graceful_shutdown_started c then 1 else 2 else 0)"

definition task_work :: "server_task_state \<Rightarrow> nat" where
  "task_work s = phase_work (st_phase s) + sum_list (map conn_work (st_conns s))"

definition shutting_down :: "server_task_state \<Rightarrow> bool" where
  "shutting_down s \<longleftrightarrow> st_sent s \<and> (st_phase s = Accept_Phase \<or> st_phase s = Accept_Disabled \<longrightarrow> st_unseen s)"

lemma shutting_down_step:
  "shutting_down s \<Longrightarrow> task_step listener age a s = Some s' \<Longrightarrow> shutting_down s'"
  by (cases a) (auto simp: shutting_down_def conn_step_def broadcast_def last_sender_def accept_round_flags split: if_splits)

lemma conn_step_work:
  assumes "conn_step n enabled f s = Some s'" and "\<And>c. enabled c \<Longrightarrow> status c = Conn_Open \<Longrightarrow> conn_work (f c) < conn_work c"
  shows "task_work s' < task_work s"
proof -
  from assms(1) have n: "n < length (st_conns s)" "status (st_conns s ! n) = Conn_Open" "enabled (st_conns s ! n)"
      and s': "s' = s\<lparr>st_conns := (st_conns s)[n := f (st_conns s ! n)]\<rparr>"
    by (simp_all add: conn_step_def split: if_splits)
  have "sum_list (map conn_work ((st_conns s)[n := f (st_conns s ! n)])) < sum_list (map conn_work (st_conns s))"
    using assms(2) [OF n(3,2)] n(1) elem_le_sum_list [of n "map conn_work (st_conns s)"]
    by (simp add: map_update sum_list_update)
  then show ?thesis
    by (simp add: s' task_work_def)
qed

lemma ask_to_close_work:
  "\<not> graceful_shutdown_started c \<Longrightarrow> status c = Conn_Open \<Longrightarrow> conn_work (ask_to_close (c\<lparr>unseen := b\<rparr>)) < conn_work c"
  "\<not> graceful_shutdown_started c \<Longrightarrow> status c = Conn_Open \<Longrightarrow> conn_work (ask_to_close c) < conn_work c"
  "status c = Conn_Open \<Longrightarrow> conn_work (c\<lparr>status := Conn_Closed\<rparr>) < conn_work c"
  by (simp_all add: conn_work_def ask_to_close_def)

lemma task_work_last_sender: "task_work (last_sender s) = task_work s"
proof -
  have "conn_work (if with_age c then c\<lparr>unseen := True\<rparr> else c) = conn_work c" for c
    by (simp add: conn_work_def)
  then show ?thesis
    by (simp add: last_sender_def task_work_def broadcast_def comp_def)
qed

lemma task_step_work:
  assumes "closes a" and "task_step listener age a s = Some s'"
  shows "task_work s' < task_work s"
proof (cases a)
  case (Conn_Receives n)
  from assms(2) [unfolded Conn_Receives task_step.simps] show ?thesis
    by (rule conn_step_work) (simp add: ask_to_close_work)
next
  case (Watch_Signals n)
  with assms(2) have "conn_step n (\<lambda>c. \<not> with_age c \<and> \<not> graceful_shutdown_started c) ask_to_close s = Some s'"
    by (simp split: if_splits)
  then show ?thesis
    by (rule conn_step_work) (simp add: ask_to_close_work)
next
  case (Conn_Ends n)
  from assms(2) [unfolded Conn_Ends task_step.simps] show ?thesis
    by (rule conn_step_work) (simp add: ask_to_close_work)
next
  case (Drain_Ends timed_out)
  with assms(2) have "st_phase s = Drain_Phase"
      "task_work s' = task_work (s\<lparr>st_phase := Task_Done, st_timed_out := timed_out\<rparr>)"
    by (simp_all add: task_work_last_sender split: if_splits) (metis task_work_last_sender)
  then show ?thesis
    by (simp add: task_work_def)
qed (use assms in \<open>auto simp: task_work_def split: if_splits\<close>)

lemma task_goes_on:
  assumes "shutting_down s" and "\<not> (st_phase s = Task_Done \<or> st_dropped s)"
  shows "\<exists>a s'. closes a \<and> task_step listener age a s = Some s'"
proof (cases "st_phase s = Drain_Phase")
  case False
  with assms have "closes Loop_Receives \<and> task_step listener age Loop_Receives s
      = Some (s\<lparr>st_phase := Drain_Phase, st_unseen := False\<rparr>)"
    by (cases "st_phase s") (simp_all add: shutting_down_def)
  then show ?thesis by blast
next
  case True
  show ?thesis
  proof (cases "watched_closed s")
    case True
    with \<open>st_phase s = Drain_Phase\<close> have "closes (Drain_Ends False) \<and> task_step listener age (Drain_Ends False) s
        = Some (last_sender (s\<lparr>st_phase := Task_Done, st_timed_out := False\<rparr>))"
      using assms(2) by simp
    then show ?thesis by blast
  next
    case False
    then obtain n where "n < length (st_conns s)" "status (st_conns s ! n) = Conn_Open"
      by (auto simp: watched_closed_def list_all_length)
    then have "closes (Conn_Ends n) \<and> (\<exists>s'. task_step listener age (Conn_Ends n) s = Some s')"
      by (simp add: conn_step_def)
    then show ?thesis by blast
  qed
qed

interpretation shutdown: draining "task_step listener age" shutting_down closes task_work
    "\<lambda>s. st_phase s = Task_Done \<or> st_dropped s"
  by unfold_locales (rule shutting_down_step task_step_work task_goes_on; assumption)+

text \<open>
  After the signal the task comes to its end: the steps of the shutdown are bounded in number, and
  when none is possible the task is done or was dropped, whether accepting had failed or not.
\<close>

lemma shutdown_ends:
  fixes acts :: "'e task_action list"
  assumes "shutting_down s" and "list_all closes acts" and "runs (task_step listener age) acts s = Some s'"
  shows "length acts \<le> task_work s"
    and "(\<And>a :: 'e task_action. closes a \<Longrightarrow> task_step listener age a s' = None) \<Longrightarrow>
      st_phase s' = Task_Done \<or> st_dropped s'"
proof -
  show "length acts \<le> task_work s"
    using shutdown.runs_bounded [OF assms] by simp
qed (rule shutdown.stuck_at_rest [OF assms(1,3)])

section \<open>Connections that are cut off\<close>

lemma cut_off:
  assumes "runs (task_step listener age) acts (task_start handle t) = Some s"
    and "c \<in> set (st_conns s)" and "status c = Conn_Cut"
  shows "st_sent s \<and> st_dropped s
    \<and> (st_phase s = Task_Done \<and> (age \<noteq> None \<or> st_timed_out s) \<or> \<not> handle \<and> st_phase s \<noteq> Task_Done)"
  using task.runs_keep [OF task_start_inv assms(1)] assms(2,3) by (auto simp: task_inv_def conn_ok_def list_all_iff)

text \<open>
  Without a handle it does happen: a connection that nobody has asked to close is cut off by a
  \<open>stop\<close> that does not wait, while the accept loop has not seen the signal.
\<close>

lemma stop_without_handle:
  "\<exists>s c. runs (task_step listener age)
      [Accept_Result (Inr address :: 'e + SocketAddr), Send_Signal, Senders_Dropped, Runtime_Dropped] (task_start False t) = Some s
    \<and> c \<in> set (st_conns s) \<and> status c = Conn_Cut \<and> goaways c = 0 \<and> st_phase s = Accept_Phase"
proof (cases rule: accept_round_cases [of "Inr address :: 'e + SocketAddr" listener age "task_start False t"])
  case 2
  then show ?thesis
    by (simp add: task_start_def new_conn_def broadcast_def last_sender_def cut_open_def)
qed simp

section \<open>Properties of the server task\<close>

text \<open>
  C17. How \<open>stop\<close> closes connections, in every interleaving of the accept loop, the connections
  and \<open>stop\<close>: the gauge counts the connections accepted; a connection is asked to shut down at most
  once, by its age or by the server; and an open connection is cut off only after the server has
  been told to stop and its runtime is dropped. Where \<open>start\<close> stored the handle of the task, the task
  has ended then, and connections are cut only if they have a maximum age or the wait for them timed out. Without
  the handle, after a start whose syslog listeners failed, they may be cut while the task still waits for them.
\<close>

theorem connections_close_gracefully:
  assumes "runs (task_step listener age) acts (task_start handle t) = Some s"
  shows "st_total s = t + of_nat (length (st_conns s))
    \<and> (\<forall>c \<in> set (st_conns s). goaways c = (if graceful_shutdown_started c then 1 else 0)
        \<and> (status c = Conn_Cut \<longrightarrow> st_sent s \<and> st_dropped s
            \<and> (st_phase s = Task_Done \<and> (age \<noteq> None \<or> st_timed_out s) \<or> \<not> handle \<and> st_phase s \<noteq> Task_Done)))"
proof -
  have "task_inv handle t age s"
    using task.runs_keep [OF task_start_inv assms] .
  with cut_off [OF assms] show ?thesis
    by (auto simp: task_inv_def conn_ok_def list_all_iff)
qed

definition sample_task :: "string task_action list" where
  "sample_task = [Accept_Result (Inr (SocketAddrV4 [192, 0, 2, 7] 40000)), Age_Reached 0, Send_Signal, Loop_Receives,
     Drain_Ends False, Senders_Dropped, Runtime_Dropped]"

theorem connections_close_gracefully_witness:
  "\<exists>s. runs (task_step Listener_Tcp (Some 60000)) sample_task (task_start True 0) = Some s
    \<and> st_total s = 1 \<and> map goaways (st_conns s) = [1] \<and> map status (st_conns s) = [Conn_Cut] \<and> st_phase s = Task_Done"
proof -
  have "\<exists>c s. runs (task_step Listener_Tcp (Some 60000)) sample_task (task_start True 0) = Some s
      \<and> st_conns s = [c] \<and> graceful_shutdown_started c \<and> status c = Conn_Cut"
    by (simp add: sample_task_def task_start_def accept_round_def new_conn_def conn_step_def ask_to_close_def
        broadcast_def last_sender_def watched_closed_def cut_open_def)
  then obtain c s where s: "runs (task_step Listener_Tcp (Some 60000)) sample_task (task_start True 0) = Some s"
      "st_conns s = [c]" "graceful_shutdown_started c" "status c = Conn_Cut"
    by blast
  have "st_total s = 1" "goaways c = 1" "st_phase s = Task_Done"
    using connections_close_gracefully [OF s(1)] s(2-4) by simp_all
  with s show ?thesis by simp
qed

text \<open>
  C34. A failed accept is the end of accepting: the branch of the \<open>select!\<close> that takes connections
  is disabled and never polled again, so no connection is accepted any more, and without the
  shutdown signal the loop waits for ever.
\<close>

theorem failed_accept_deafens:
  fixes acts :: "'e task_action list" and e :: 'e
  assumes "task_step listener age (Accept_Result (Inl e)) s = Some s1"
    and "runs (task_step listener age) acts s1 = Some s2"
  shows "st_total s2 = st_total s \<and> length (st_conns s2) = length (st_conns s)
    \<and> (Send_Signal \<notin> set acts \<and> \<not> st_unseen s \<longrightarrow> st_phase s2 = Accept_Disabled)"
proof -
  have "s1 = s\<lparr>st_phase := Accept_Disabled\<rparr>"
    using assms(1) accept_round_cases [of "Inl e" listener age s] by (auto split: if_splits)
  with runs_deaf [OF assms(2)] show ?thesis
    by auto
qed

theorem failed_accept_deafens_witness:
  "\<exists>s. runs (task_step Listener_Unix None) [Accept_Result (Inl ''Too many open files'')] (task_start True 7) = Some s
    \<and> (\<forall>(acts :: string task_action list) s'. runs (task_step Listener_Unix None) acts s = Some s' \<longrightarrow> st_total s' = 7)"
proof -
  let ?s = "(task_start True 7)\<lparr>st_phase := Accept_Disabled\<rparr>"
  have "task_step Listener_Unix None (Accept_Result (Inl ''Too many open files'')) (task_start True 7) = Some ?s"
    by (simp add: task_start_def accept_round_def)
  with failed_accept_deafens [OF this] show ?thesis
    by (intro exI [of _ ?s]) (simp add: task_start_def)
qed

end
