(* ===== verification/Framing.thy ===== *)
theory Framing
  imports Rust_Std "HOL-Library.Monad_Syntax"
begin

text \<open>
  The frame decoder of \<open>syslog/framing.rs\<close>: RFC 6587 octet counting with a newline
  fallback.

  The newline fallback is \<open>tokio_util\<close>'s \<open>LinesCodec\<close>, which is not part of the
  repository. It is the parameter \<open>L\<close> of the definitions: a record of the operations the
  framer calls. What the framer relies on is stated as named hypotheses on that record.

  A decoder call takes the framer and the buffer and returns its result with both
  updated. \<open>None\<close> is a panic. The flag \<open>chk\<close> says whether the crate is built with
  overflow checks (a dev build) or without (a release build).
\<close>

section \<open>The data\<close>

datatype RejectReason = Oversize | InvalidUtf8 | InvalidLength

fun RejectReason_as_str :: "RejectReason \<Rightarrow> string" where
  "RejectReason_as_str Oversize = ''oversize''"
| "RejectReason_as_str InvalidUtf8 = ''invalid_utf8''"
| "RejectReason_as_str InvalidLength = ''invalid_length''"

record FrameError =
  reason :: RejectReason
  fatal :: bool

definition FrameError_fatal :: "RejectReason \<Rightarrow> FrameError" where
  "FrameError_fatal r = \<lparr>reason = r, fatal = True\<rparr>"

definition FrameError_recoverable :: "RejectReason \<Rightarrow> FrameError" where
  "FrameError_recoverable r = \<lparr>reason = r, fatal = False\<rparr>"

datatype State = NotDiscarding | Discarding nat | DiscardingToEol

record 'lc Framer =
  other :: 'lc
  octet_decoding :: "State option"

text \<open>The line codec, as the framer sees it.\<close>

datatype LinesCodecError = MaxLineLengthExceeded | Io

record 'lc lines_codec =
  lc_new :: "nat \<Rightarrow> 'lc"
  lc_max_length :: "'lc \<Rightarrow> nat"
  lc_decode :: "'lc \<Rightarrow> bytes \<Rightarrow> (LinesCodecError + bytes option) \<times> 'lc \<times> bytes"
  lc_decode_eof :: "'lc \<Rightarrow> bytes \<Rightarrow> (LinesCodecError + bytes option) \<times> 'lc \<times> bytes"
  lc_discarding :: "'lc \<Rightarrow> bool"
  lc_waiting :: "'lc \<Rightarrow> bytes \<Rightarrow> bool"

type_synonym 'lc decoded = "(FrameError + bytes option) \<times> 'lc Framer \<times> bytes"

section \<open>The decoder\<close>

definition Framer_new :: "'lc lines_codec \<Rightarrow> nat \<Rightarrow> 'lc Framer" where
  "Framer_new L max_length = \<lparr>other = lc_new L max_length, octet_decoding = None\<rparr>"

fun line_error :: "LinesCodecError \<Rightarrow> FrameError" where
  "line_error MaxLineLengthExceeded = FrameError_recoverable Oversize"
| "line_error Io = FrameError_fatal InvalidUtf8"

text \<open>A length prefix ending at \<open>space_pos\<close>, inside the maximum length.\<close>

definition octet_decode_length ::
  "bool \<Rightarrow> 'lc lines_codec \<Rightarrow> 'lc Framer \<Rightarrow> nat \<Rightarrow> bytes \<Rightarrow> 'lc decoded option" where
  "octet_decode_length chk L self space_pos src =
     (case (if valid_utf8 (take space_pos src) then parse_uint usize_max (take space_pos src)
            else None) of
        None \<Rightarrow> do {
          src' \<leftarrow> advance (space_pos + 1) src;
          Some (Inl (FrameError_fatal InvalidLength), self\<lparr>octet_decoding := None\<rparr>, src')
        }
      | Some len \<Rightarrow>
          (let from = space_pos + 1; to = usize_add from len in
           if chk \<and> from + len > usize_max then None
           else if len > lc_max_length L (other self) then do {
             src' \<leftarrow> advance (space_pos + 1) src;
             Some (Inr None, self\<lparr>octet_decoding := Some (Discarding len)\<rparr>, src')
           }
           else (case get_range from to src of
               Some msg \<Rightarrow>
                 if valid_utf8 msg then do {
                   src' \<leftarrow> advance to src;
                   Some (Inr (Some msg), self\<lparr>octet_decoding := None\<rparr>, src')
                 }
                 else do {
                   src' \<leftarrow> advance to src;
                   Some (Inl (FrameError_fatal InvalidUtf8), self\<lparr>octet_decoding := None\<rparr>, src')
                 }
             | None \<Rightarrow> Some (Inr None, self, src))))"

text \<open>No length prefix inside the maximum length.\<close>

definition octet_decode_no_length ::
  "'lc lines_codec \<Rightarrow> 'lc Framer \<Rightarrow> bytes \<Rightarrow> 'lc decoded option" where
  "octet_decode_no_length L self src =
     (case position (\<lambda>b. b = 10) src of
        Some newline_pos \<Rightarrow> do {
          src' \<leftarrow> advance (newline_pos + 1) src;
          Some (Inl (FrameError_fatal Oversize), self, src')
        }
      | None \<Rightarrow>
          if length src < lc_max_length L (other self) then Some (Inr None, self, src)
          else do {
            src' \<leftarrow> advance (length src) src;
            Some (Inr None, self\<lparr>octet_decoding := Some DiscardingToEol\<rparr>, src')
          })"

definition octet_decode ::
  "bool \<Rightarrow> 'lc lines_codec \<Rightarrow> 'lc Framer \<Rightarrow> State \<Rightarrow> bytes \<Rightarrow> 'lc decoded option" where
  "octet_decode chk L self state src =
     (let space_pos = position (\<lambda>b. b = 32) src; newline_pos = position (\<lambda>b. b = 10) src in
      case state of
        Discarding chars \<Rightarrow>
          if length src \<ge> chars then do {
            src' \<leftarrow> advance chars src;
            Some (Inl (FrameError_fatal Oversize), self\<lparr>octet_decoding := None\<rparr>, src')
          }
          else do {
            src' \<leftarrow> advance (length src) src;
            Some (Inr None, self\<lparr>octet_decoding := Some (Discarding (chars - length src))\<rparr>, src')
          }
      | DiscardingToEol \<Rightarrow>
          (case newline_pos of
             Some offset \<Rightarrow> do {
               src' \<leftarrow> advance (offset + 1) src;
               Some (Inl (FrameError_fatal Oversize), self\<lparr>octet_decoding := None\<rparr>, src')
             }
           | None \<Rightarrow> do {
               src' \<leftarrow> advance (length src) src;
               Some (Inr None, self, src')
             })
      | NotDiscarding \<Rightarrow>
          (case space_pos of
             Some sp \<Rightarrow> if sp < lc_max_length L (other self)
                        then octet_decode_length chk L self sp src
                        else octet_decode_no_length L self src
           | None \<Rightarrow> octet_decode_no_length L self src))"

text \<open>
  \<open>None\<close> in the inner option: the buffer is not octet counting encoded. The framer comes
  back in every case, since entering the octet mode writes its state.
\<close>

definition starts_octet :: "bytes \<Rightarrow> bool" where
  "starts_octet src = (case src of [] \<Rightarrow> False | first_byte # _ \<Rightarrow> 49 \<le> first_byte \<and> first_byte \<le> 57)"

definition checked_decode ::
  "bool \<Rightarrow> 'lc lines_codec \<Rightarrow> 'lc Framer \<Rightarrow> bytes \<Rightarrow> 'lc Framer \<times> 'lc decoded option option" where
  "checked_decode chk L self src =
     (let self = (if octet_decoding self = None \<and> starts_octet src
                  then self\<lparr>octet_decoding := Some NotDiscarding\<rparr> else self)
      in (self, map_option (\<lambda>state. octet_decode chk L self state src) (octet_decoding self)))"

definition line_result ::
  "'lc Framer \<Rightarrow> (LinesCodecError + bytes option) \<times> 'lc \<times> bytes \<Rightarrow> 'lc decoded" where
  "line_result self res =
     (case res of (r, codec, src) \<Rightarrow>
        (case r of Inl e \<Rightarrow> Inl (line_error e) | Inr line \<Rightarrow> Inr line, self\<lparr>other := codec\<rparr>, src))"

definition decode :: "bool \<Rightarrow> 'lc lines_codec \<Rightarrow> 'lc Framer \<Rightarrow> bytes \<Rightarrow> 'lc decoded option" where
  "decode chk L self src =
     (case checked_decode chk L self src of
        (self, Some result) \<Rightarrow> result
      | (self, None) \<Rightarrow> Some (line_result self (lc_decode L (other self) src)))"

definition decode_eof :: "bool \<Rightarrow> 'lc lines_codec \<Rightarrow> 'lc Framer \<Rightarrow> bytes \<Rightarrow> 'lc decoded option" where
  "decode_eof chk L self src =
     (case checked_decode chk L self src of
        (self, Some result) \<Rightarrow> result
      | (self, None) \<Rightarrow> Some (line_result self (lc_decode_eof L (other self) src)))"

text \<open>
  The loop that empties the buffer, with fuel: frames and recoverable errors are
  collected until the buffer holds no complete frame or a fatal error ends the stream.
\<close>

fun decode_all ::
  "nat \<Rightarrow> bool \<Rightarrow> 'lc lines_codec \<Rightarrow> 'lc Framer \<Rightarrow> bytes
    \<Rightarrow> ((FrameError + bytes) list \<times> 'lc Framer \<times> bytes) option" where
  "decode_all 0 chk L framer buffer = None"
| "decode_all (Suc fuel) chk L framer buffer =
     (case decode chk L framer buffer of
        None \<Rightarrow> None
      | Some (Inr (Some frame), framer', buffer') \<Rightarrow>
          map_option (\<lambda>(out, r). (Inr frame # out, r)) (decode_all fuel chk L framer' buffer')
      | Some (Inr None, framer', buffer') \<Rightarrow> Some ([], framer', buffer')
      | Some (Inl error, framer', buffer') \<Rightarrow>
          if fatal error then Some ([Inl error], framer', buffer')
          else map_option (\<lambda>(out, r). (Inl error # out, r))
                 (decode_all fuel chk L framer' buffer'))"

section \<open>What the octet decoder guarantees on its own\<close>

lemmas octet_defs = octet_decode_def octet_decode_length_def octet_decode_no_length_def

lemma FrameError_sels [simp]:
  "fatal (FrameError_fatal r)" "reason (FrameError_fatal r) = r"
  "\<not> fatal (FrameError_recoverable r)" "reason (FrameError_recoverable r) = r"
  by (simp_all add: FrameError_fatal_def FrameError_recoverable_def)

lemma position_lt: "position p xs = Some i \<Longrightarrow> Suc i \<le> length xs"
  by (auto dest: position_SomeD)

lemma get_range_SomeD: "get_range i j xs = Some ys \<Longrightarrow> i \<le> j \<and> j \<le> length xs"
  by (auto simp: get_range_def split: if_splits)

lemma octet_decode_length_total [no_panic]:
  "space_pos < length src \<Longrightarrow> octet_decode_length False L self space_pos src \<noteq> None"
  by (auto simp: octet_decode_length_def Let_def byte_simps dest: get_range_SomeD
      split: option.splits)

lemma octet_decode_no_length_total [no_panic]: "octet_decode_no_length L self src \<noteq> None"
  by (auto simp: octet_decode_no_length_def byte_simps dest: position_lt split: option.splits)

lemma octet_decode_total [no_panic]: "octet_decode False L self state src \<noteq> None"
  by (cases state)
    (auto simp: octet_decode_def byte_simps octet_decode_no_length_total [simplified]
      octet_decode_length_total [simplified] dest: position_lt position_SomeD(1)
      split: option.splits)

lemma decoded_cases:
  fixes res :: "'lc decoded"
  obtains e f b where "res = (Inl e, f, b)" | f b where "res = (Inr None, f, b)"
  | m f b where "res = (Inr (Some m), f, b)"
  by (cases res) (metis option.exhaust sum.exhaust)

text \<open>What a call of the octet decoder may return, and what it keeps.\<close>

definition octet_post ::
  "'lc lines_codec \<Rightarrow> 'lc Framer \<Rightarrow> bytes \<Rightarrow> 'lc decoded \<Rightarrow> bool" where
  "octet_post L self src res =
     (case res of (r, self', src') \<Rightarrow>
        other self' = other self \<and> suffix src' src \<and>
        (case r of
           Inl e \<Rightarrow> fatal e
         | Inr None \<Rightarrow> octet_decoding self' \<noteq> None
         | Inr (Some m) \<Rightarrow> octet_decoding self' = None \<and> valid_utf8 m
             \<and> length m \<le> lc_max_length L (other self) \<and> length src' < length src))"

lemma usize_add_diff_le: "usize_add a b - a \<le> b"
proof -
  have "(a + b) mod 2 ^ 64 \<le> a + b"
    by (rule mod_less_eq_dividend)
  then show ?thesis
    by (simp add: usize_add_def)
qed

lemma octet_decode_length_post:
  assumes "octet_decode_length chk L self sp src = Some res" and "octet_decoding self \<noteq> None"
  shows "octet_post L self src res"
proof -
  have len: "length m \<le> k"
    if "get_range (Suc sp) (usize_add (Suc sp) n) src = Some m" and "n \<le> k" for m n k
    using get_range_length [OF that(1)] usize_add_diff_le [of "Suc sp" n] that(2) by simp
  have shrinks: "length src - usize_add (Suc sp) n < length src"
    if "get_range (Suc sp) (usize_add (Suc sp) n) src = Some m" for m n
    using get_range_SomeD [OF that] by arith
  show ?thesis
    using assms
    by (auto simp: octet_post_def octet_decode_length_def Let_def advance_def suffix_drop
        not_less intro: len shrinks split: option.splits if_splits bind_splits)
qed

lemma octet_decode_no_length_post:
  "octet_decode_no_length L self src = Some res \<Longrightarrow> octet_decoding self \<noteq> None \<Longrightarrow>
   octet_post L self src res"
  by (auto simp: octet_post_def octet_decode_no_length_def advance_def suffix_drop
      split: option.splits if_splits bind_splits)

lemma octet_decode_post:
  assumes "octet_decode chk L self state src = Some res" and "octet_decoding self \<noteq> None"
  shows "octet_post L self src res"
proof (cases state)
  case NotDiscarding
  with assms show ?thesis
    by (auto simp: octet_decode_def split: option.splits if_splits
        intro: octet_decode_length_post octet_decode_no_length_post)
next
  case (Discarding n)
  with assms show ?thesis
    by (auto simp: octet_decode_def octet_post_def advance_def suffix_drop
        split: if_splits bind_splits)
next
  case DiscardingToEol
  with assms show ?thesis
    by (auto simp: octet_decode_def octet_post_def advance_def suffix_drop
        split: option.splits if_splits bind_splits)
qed

section \<open>The line codec, as the framer relies on it\<close>

text \<open>
  The documented behaviour of \<open>LinesCodec\<close>: a codec keeps the maximum length it was made
  with; a decoded line is a \<open>String\<close> (so valid UTF-8) within that length and takes at
  least its terminator or its own bytes off the buffer; the buffer only loses bytes at
  its front; an overlong line is reported once and then skipped, so that a codec already
  skipping one has moved past it before it reports another; an input that is not UTF-8 is
  taken off the buffer before it is reported; an empty buffer holds no line.
\<close>

definition line_step_ok ::
  "'lc lines_codec \<Rightarrow> 'lc \<Rightarrow> bytes \<Rightarrow> (LinesCodecError + bytes option) \<times> 'lc \<times> bytes \<Rightarrow> bool" where
  "line_step_ok L codec src res =
     (case res of (r, codec', src') \<Rightarrow>
        lc_max_length L codec' = lc_max_length L codec \<and> suffix src' src \<and>
        (case r of
           Inr None \<Rightarrow> True
         | Inr (Some line) \<Rightarrow> valid_utf8 line \<and> length line \<le> lc_max_length L codec
             \<and> length src' < length src
         | Inl MaxLineLengthExceeded \<Rightarrow> lc_discarding L codec'
             \<and> (lc_discarding L codec \<longrightarrow> length src' < length src)
         | Inl Io \<Rightarrow> length src' < length src))"

definition lines_codec_ok :: "'lc lines_codec \<Rightarrow> bool" where
  "lines_codec_ok L \<longleftrightarrow>
     (\<forall>m. lc_max_length L (lc_new L m) = m) \<and>
     (\<forall>codec src. line_step_ok L codec src (lc_decode L codec src)) \<and>
     (\<forall>codec src. line_step_ok L codec src (lc_decode_eof L codec src)) \<and>
     (\<forall>codec. \<exists>codec'. lc_decode L codec [] = (Inr None, codec', []))"

lemma lines_codec_okD:
  assumes "lines_codec_ok L"
  shows "lc_max_length L (lc_new L m) = m"
    and "line_step_ok L codec src (lc_decode L codec src)"
    and "line_step_ok L codec src (lc_decode_eof L codec src)"
    and "\<exists>codec'. lc_decode L codec [] = (Inr None, codec', [])"
  using assms by (auto simp: lines_codec_ok_def)

text \<open>
  How the codec splits a stream into lines. \<open>lc_waiting L codec src\<close> says that the codec has
  seen at most a beginning of \<open>src\<close>, without a newline in it, and is not skipping an overlong
  line: so it is for a new codec, and it stays so when more bytes arrive. Such a codec
  returns the line before the first newline without the carriage return at its end, and
  waits for a new line; with no newline in the buffer it keeps the buffer and waits on. At
  the end of the input what is left is a line too, unless it is empty or a carriage return.
\<close>

definition strip_cr :: "bytes \<Rightarrow> bytes" where
  "strip_cr line = (if line \<noteq> [] \<and> last line = 13 then butlast line else line)"

definition lines_codec_splits :: "'lc lines_codec \<Rightarrow> bool" where
  "lines_codec_splits L \<longleftrightarrow>
     (\<forall>m. lc_waiting L (lc_new L m) []) \<and>
     (\<forall>codec src ext. lc_waiting L codec src \<longrightarrow> lc_waiting L codec (src @ ext)) \<and>
     (\<forall>codec line rest. lc_waiting L codec (line @ 10 # rest) \<longrightarrow> 10 \<notin> set line \<longrightarrow>
        length line \<le> lc_max_length L codec \<longrightarrow> valid_utf8 (strip_cr line) \<longrightarrow>
        (\<exists>codec'. lc_decode L codec (line @ 10 # rest) = (Inr (Some (strip_cr line)), codec', rest)
           \<and> lc_waiting L codec' [])) \<and>
     (\<forall>codec src. lc_waiting L codec src \<longrightarrow> 10 \<notin> set src \<longrightarrow> length src \<le> lc_max_length L codec \<longrightarrow>
        (\<exists>codec'. lc_decode L codec src = (Inr None, codec', src) \<and> lc_waiting L codec' src)) \<and>
     (\<forall>codec src. lc_waiting L codec src \<longrightarrow> 10 \<notin> set src \<longrightarrow> length src \<le> lc_max_length L codec \<longrightarrow>
        valid_utf8 (strip_cr src) \<longrightarrow>
        (\<exists>codec'. lc_decode_eof L codec src =
             (if src = [] \<or> src = [13] then (Inr None, codec', src)
              else (Inr (Some (strip_cr src)), codec', []))
           \<and> lc_waiting L codec' []))"

lemma lines_codec_splitsD:
  assumes "lines_codec_splits L"
  shows "lc_waiting L (lc_new L m) []"
    and "lc_waiting L codec src \<Longrightarrow> lc_waiting L codec (src @ ext)"
    and "lc_waiting L codec (line @ 10 # rest) \<Longrightarrow> 10 \<notin> set line \<Longrightarrow>
      length line \<le> lc_max_length L codec \<Longrightarrow> valid_utf8 (strip_cr line) \<Longrightarrow>
      \<exists>codec'. lc_decode L codec (line @ 10 # rest) = (Inr (Some (strip_cr line)), codec', rest)
        \<and> lc_waiting L codec' []"
    and "lc_waiting L codec src \<Longrightarrow> 10 \<notin> set src \<Longrightarrow> length src \<le> lc_max_length L codec \<Longrightarrow>
      \<exists>codec'. lc_decode L codec src = (Inr None, codec', src) \<and> lc_waiting L codec' src"
    and "lc_waiting L codec src \<Longrightarrow> 10 \<notin> set src \<Longrightarrow> length src \<le> lc_max_length L codec \<Longrightarrow>
      valid_utf8 (strip_cr src) \<Longrightarrow>
      \<exists>codec'. lc_decode_eof L codec src =
           (if src = [] \<or> src = [13] then (Inr None, codec', src)
            else (Inr (Some (strip_cr src)), codec', []))
         \<and> lc_waiting L codec' []"
  using assms unfolding lines_codec_splits_def by simp_all

text \<open>The same contract for a call of the framer, whichever decoder answers.\<close>

definition frame_post ::
  "'lc lines_codec \<Rightarrow> 'lc Framer \<Rightarrow> bytes \<Rightarrow> 'lc decoded \<Rightarrow> bool" where
  "frame_post L self src res =
     (case res of (r, self', src') \<Rightarrow>
        lc_max_length L (other self') = lc_max_length L (other self) \<and> suffix src' src \<and>
        (case r of
           Inl e \<Rightarrow> fatal e \<or> (octet_decoding self = None \<and> \<not> starts_octet src
               \<and> octet_decoding self' = None \<and> reason e = Oversize
               \<and> lc_discarding L (other self')
               \<and> (lc_discarding L (other self) \<longrightarrow> length src' < length src))
         | Inr None \<Rightarrow> True
         | Inr (Some m) \<Rightarrow> octet_decoding self' = None \<and> valid_utf8 m
             \<and> length m \<le> lc_max_length L (other self) \<and> length src' < length src))"

lemma octet_post_frame_post: "octet_post L self src res \<Longrightarrow> frame_post L self src res"
  by (cases res rule: decoded_cases) (simp_all add: octet_post_def frame_post_def)

lemma line_result_post:
  assumes "line_step_ok L (other self) src res" and "octet_decoding self = None"
    and "\<not> starts_octet src"
  shows "frame_post L self src (line_result self res)"
proof -
  obtain r codec src' where res: "res = (r, codec, src')"
    by (cases res)
  show ?thesis
  proof (cases r)
    case (Inl e)
    then show ?thesis
      using assms by (cases e) (simp_all add: res line_step_ok_def frame_post_def line_result_def)
  next
    case (Inr line)
    then show ?thesis
      using assms by (cases line) (simp_all add: res line_step_ok_def frame_post_def line_result_def)
  qed
qed

text \<open>Which decoder answers.\<close>

lemma decode_octet_active:
  assumes "octet_decoding self = Some st"
  shows "decode chk L self src = octet_decode chk L self st src"
    and "decode_eof chk L self src = octet_decode chk L self st src"
  using assms by (simp_all add: decode_def decode_eof_def checked_decode_def)

lemma decode_octet_start:
  assumes "octet_decoding self = None" and "starts_octet src"
  shows "decode chk L self src =
      octet_decode chk L (self\<lparr>octet_decoding := Some NotDiscarding\<rparr>) NotDiscarding src"
    and "decode_eof chk L self src =
      octet_decode chk L (self\<lparr>octet_decoding := Some NotDiscarding\<rparr>) NotDiscarding src"
  using assms by (simp_all add: decode_def decode_eof_def checked_decode_def Let_def)

lemma decode_line:
  assumes "octet_decoding self = None" and "\<not> starts_octet src"
  shows "decode chk L self src = Some (line_result self (lc_decode L (other self) src))"
    and "decode_eof chk L self src = Some (line_result self (lc_decode_eof L (other self) src))"
  using assms by (simp_all add: decode_def decode_eof_def checked_decode_def)

lemma decode_path_cases:
  obtains st where "octet_decoding self = Some st"
  | "octet_decoding self = None" "starts_octet src"
  | "octet_decoding self = None" "\<not> starts_octet src"
  by (cases "octet_decoding self") auto

lemma frame_post_octet_mode:
  "frame_post L (self\<lparr>octet_decoding := Some st\<rparr>) src res \<Longrightarrow> frame_post L self src res"
  by (cases res rule: decoded_cases) (simp_all add: frame_post_def)

lemma decode_post:
  assumes "lines_codec_ok L" and "decode chk L self src = Some res"
  shows "frame_post L self src res"
proof (cases rule: decode_path_cases [where self = self and src = src])
  case (1 st)
  with assms(2) have "octet_post L self src res"
    by (simp add: decode_octet_active octet_decode_post)
  then show ?thesis by (rule octet_post_frame_post)
next
  case 2
  with assms(2) have "octet_post L (self\<lparr>octet_decoding := Some NotDiscarding\<rparr>) src res"
    by (auto simp: decode_octet_start intro: octet_decode_post)
  then show ?thesis
    by (blast intro: frame_post_octet_mode octet_post_frame_post)
next
  case 3
  with assms(2) have res: "res = line_result self (lc_decode L (other self) src)"
    by (simp add: decode_line)
  show ?thesis
    unfolding res using lines_codec_okD(2) [OF assms(1)] 3 by (rule line_result_post)
qed

lemma decode_eof_post:
  assumes "lines_codec_ok L" and "decode_eof chk L self src = Some res"
  shows "frame_post L self src res"
proof (cases rule: decode_path_cases [where self = self and src = src])
  case (1 st)
  with assms show ?thesis
    by (intro decode_post) (simp_all add: decode_octet_active)
next
  case 2
  with assms show ?thesis
    by (intro decode_post) (simp_all add: decode_octet_start)
next
  case 3
  with assms(2) have res: "res = line_result self (lc_decode_eof L (other self) src)"
    by (simp add: decode_line)
  show ?thesis
    unfolding res using lines_codec_okD(3) [OF assms(1)] 3 by (rule line_result_post)
qed

lemma decode_total [no_panic]: "decode False L self src \<noteq> None"
  by (cases rule: decode_path_cases [where self = self and src = src])
    (simp_all add: decode_octet_active decode_octet_start decode_line
      octet_decode_total [simplified])

lemma decode_eof_total [no_panic]: "decode_eof False L self src \<noteq> None"
  by (cases rule: decode_path_cases [where self = self and src = src])
    (simp_all add: decode_octet_active decode_octet_start decode_line
      octet_decode_total [simplified])

end
