(* ===== verification/Counters.thy ===== *)
theory Counters
  imports Framing
begin

text \<open>
  The transport counters of \<open>syslog.rs\<close>. Every counter is an \<open>AtomicU64\<close>: \<open>fetch_add\<close>
  wraps at its width, so the fields are 64-bit words. One operation is one atomic step;
  the components that share the counters interleave these steps.
\<close>

record SyslogCounters =
  messages_delivered :: u64
  deliveries_refused :: u64
  handler_errors :: u64
  rejected_oversize :: u64
  rejected_invalid_utf8 :: u64
  rejected_invalid_length :: u64
  udp_truncated :: u64
  udp_dropped :: u64
  connections_opened :: u64
  connections_closed :: u64
  connections_refused :: u64
  proxy_header_errors :: u64
  proxy_read_errors :: u64
  abandoned_at_shutdown :: u64
  pending :: u64

definition SyslogCounters_default :: SyslogCounters where
  "SyslogCounters_default =
     \<lparr>messages_delivered = 0, deliveries_refused = 0, handler_errors = 0, rejected_oversize = 0,
      rejected_invalid_utf8 = 0, rejected_invalid_length = 0, udp_truncated = 0, udp_dropped = 0,
      connections_opened = 0, connections_closed = 0, connections_refused = 0,
      proxy_header_errors = 0, proxy_read_errors = 0, abandoned_at_shutdown = 0, pending = 0\<rparr>"

fun record_rejection :: "SyslogCounters \<Rightarrow> RejectReason \<Rightarrow> SyslogCounters" where
  "record_rejection c Oversize = c\<lparr>rejected_oversize := rejected_oversize c + 1\<rparr>"
| "record_rejection c InvalidUtf8 = c\<lparr>rejected_invalid_utf8 := rejected_invalid_utf8 c + 1\<rparr>"
| "record_rejection c InvalidLength = c\<lparr>rejected_invalid_length := rejected_invalid_length c + 1\<rparr>"

definition saturating_sub :: "'a::len word \<Rightarrow> 'a word \<Rightarrow> 'a word" where
  "saturating_sub a b = (if a < b then 0 else a - b)"

definition release_pending :: "SyslogCounters \<Rightarrow> SyslogCounters" where
  "release_pending c = c\<lparr>pending := saturating_sub (pending c) 1\<rparr>"

definition abandon_pending :: "SyslogCounters \<Rightarrow> SyslogCounters" where
  "abandon_pending c =
     release_pending (c\<lparr>abandoned_at_shutdown := abandoned_at_shutdown c + 1\<rparr>)"

text \<open>
  The hash \<open>Server#syslog_stats\<close> hands to Ruby, as its entries in insertion order: plain
  counters, and the rejections under a hash of their own.
\<close>

datatype stat = Count u64 | Counts "(string \<times> u64) list"

definition to_hash :: "SyslogCounters \<Rightarrow> (string \<times> stat) list" where
  "to_hash c =
     (let rejected =
        [(RejectReason_as_str Oversize, rejected_oversize c),
         (RejectReason_as_str InvalidUtf8, rejected_invalid_utf8 c),
         (RejectReason_as_str InvalidLength, rejected_invalid_length c)]
      in map (\<lambda>(name, counter). (name, Count (counter c)))
           [(''messages_delivered'', messages_delivered),
            (''deliveries_refused'', deliveries_refused),
            (''handler_errors'', handler_errors),
            (''udp_truncated'', udp_truncated),
            (''udp_dropped'', udp_dropped),
            (''connections_opened'', connections_opened),
            (''connections_closed'', connections_closed),
            (''connections_refused'', connections_refused),
            (''proxy_header_errors'', proxy_header_errors),
            (''proxy_read_errors'', proxy_read_errors),
            (''abandoned_at_shutdown'', abandoned_at_shutdown),
            (''pending'', pending)]
         @ [(''frames_rejected'', Counts rejected)])"

lemma saturating_sub_1_pos: "0 < a \<Longrightarrow> saturating_sub a 1 = a - 1"
  by (simp add: saturating_sub_def word_less_1)

lemma saturating_sub_1_zero [simp]: "saturating_sub (0 :: 'a::len word) 1 = 0"
  by (simp add: saturating_sub_def)

lemma release_pending_unless_zero:
  "pending (release_pending c) = (if pending c = 0 then 0 else pending c - 1)"
  by (auto simp: release_pending_def saturating_sub_1_pos word_neq_0_conv)

end
