(* ===== verification/Delivery.thy ===== *)
theory Delivery
  imports Messages Counters
begin

text \<open>
  Handing messages to the workers (\<open>syslog.rs\<close>): \<open>Dispatcher::deliver\<close>, one attempt, and
  \<open>deliver_stream_messages\<close>, the task that delivers the messages of one connection in order and
  retries those a handler refuses.

  What the queue, the worker and the clock do is an argument: each call of \<open>deliver\<close> gets an
  \<open>attempt_env\<close> with the results of its \<open>try_send\<close> calls, the verdict or the loss of the worker,
  and whether the shutdown token is set when the verdict is looked at. \<open>None\<close> is a task that
  is still waiting when these run out. The functions also return the messages put on the
  queue and the delays slept (in milliseconds).
\<close>

definition MIN_REFUSAL_DELAY :: nat where
  "MIN_REFUSAL_DELAY = 5"

definition MAX_REFUSAL_DELAY :: nat where
  "MAX_REFUSAL_DELAY = 500"

datatype DeliveryOutcome = OutcomeAccepted | OutcomeRefused | Unavailable

datatype worker_answer = Answer HandlerResult | SenderDropped

record attempt_env =
  sends :: "try_send list"
  answer :: worker_answer
  is_cancelled :: bool

section \<open>One attempt\<close>

fun enqueue :: "try_send list \<Rightarrow> bool option" where
  "enqueue [] = None"
| "enqueue (Sent # _) = Some True"
| "enqueue (Full # rest) = enqueue rest"
| "enqueue (SendDisconnected # _) = Some False"

definition to_message :: "PendingMessage \<Rightarrow> u32 \<Rightarrow> SyslogMessage" where
  "to_message pm att =
     \<lparr>msg_bytes = pm_message pm, utf8 = pm_utf8 pm, peer = pm_peer pm, transport = pm_transport pm,
      received_at_ns = pm_received_at_ns pm, message_id = pm_message_id pm, attempt = att\<rparr>"

definition deliver ::
  "attempt_env \<Rightarrow> PendingMessage \<Rightarrow> u32 \<Rightarrow> SyslogCounters
   \<Rightarrow> (DeliveryOutcome \<times> SyslogCounters \<times> SyslogMessage list) option" where
  "deliver env pm att c =
     (case enqueue (sends env) of
        None \<Rightarrow> None
      | Some False \<Rightarrow> Some (Unavailable, c, [])
      | Some True \<Rightarrow>
          (case answer env of
             Answer Accepted \<Rightarrow>
               Some (OutcomeAccepted, c\<lparr>messages_delivered := messages_delivered c + 1\<rparr>, [to_message pm att])
           | Answer Refused \<Rightarrow>
               Some (OutcomeRefused, c\<lparr>deliveries_refused := deliveries_refused c + 1\<rparr>, [to_message pm att])
           | Answer Failed \<Rightarrow>
               Some (OutcomeRefused, c\<lparr>handler_errors := handler_errors c + 1\<rparr>, [to_message pm att])
           | SenderDropped \<Rightarrow> Some (Unavailable, c, [to_message pm att])))"

section \<open>The messages of a connection\<close>

text \<open>How a message ended: accepted by a handler, or abandoned because of shutdown or lost workers.\<close>

datatype fate = Taken | GivenUp | WorkersGone

text \<open>
  The inner loop: attempts until a handler accepts, the shutdown ends the retries, or the
  workers are gone. It returns how the message ended, the counters, the messages queued, the
  delays slept, and the environments not used. The attempt number wraps, as it does without overflow
  checks.
\<close>

fun retry_loop ::
  "PendingMessage \<Rightarrow> u32 \<Rightarrow> nat \<Rightarrow> SyslogCounters \<Rightarrow> attempt_env list
   \<Rightarrow> (fate \<times> SyslogCounters \<times> SyslogMessage list \<times> nat list \<times> attempt_env list) option" where
  "retry_loop pm att delay c [] = None"
| "retry_loop pm att delay c (env # envs) =
     (case deliver env pm att c of
        None \<Rightarrow> None
      | Some (OutcomeAccepted, c', msgs) \<Rightarrow> Some (Taken, release_pending c', msgs, [], envs)
      | Some (OutcomeRefused, c', msgs) \<Rightarrow>
          if is_cancelled env then Some (GivenUp, abandon_pending c', msgs, [], envs)
          else
            (case retry_loop pm (att + 1) (min (delay * 2) MAX_REFUSAL_DELAY) c' envs of
               None \<Rightarrow> None
             | Some (f, c'', msgs', delays, envs') \<Rightarrow> Some (f, c'', msgs @ msgs', delay # delays, envs'))
      | Some (Unavailable, c', msgs) \<Rightarrow> Some (WorkersGone, abandon_pending c', msgs, [], envs))"

text \<open>The task: the messages the channel yields until it is closed, in order.\<close>

fun deliver_stream_messages ::
  "bool \<Rightarrow> PendingMessage list \<Rightarrow> SyslogCounters \<Rightarrow> attempt_env list
   \<Rightarrow> (fate list \<times> SyslogCounters \<times> SyslogMessage list) option" where
  "deliver_stream_messages workers_gone [] c envs = Some ([], c, [])"
| "deliver_stream_messages workers_gone (pm # rest) c envs =
     (if workers_gone
      then map_option (\<lambda>(fs, c', msgs). (WorkersGone # fs, c', msgs))
             (deliver_stream_messages workers_gone rest (abandon_pending c) envs)
      else
        (case retry_loop pm 1 MIN_REFUSAL_DELAY c envs of
           None \<Rightarrow> None
         | Some (f, c', msgs, _, envs') \<Rightarrow>
             map_option (\<lambda>(fs, c'', msgs'). (f # fs, c'', msgs @ msgs'))
               (deliver_stream_messages (f = WorkersGone) rest c' envs')))"

section \<open>What an attempt does\<close>

text \<open>The counters that say what became of a message.\<close>

definition settled :: "SyslogCounters \<Rightarrow> fate list \<Rightarrow> SyslogCounters \<Rightarrow> bool" where
  "settled c fs c' \<longleftrightarrow>
     messages_delivered c' = messages_delivered c + of_nat (length (filter (\<lambda>f. f = Taken) fs)) \<and>
     abandoned_at_shutdown c' = abandoned_at_shutdown c + of_nat (length (filter (\<lambda>f. f \<noteq> Taken) fs)) \<and>
     unat (pending c') = unat (pending c) - length fs"

lemma release_pending_unat:
  "unat (pending (release_pending c)) = unat (pending c) - 1"
proof (cases "pending c = 0")
  case False
  then have "pending (release_pending c) = pending c - 1"
    by (simp add: release_pending_unless_zero)
  moreover have "1 \<le> pending c"
    using False by (simp add: word_le_nat_alt Suc_le_eq unat_gt_0)
  ultimately show ?thesis
    by (simp add: unat_sub)
qed (simp add: release_pending_unless_zero)

lemma release_pending_other [simp]:
  "messages_delivered (release_pending c) = messages_delivered c"
  "abandoned_at_shutdown (release_pending c) = abandoned_at_shutdown c"
  by (simp_all add: release_pending_def)

lemma abandon_pending_other [simp]:
  "messages_delivered (abandon_pending c) = messages_delivered c"
  "abandoned_at_shutdown (abandon_pending c) = abandoned_at_shutdown c + 1"
  "unat (pending (abandon_pending c)) = unat (pending c) - 1"
  by (simp_all add: abandon_pending_def release_pending_unat)

lemma settled_Nil: "settled c [] c"
  by (simp add: settled_def)

lemma settled_Cons: "settled c [f] c' \<Longrightarrow> settled c' fs c'' \<Longrightarrow> settled c (f # fs) c''"
  by (auto simp: settled_def)

section \<open>What the retries do\<close>

text \<open>The attempts at a message after the first \<open>att\<close>: the same message, numbered on.\<close>

definition attempts :: "PendingMessage \<Rightarrow> u32 \<Rightarrow> nat \<Rightarrow> SyslogMessage list" where
  "attempts pm att k = map (\<lambda>i. to_message pm (att + of_nat i)) [0..<k]"

lemma attempts_Suc: "attempts pm att (Suc k) = to_message pm att # attempts pm (att + 1) k"
  unfolding attempts_def upt_conv_Cons [OF zero_less_Suc]
  by (simp add: map_Suc_upt [symmetric] add.assoc del: upt_Suc)

lemma attempts_simps: "attempts pm att 0 = []" "attempts pm att (Suc 0) = [to_message pm att]"
  by (simp_all add: attempts_def)

text \<open>What decided a message's fate in the last environment looked at.\<close>

fun decides :: "fate \<Rightarrow> attempt_env \<Rightarrow> bool" where
  "decides Taken env \<longleftrightarrow> enqueue (sends env) = Some True \<and> answer env = Answer Accepted"
| "decides GivenUp env \<longleftrightarrow> is_cancelled env"
| "decides WorkersGone env \<longleftrightarrow> enqueue (sends env) = Some False \<or> answer env = SenderDropped"

lemma deliver_effect:
  assumes "deliver env pm att c = Some (out, c1, ms)"
  shows "messages_delivered c1 = messages_delivered c + (if out = OutcomeAccepted then 1 else 0)"
    and "abandoned_at_shutdown c1 = abandoned_at_shutdown c" and "pending c1 = pending c"
    and "out \<noteq> Unavailable \<Longrightarrow> ms = attempts pm att (Suc 0)"
    and "out = Unavailable \<Longrightarrow> ms = attempts pm att 0 \<or> ms = attempts pm att (Suc 0)"
    and "out = OutcomeAccepted \<Longrightarrow> decides Taken env" and "out = Unavailable \<Longrightarrow> decides WorkersGone env"
  using assms
  by (auto simp: deliver_def attempts_simps
      split: option.splits bool.splits worker_answer.splits HandlerResult.splits)

lemma retry_loop_post:
  assumes "retry_loop pm att delay c envs = Some (f, c', msgs, delays, envs')"
  shows "settled c [f] c'
    \<and> (\<exists>env \<in> set envs. decides f env)
    \<and> (\<exists>k. msgs = attempts pm att k \<and> length delays \<le> k \<and> (f \<noteq> WorkersGone \<longrightarrow> k = Suc (length delays)))"
  using assms
proof (induction envs arbitrary: att delay c c' msgs delays)
  case (Cons env envs)
  obtain out c1 ms where d: "deliver env pm att c = Some (out, c1, ms)"
    using Cons.prems by (auto split: option.splits)
  note effect = deliver_effect [OF d]
  show ?case
  proof (cases out)
    case OutcomeAccepted
    with d Cons.prems have "f = Taken" "c' = release_pending c1" "msgs = ms" "delays = []"
      by simp_all
    then show ?thesis
      using effect OutcomeAccepted
      by (auto simp: settled_def release_pending_unat intro: exI [of _ "Suc 0"])
  next
    case Unavailable
    with d Cons.prems have "f = WorkersGone" "c' = abandon_pending c1" "msgs = ms" "delays = []"
      by simp_all
    then show ?thesis
      using effect Unavailable by (auto simp: settled_def)
  next
    case OutcomeRefused
    show ?thesis
    proof (cases "is_cancelled env")
      case True
      with d OutcomeRefused Cons.prems have "f = GivenUp" "c' = abandon_pending c1" "msgs = ms" "delays = []"
        by simp_all
      with True show ?thesis
        using effect OutcomeRefused by (auto simp: settled_def intro: exI [of _ "Suc 0"])
    next
      case False
      with d OutcomeRefused Cons.prems obtain msgs' delays' where
        rest: "retry_loop pm (att + 1) (min (delay * 2) MAX_REFUSAL_DELAY) c1 envs
            = Some (f, c', msgs', delays', envs')"
          "msgs = ms @ msgs'" "delays = delay # delays'"
        by (auto split: option.splits)
      from Cons.IH [OF this(1)] obtain k where IH: "settled c1 [f] c'" "\<exists>env \<in> set envs. decides f env"
          "msgs' = attempts pm (att + 1) k" "length delays' \<le> k"
          "f \<noteq> WorkersGone \<longrightarrow> k = Suc (length delays')"
        by blast
      have "settled c [f] c'"
        using IH(1) effect(1-3) OutcomeRefused by (simp add: settled_def)
      moreover have "msgs = attempts pm att (Suc k)"
        using rest(2) effect(4) OutcomeRefused IH(3) by (simp add: attempts_Suc attempts_simps)
      ultimately show ?thesis
        using IH(2,4,5) rest(3) by auto
    qed
  qed
qed simp

lemma min_scale: "min (min a m * 2 ^ i) m = min (a * 2 ^ i) (m :: nat)"
proof (cases "a \<le> m")
  case False
  then have "m * 1 \<le> m * 2 ^ i" and "m * 1 \<le> a * 2 ^ i"
    by (intro mult_le_mono; simp)+
  then have "min (m * 2 ^ i) m = m" and "min (a * 2 ^ i) m = m"
    by (simp_all only: mult_1_right min_absorb2)
  with False show ?thesis
    by simp
qed (simp add: min_def)

lemma retry_loop_delays:
  assumes "retry_loop pm att delay c envs = Some (f, c', msgs, delays, envs')"
    and "delay \<le> MAX_REFUSAL_DELAY"
  shows "delays = map (\<lambda>i. min (delay * 2 ^ i) MAX_REFUSAL_DELAY) [0..<length delays]"
  using assms
proof (induction envs arbitrary: att delay c c' msgs delays)
  case (Cons env envs)
  show ?case
  proof (cases delays)
    case (Cons d delays')
    with Cons.prems obtain c1 msgs' where "d = delay"
        "retry_loop pm (att + 1) (min (delay * 2) MAX_REFUSAL_DELAY) c1 envs = Some (f, c', msgs', delays', envs')"
      by (auto split: option.splits DeliveryOutcome.splits if_splits)
    with Cons.IH [OF this(2)]
    have "delays' = map (\<lambda>i. min (min (delay * 2) MAX_REFUSAL_DELAY * 2 ^ i) MAX_REFUSAL_DELAY) [0..<length delays']"
      by simp
    also have "\<dots> = map (\<lambda>i. min (delay * 2 ^ Suc i) MAX_REFUSAL_DELAY) [0..<length delays']"
      by (simp add: min_scale mult.assoc)
    finally show ?thesis
      using Cons \<open>d = delay\<close> Cons.prems(2)
      by (simp add: upt_conv_Cons map_Suc_upt [symmetric] comp_def del: upt_Suc)
  qed simp
qed simp

lemma retry_loop_returns:
  assumes "\<forall>env \<in> set envs. enqueue (sends env) \<noteq> None"
    and "\<exists>env \<in> set envs. is_cancelled env \<or> answer env = Answer Accepted \<or> answer env = SenderDropped
      \<or> enqueue (sends env) = Some False"
  shows "retry_loop pm att delay c envs \<noteq> None"
  using assms
proof (induction envs arbitrary: att delay c)
  case (Cons env envs)
  show ?case
  proof (cases "is_cancelled env \<or> answer env = Answer Accepted \<or> answer env = SenderDropped
      \<or> enqueue (sends env) = Some False")
    case True
    with Cons.prems(1) show ?thesis
      by (auto simp: deliver_def split: option.splits bool.splits worker_answer.splits HandlerResult.splits)
  next
    case False
    with Cons.prems have "\<exists>env \<in> set envs. is_cancelled env \<or> answer env = Answer Accepted
        \<or> answer env = SenderDropped \<or> enqueue (sends env) = Some False"
        and "\<forall>env \<in> set envs. enqueue (sends env) \<noteq> None"
      by auto
    note IH = Cons.IH [OF this(2,1)]
    from Cons.prems(1) False obtain h where "enqueue (sends env) = Some True" "answer env = Answer h"
      by (cases "answer env") auto
    then obtain c1 where "deliver env pm att c = Some (OutcomeRefused, c1, [to_message pm att])"
      using False by (cases h) (auto simp: deliver_def)
    with False IH [of "att + 1" "min (delay * 2) MAX_REFUSAL_DELAY" c1] show ?thesis
      by auto
  qed
qed simp

section \<open>A connection's messages\<close>

lemma stream_settled:
  assumes "deliver_stream_messages gone pms c envs = Some (fs, c', msgs)"
  shows "length fs = length pms \<and> settled c fs c'"
  using assms
proof (induction pms arbitrary: gone c envs fs msgs)
  case (Cons pm pms)
  show ?case
  proof (cases gone)
    case True
    with Cons.prems obtain fs' where fs': "fs = WorkersGone # fs'"
        "deliver_stream_messages gone pms (abandon_pending c) envs = Some (fs', c', msgs)"
      by auto
    moreover have "settled c [WorkersGone] (abandon_pending c)"
      by (simp add: settled_def)
    ultimately show ?thesis
      using Cons.IH [OF fs'(2)] by (auto intro: settled_Cons)
  next
    case False
    with Cons.prems obtain f c1 m d e fs' m' where r: "retry_loop pm 1 MIN_REFUSAL_DELAY c envs = Some (f, c1, m, d, e)"
        "deliver_stream_messages (f = WorkersGone) pms c1 e = Some (fs', c', m')" "fs = f # fs'"
      by (auto split: option.splits)
    then show ?thesis
      using retry_loop_post [OF r(1)] Cons.IH [OF r(2)] by (auto intro: settled_Cons)
  qed
qed (simp add: settled_Nil)

text \<open>
  The queue's view of a connection: its messages in order, each with its attempts numbered
  from one, the last of them the accepted one.
\<close>

fun in_order :: "PendingMessage list \<Rightarrow> fate list \<Rightarrow> SyslogMessage list \<Rightarrow> bool" where
  "in_order [] [] msgs \<longleftrightarrow> msgs = []"
| "in_order (pm # pms) (f # fs) msgs \<longleftrightarrow>
     (\<exists>k rest. msgs = attempts pm 1 k @ rest \<and> in_order pms fs rest
        \<and> (f \<noteq> WorkersGone \<longrightarrow> 0 < k)
        \<and> (f = WorkersGone \<longrightarrow> (\<forall>f' \<in> set fs. f' = WorkersGone) \<and> rest = []))"
| "in_order _ _ _ \<longleftrightarrow> False"

lemma gone_in_order:
  assumes "deliver_stream_messages True pms c envs = Some (fs, c', msgs)"
  shows "msgs = [] \<and> (\<forall>f \<in> set fs. f = WorkersGone) \<and> in_order pms fs []"
  using assms
proof (induction pms arbitrary: c fs msgs)
  case (Cons pm pms)
  then obtain fs' where "fs = WorkersGone # fs'"
      "deliver_stream_messages True pms (abandon_pending c) envs = Some (fs', c', msgs)"
    by auto
  with Cons.IH [OF this(2)] show ?case
    by (auto simp: attempts_simps intro: exI [of _ 0])
qed simp

lemma stream_in_order:
  assumes "deliver_stream_messages False pms c envs = Some (fs, c', msgs)"
  shows "in_order pms fs msgs"
  using assms
proof (induction pms arbitrary: c envs fs msgs)
  case (Cons pm pms)
  then obtain f c1 m d e fs' m' where r: "retry_loop pm 1 MIN_REFUSAL_DELAY c envs = Some (f, c1, m, d, e)"
      "deliver_stream_messages (f = WorkersGone) pms c1 e = Some (fs', c', m')" "fs = f # fs'" "msgs = m @ m'"
    by (auto split: option.splits)
  obtain k where k: "m = attempts pm 1 k" "f \<noteq> WorkersGone \<longrightarrow> 0 < k"
    using retry_loop_post [OF r(1)] by auto
  show ?case
  proof (cases "f = WorkersGone")
    case True
    with r(2) gone_in_order [of pms c1 e fs' c' m'] k r(3,4) show ?thesis
      by auto
  next
    case False
    with r(2) Cons.IH [of c1 e fs' m'] k r(3,4) show ?thesis
      by auto
  qed
qed simp

section \<open>Properties of delivery\<close>

definition accept_env :: attempt_env where
  "accept_env = \<lparr>sends = [Full, Sent], answer = Answer Accepted, is_cancelled = False\<rparr>"

definition refuse_env :: attempt_env where
  "refuse_env = \<lparr>sends = [Sent], answer = Answer Refused, is_cancelled = False\<rparr>"

definition gone_env :: attempt_env where
  "gone_env = \<lparr>sends = [SendDisconnected], answer = SenderDropped, is_cancelled = False\<rparr>"

definition sample_pending :: "u64 \<Rightarrow> PendingMessage" where
  "sample_pending n =
     \<lparr>pm_message = [60], pm_utf8 = True, pm_peer = None, pm_transport = Stream,
      pm_received_at_ns = 0, pm_message_id = n\<rparr>"

text \<open>
  No message of a connection is lost from the books: when the delivery task ends, each
  message it received was either accepted by a handler or abandoned, \<open>messages_delivered\<close> and
  \<open>abandoned_at_shutdown\<close> have grown by exactly these numbers, and the \<open>pending\<close> gauge has
  fallen by the number of messages (stopping at zero).
\<close>

lemma stream_accounting:
  assumes "deliver_stream_messages gone pms c envs = Some (fs, c', msgs)"
  shows "length fs = length pms
    \<and> messages_delivered c' = messages_delivered c + of_nat (length (filter (\<lambda>f. f = Taken) fs))
    \<and> abandoned_at_shutdown c' = abandoned_at_shutdown c + of_nat (length (filter (\<lambda>f. f \<noteq> Taken) fs))
    \<and> unat (pending c') = unat (pending c) - length pms"
  using stream_settled [OF assms] by (simp add: settled_def)

lemmas delivery_eval =
  deliver_def to_message_def accept_env_def refuse_env_def gone_env_def
  release_pending_def abandon_pending_def saturating_sub_def

text \<open>
  A connection's messages reach the queue in the order they were framed: all attempts at
  a message come before any at the next, they are the same message with the same identity,
  numbered from one, and every message that was not abandoned for lack of workers has at
  least one; once the workers are gone nothing more is queued.
\<close>

lemma stream_order:
  assumes "deliver_stream_messages False pms c envs = Some (fs, c', msgs)"
  shows "in_order pms fs msgs"
  by (rule stream_in_order [OF assms])

text \<open>
  C23. The retries of a message come to an end, and for a reason: where the queue answers and a handler
  accepts the message, or the shutdown token is set, or the workers are gone, the loop returns
  with the message accepted by a handler, or with the token set after a refusal, or with no worker
  left. It has made one attempt more than it slept, unless no worker was left to try; and the delays
  between attempts start at five milliseconds and double up to half a second.
\<close>

theorem retry_loop_outcome:
  assumes "\<forall>env \<in> set envs. enqueue (sends env) \<noteq> None"
    and "\<exists>env \<in> set envs. is_cancelled env \<or> answer env = Answer Accepted \<or> answer env = SenderDropped
      \<or> enqueue (sends env) = Some False"
  shows "\<exists>f c' msgs delays envs'. retry_loop pm 1 MIN_REFUSAL_DELAY c envs = Some (f, c', msgs, delays, envs')
    \<and> (\<exists>env \<in> set envs. decides f env)
    \<and> (\<exists>k. msgs = attempts pm 1 k \<and> length delays \<le> k \<and> (f \<noteq> WorkersGone \<longrightarrow> k = Suc (length delays)))
    \<and> delays = map (\<lambda>i. min (5 * 2 ^ i) 500) [0..<length delays]"
proof -
  obtain f c' msgs delays envs' where run: "retry_loop pm 1 MIN_REFUSAL_DELAY c envs = Some (f, c', msgs, delays, envs')"
    using retry_loop_returns [OF assms, of pm 1 MIN_REFUSAL_DELAY c] by auto
  with retry_loop_post [OF run] retry_loop_delays [OF run] show ?thesis
    by (simp add: MIN_REFUSAL_DELAY_def MAX_REFUSAL_DELAY_def)
qed

theorem retry_loop_outcome_witness:
  "\<exists>f c' msgs delays envs'. retry_loop (sample_pending 1) 1 MIN_REFUSAL_DELAY SyslogCounters_default
      [refuse_env, refuse_env, gone_env] = Some (f, c', msgs, delays, envs')
    \<and> delays = map (\<lambda>i. min (5 * 2 ^ i) 500) [0..<length delays]"
proof -
  have "\<forall>env \<in> set [refuse_env, refuse_env, gone_env]. enqueue (sends env) \<noteq> None"
      "\<exists>env \<in> set [refuse_env, refuse_env, gone_env]. is_cancelled env \<or> answer env = Answer Accepted
        \<or> answer env = SenderDropped \<or> enqueue (sends env) = Some False"
    by (auto simp: refuse_env_def gone_env_def)
  from retry_loop_outcome [OF this, of "sample_pending 1" SyslogCounters_default] show ?thesis
    by (elim exE conjE) (intro exI conjI)
qed

end
