(* ===== verification/Config.thy ===== *)
theory Config
  imports Prelude
begin

text \<open>
  The configuration of \<open>syslog.rs\<close> (\<open>SyslogConfig\<close>) and \<open>lib.rs\<close> (\<open>ServerConfig\<close>) and
  how \<open>Server#configure\<close> fills it from a Ruby hash. The hash is a map from symbols to Ruby
  values; the conversions of Ruby values are outside the repository and a parameter of type
  \<open>'v convert\<close>, each returning the text of its exception or the converted value. The assignments run in the
  order of the source and stop at the first failing conversion, leaving the earlier ones in
  place.
\<close>

record SyslogConfig =
  stream_path :: "string option"
  stream_bind :: "string option"
  udp_bind :: "string option"
  proxy_protocol :: bool
  proxy_header_timeout :: u64
  max_frame_bytes :: nat
  max_pending :: nat
  max_pending_per_connection :: nat
  max_connections :: u64
  idle_timeout :: u64
  udp_max_datagram_bytes :: nat
  udp_so_rcvbuf :: "nat option"
  work_ratio :: u32

definition SyslogConfig_new :: SyslogConfig where
  "SyslogConfig_new =
     \<lparr>stream_path = None, stream_bind = None, udp_bind = None, proxy_protocol = False,
      proxy_header_timeout = 5000, max_frame_bytes = 102400, max_pending = 1000,
      max_pending_per_connection = 64, max_connections = 10000, idle_timeout = 0,
      udp_max_datagram_bytes = 65536, udp_so_rcvbuf = None, work_ratio = 4\<rparr>"

definition enabled :: "SyslogConfig \<Rightarrow> bool" where
  "enabled self \<longleftrightarrow> stream_path self \<noteq> None \<or> stream_bind self \<noteq> None \<or> udp_bind self \<noteq> None"

section \<open>Reading a hash\<close>

record 'v convert =
  to_String :: "'v \<Rightarrow> string + string"
  to_bool :: "'v \<Rightarrow> string + bool"
  to_u64 :: "'v \<Rightarrow> string + u64"
  to_usize :: "'v \<Rightarrow> string + nat"
  to_u32 :: "'v \<Rightarrow> string + u32"

text \<open>
  \<open>if let Some(value) = config.get(key) { field = convert(value)?; }\<close>: the configuration
  afterwards, and the error that leaves the function.
\<close>

definition set_key ::
  "(string \<rightharpoonup> 'v) \<Rightarrow> string \<Rightarrow> ('v \<Rightarrow> string + 'x) \<Rightarrow> ('x \<Rightarrow> 'c \<Rightarrow> 'c) \<Rightarrow> 'c \<Rightarrow> 'c \<times> string option" where
  "set_key hash key convert assign c =
     (case hash key of
        None \<Rightarrow> (c, None)
      | Some value \<Rightarrow>
          (case convert value of
             Inl e \<Rightarrow> (c, Some e)
           | Inr x \<Rightarrow> (assign x c, None)))"

fun set_keys :: "('c \<Rightarrow> 'c \<times> string option) list \<Rightarrow> 'c \<Rightarrow> 'c \<times> string option" where
  "set_keys [] c = (c, None)"
| "set_keys (s # ss) c =
     (case s c of
        (c', Some e) \<Rightarrow> (c', Some e)
      | (c', None) \<Rightarrow> set_keys ss c')"

text \<open>\<open>clamp(lo, hi)\<close> panics where \<open>hi < lo\<close>; \<open>MAX_PERMITS\<close> is at least one.\<close>

definition clamp :: "nat \<Rightarrow> nat \<Rightarrow> nat \<Rightarrow> nat" where
  "clamp lo hi x = (if x < lo then lo else if hi < x then hi else x)"

definition SyslogConfig_apply ::
  "'v convert \<Rightarrow> nat \<Rightarrow> (string \<rightharpoonup> 'v) \<Rightarrow> SyslogConfig \<Rightarrow> SyslogConfig \<times> string option" where
  "SyslogConfig_apply cv MAX_PERMITS config =
     set_keys
       [set_key config ''syslog_stream_path'' (to_String cv) (\<lambda>x c. c\<lparr>stream_path := Some x\<rparr>),
        set_key config ''syslog_stream_bind'' (to_String cv) (\<lambda>x c. c\<lparr>stream_bind := Some x\<rparr>),
        set_key config ''syslog_udp_bind'' (to_String cv) (\<lambda>x c. c\<lparr>udp_bind := Some x\<rparr>),
        set_key config ''syslog_proxy_protocol'' (to_bool cv) (\<lambda>x c. c\<lparr>proxy_protocol := x\<rparr>),
        set_key config ''syslog_proxy_header_timeout'' (to_u64 cv) (\<lambda>x c. c\<lparr>proxy_header_timeout := x\<rparr>),
        set_key config ''syslog_max_frame_bytes'' (to_usize cv) (\<lambda>x c. c\<lparr>max_frame_bytes := x\<rparr>),
        set_key config ''syslog_max_pending'' (to_usize cv)
          (\<lambda>x c. c\<lparr>max_pending := clamp 1 MAX_PERMITS x\<rparr>),
        set_key config ''syslog_max_pending_per_connection'' (to_usize cv)
          (\<lambda>x c. c\<lparr>max_pending_per_connection := max x 1\<rparr>),
        set_key config ''syslog_max_connections'' (to_u64 cv) (\<lambda>x c. c\<lparr>max_connections := x\<rparr>),
        set_key config ''syslog_idle_timeout_ms'' (to_u64 cv) (\<lambda>x c. c\<lparr>idle_timeout := x\<rparr>),
        set_key config ''syslog_udp_max_datagram_bytes'' (to_usize cv)
          (\<lambda>x c. c\<lparr>udp_max_datagram_bytes := max x 1\<rparr>),
        set_key config ''syslog_udp_so_rcvbuf'' (to_usize cv) (\<lambda>x c. c\<lparr>udp_so_rcvbuf := Some x\<rparr>),
        set_key config ''syslog_work_ratio'' (to_u32 cv) (\<lambda>x c. c\<lparr>work_ratio := x\<rparr>)]"

section \<open>The server's configuration\<close>

record ServerConfig =
  bind_address :: string
  tokio_threads :: "nat option"
  debug :: bool
  recv_timeout :: u64
  channel_capacity :: nat
  send_timeout :: u64
  max_connection_age :: "u64 option"
  syslog :: SyslogConfig

definition ServerConfig_new :: ServerConfig where
  "ServerConfig_new =
     \<lparr>bind_address = ''127.0.0.1:3000'', tokio_threads = None, debug = False, recv_timeout = 30000,
      channel_capacity = 5000, send_timeout = 1000, max_connection_age = None,
      syslog = SyslogConfig_new\<rparr>"

definition configure ::
  "'v convert \<Rightarrow> nat \<Rightarrow> (string \<rightharpoonup> 'v) \<Rightarrow> ServerConfig \<Rightarrow> ServerConfig \<times> string option" where
  "configure cv MAX_PERMITS config =
     set_keys
       [set_key config ''bind_address'' (to_String cv) (\<lambda>x c. c\<lparr>bind_address := x\<rparr>),
        set_key config ''tokio_threads'' (to_usize cv) (\<lambda>x c. c\<lparr>tokio_threads := Some x\<rparr>),
        set_key config ''debug'' (to_bool cv) (\<lambda>x c. c\<lparr>debug := x\<rparr>),
        set_key config ''recv_timeout'' (to_u64 cv) (\<lambda>x c. c\<lparr>recv_timeout := x\<rparr>),
        set_key config ''channel_capacity'' (to_usize cv) (\<lambda>x c. c\<lparr>channel_capacity := x\<rparr>),
        set_key config ''send_timeout'' (to_u64 cv) (\<lambda>x c. c\<lparr>send_timeout := x\<rparr>),
        set_key config ''max_connection_age'' (to_u64 cv) (\<lambda>x c. c\<lparr>max_connection_age := Some x\<rparr>),
        (\<lambda>c. let (s, e) = SyslogConfig_apply cv MAX_PERMITS config (syslog c) in (c\<lparr>syslog := s\<rparr>, e))]"

section \<open>What every configuration satisfies\<close>

definition keeps :: "('c \<Rightarrow> bool) \<Rightarrow> ('c \<Rightarrow> 'c \<times> string option) \<Rightarrow> bool" where
  "keeps P s \<longleftrightarrow> (\<forall>c. P c \<longrightarrow> P (fst (s c)))"

lemma keeps_Nil: "keeps P (set_keys [])"
  by (simp add: keeps_def)

lemma keeps_Cons: "keeps P s \<Longrightarrow> keeps P (set_keys ss) \<Longrightarrow> keeps P (set_keys (s # ss))"
  by (auto simp: keeps_def split: prod.splits option.splits)

lemma keeps_set_key:
  "(\<And>x c. P c \<Longrightarrow> P (assign x c)) \<Longrightarrow> keeps P (set_key hash key convert assign)"
  by (simp add: keeps_def set_key_def split: option.splits sum.splits)

text \<open>The bounds the listeners rely on.\<close>

definition syslog_bounds :: "nat \<Rightarrow> SyslogConfig \<Rightarrow> bool" where
  "syslog_bounds MAX_PERMITS c \<longleftrightarrow>
     1 \<le> max_pending c \<and> max_pending c \<le> MAX_PERMITS \<and>
     1 \<le> max_pending_per_connection c \<and> 1 \<le> udp_max_datagram_bytes c"

lemma syslog_apply_bounds:
  assumes "1 \<le> MAX_PERMITS"
  shows "keeps (syslog_bounds MAX_PERMITS) (SyslogConfig_apply cv MAX_PERMITS config)"
  unfolding SyslogConfig_apply_def
  by (intro keeps_Cons keeps_Nil keeps_set_key)
    (use assms in \<open>simp_all add: syslog_bounds_def clamp_def\<close>)

lemma configure_keeps:
  assumes "1 \<le> MAX_PERMITS"
  shows "keeps (\<lambda>c. syslog_bounds MAX_PERMITS (syslog c)) (configure cv MAX_PERMITS config)"
  unfolding configure_def
proof (intro keeps_Cons keeps_Nil)
  show "keeps (\<lambda>c. syslog_bounds MAX_PERMITS (syslog c))
      (\<lambda>c. let (s, e) = SyslogConfig_apply cv MAX_PERMITS config (syslog c) in (c\<lparr>syslog := s\<rparr>, e))"
    using syslog_apply_bounds [OF assms, of cv config] by (simp add: keeps_def split_beta)
qed (rule keeps_set_key, simp)+

text \<open>
  Whatever hash a server is configured with, and even when a conversion fails half way,
  the configuration keeps the bounds its listeners rely on: between one and the largest
  number of permits for messages in flight, room for at least one message per connection,
  and a datagram buffer of at least one byte.
\<close>

lemma configure_bounds:
  assumes "1000 \<le> MAX_PERMITS"
  shows "syslog_bounds MAX_PERMITS (syslog ServerConfig_new)
    \<and> (syslog_bounds MAX_PERMITS (syslog c) \<longrightarrow>
        syslog_bounds MAX_PERMITS (syslog (fst (configure cv MAX_PERMITS config c))))"
  using assms configure_keeps [of MAX_PERMITS cv config]
  by (simp add: syslog_bounds_def ServerConfig_new_def SyslogConfig_new_def keeps_def)

end
