(* ===== verification/Syslog_Proxy.thy ===== *)
theory Syslog_Proxy
  imports Proxy Counters
begin

text \<open>
  Reading the PROXY header of a stream connection (\<open>read_proxy_header\<close> and
  \<open>ProxyFailure\<close> of \<open>syslog.rs\<close>). The socket is outside the repository: the outcomes of
  the reads that finish before the deadline are the argument \<open>reads\<close>, and its end is the
  deadline passing while the loop waits for another read.
\<close>

definition MAX_PROXY_HEADER_BYTES :: nat where
  "MAX_PROXY_HEADER_BYTES = 1024"

text \<open>\<open>stream.read_buf\<close>: \<open>Ok(n)\<close> with the bytes appended (none of them is \<open>Ok(0)\<close>), or an error.\<close>

datatype read_result = ReadOk bytes | ReadErr

datatype ProxyFailure = Header ProxyError | Read string

fun ProxyFailure_as_str :: "ProxyFailure \<Rightarrow> string" where
  "ProxyFailure_as_str (Header error) = ProxyError_as_str error"
| "ProxyFailure_as_str (Read r) = r"

fun ProxyFailure_record :: "ProxyFailure \<Rightarrow> SyslogCounters \<Rightarrow> SyslogCounters" where
  "ProxyFailure_record (Header _) c = c\<lparr>proxy_header_errors := proxy_header_errors c + 1\<rparr>"
| "ProxyFailure_record (Read _) c = c\<lparr>proxy_read_errors := proxy_read_errors c + 1\<rparr>"

text \<open>The result, with the buffer as the loop leaves it and the reads it did not make.\<close>

fun read_proxy_header ::
  "bytes \<Rightarrow> read_result list \<Rightarrow> ((ProxyFailure + IpAddr option) \<times> bytes \<times> read_result list) option" where
  "read_proxy_header buffer reads =
     (case parse buffer MAX_PROXY_HEADER_BYTES of
        None \<Rightarrow> None
      | Some (Inr (Complete source len)) \<Rightarrow>
          do { buffer' \<leftarrow> advance len buffer; Some (Inr source, buffer', reads) }
      | Some (Inr Incomplete) \<Rightarrow>
          (case reads of
             [] \<Rightarrow> Some (Inl (Read ''timeout''), buffer, [])
           | ReadOk [] # reads' \<Rightarrow> Some (Inl (Read ''eof''), buffer, reads')
           | ReadOk (b # bs) # reads' \<Rightarrow> read_proxy_header (buffer @ b # bs) reads'
           | ReadErr # reads' \<Rightarrow> Some (Inl (Read ''io''), buffer, reads'))
      | Some (Inl error) \<Rightarrow> Some (Inl (Header error), buffer, reads))"

declare read_proxy_header.simps [simp del]

section \<open>The bounds of a complete header\<close>

lemma parse_Complete_bounds:
  assumes "parse buf max_length = Some (Inr (Complete source len))"
  shows "16 \<le> len" and "len \<le> length buf" and "len \<le> max_length"
    and "take 12 buf = SIGNATURE"
proof -
  from assms have v2: "like_v2 buf" "16 \<le> length buf"
      and pre: "parse_prefix buf max_length = Some (Inr (Complete source len))"
    by (auto simp: parse_eq split: if_splits)
  from pre have "len = 16 + address_length buf" "len \<le> max_length" "len \<le> length buf"
    by (auto simp: parse_prefix_def map_sum_def not_less split: if_splits bind_splits sum.splits)
  with v2 show "16 \<le> len" and "len \<le> length buf" and "len \<le> max_length"
      and "take 12 buf = SIGNATURE"
    by (simp_all add: like_v2_length)
qed

lemma parse_Incomplete_bounds:
  assumes "parse buf max_length = Some (Inr Incomplete)"
  shows "length buf < 16 \<or> length buf < max_length"
  using assms
  by (auto simp: parse_eq parse_prefix_def map_sum_def split: if_splits bind_splits sum.splits)

lemma read_proxy_header_total [no_panic]: "read_proxy_header buffer reads \<noteq> None"
proof (induction reads arbitrary: buffer)
  case Nil
  show ?case
    using parse_total [of buffer MAX_PROXY_HEADER_BYTES]
    by (auto simp: read_proxy_header.simps [of buffer] advance_in_range parse_Complete_bounds
        split: option.splits sum.splits ProxyHeader.splits)
next
  case (Cons r reads)
  then show ?case
    using parse_total [of buffer MAX_PROXY_HEADER_BYTES]
    by (auto simp: read_proxy_header.simps [of buffer] advance_in_range parse_Complete_bounds
        split: option.splits sum.splits ProxyHeader.splits read_result.splits list.splits)
qed

section \<open>Reading in pieces\<close>

lemma read_proxy_header_more:
  assumes "parse_undecided (parse buffer MAX_PROXY_HEADER_BYTES)" and "c \<noteq> []"
  shows "read_proxy_header buffer (ReadOk c # reads) = read_proxy_header (buffer @ c) reads"
  using assms
  by (cases c) (simp_all add: read_proxy_header.simps [of buffer] parse_undecided_def)

lemma read_proxy_header_follow:
  "\<forall>c \<in> set now. c \<noteq> [] \<Longrightarrow>
   \<forall>k < length now. parse_undecided (parse (buffer @ concat (take k now)) MAX_PROXY_HEADER_BYTES) \<Longrightarrow>
   read_proxy_header buffer (map ReadOk now @ reads)
     = read_proxy_header (buffer @ concat now) reads"
proof (induction now arbitrary: buffer)
  case (Cons c cs)
  have "parse_undecided (parse buffer MAX_PROXY_HEADER_BYTES)"
    using Cons.prems(2) [rule_format, of 0] by simp
  then have "read_proxy_header buffer (map ReadOk (c # cs) @ reads)
      = read_proxy_header (buffer @ c) (map ReadOk cs @ reads)"
    using Cons.prems(1) by (simp add: read_proxy_header_more)
  also have "\<dots> = read_proxy_header ((buffer @ c) @ concat cs) reads"
  proof (rule Cons.IH)
    show "\<forall>k < length cs. parse_undecided
        (parse ((buffer @ c) @ concat (take k cs)) MAX_PROXY_HEADER_BYTES)"
      using Cons.prems(2) [rule_format, of "Suc k" for k] by simp
  qed (use Cons.prems(1) in simp)
  finally show ?case by simp
qed simp

lemma read_proxy_header_suffix:
  "read_proxy_header buffer reads = Some (result, buffer', reads') \<Longrightarrow> suffix reads' reads"
proof (induction reads arbitrary: buffer)
  case Nil
  then show ?case
    by (auto simp: read_proxy_header.simps [of buffer]
        split: option.splits sum.splits ProxyHeader.splits bind_splits)
next
  case (Cons r reads)
  then show ?case
    by (auto simp: read_proxy_header.simps [of buffer] suffix_ConsI
        split: option.splits sum.splits ProxyHeader.splits read_result.splits list.splits bind_splits)
qed

text \<open>
  What a connection comes to whose bytes arrive in the given reads. The error of a rejected input is
  the parser's on the first reads it does not ask to continue.
\<close>

definition header_outcome ::
  "bytes list \<Rightarrow> (ProxyFailure + IpAddr option) \<times> bytes \<times> read_result list \<Rightarrow> bool" where
  "header_outcome chunks res =
     (case res of (result, buffer, reads) \<Rightarrow>
        (case parse (concat chunks) MAX_PROXY_HEADER_BYTES of
           Some (Inr (Complete source len)) \<Rightarrow>
             result = Inr source \<and>
             (\<exists>later. reads = map ReadOk later \<and> buffer @ concat later = drop len (concat chunks))
         | Some (Inr Incomplete) \<Rightarrow> result = Inl (Read ''timeout'') \<and> buffer = concat chunks \<and> reads = []
         | Some (Inl _) \<Rightarrow> (\<exists>now later e. chunks = now @ later
             \<and> (\<forall>k < length now. parse (concat (take k now)) MAX_PROXY_HEADER_BYTES = Some (Inr Incomplete))
             \<and> parse (concat now) MAX_PROXY_HEADER_BYTES = Some (Inl e)
             \<and> result = Inl (Header e) \<and> buffer = concat now \<and> reads = map ReadOk later)
         | None \<Rightarrow> False))"

lemma read_proxy_header_decided:
  assumes "\<not> parse_undecided (parse (concat now) MAX_PROXY_HEADER_BYTES)"
    and "\<forall>k < length now. parse_undecided (parse (concat (take k now)) MAX_PROXY_HEADER_BYTES)"
    and "parse_same_verdict (parse (concat now) MAX_PROXY_HEADER_BYTES)
      (parse (concat (now @ later)) MAX_PROXY_HEADER_BYTES)"
  shows "\<exists>res. read_proxy_header (concat now) (map ReadOk later) = Some res \<and> header_outcome (now @ later) res"
proof -
  obtain v where v: "parse (concat now) MAX_PROXY_HEADER_BYTES = Some v"
    using parse_total by fastforce
  show ?thesis
  proof (cases v)
    case (Inl e)
    then have "read_proxy_header (concat now) (map ReadOk later) = Some (Inl (Header e), concat now, map ReadOk later)"
      using v by (simp add: read_proxy_header.simps [of "concat now"])
    moreover obtain e' where "parse (concat (now @ later)) MAX_PROXY_HEADER_BYTES = Some (Inl e')"
      using v Inl assms(3) by (auto simp: parse_same_verdict_def split: option.splits sum.splits)
    moreover have "\<forall>k < length now. parse (concat (take k now)) MAX_PROXY_HEADER_BYTES = Some (Inr Incomplete)"
      using assms(2) by (simp add: parse_undecided_def)
    ultimately show ?thesis
      using v Inl by (auto simp: header_outcome_def)
  next
    case (Inr hdr)
    with v assms(1) obtain source len where hdr: "hdr = Complete source len"
      by (cases hdr) (simp_all add: parse_undecided_def)
    with v Inr have c: "parse (concat now) MAX_PROXY_HEADER_BYTES = Some (Inr (Complete source len))"
      by simp
    then have "parse (concat (now @ later)) MAX_PROXY_HEADER_BYTES = Some (Inr (Complete source len))"
      using assms(3) by (simp add: parse_same_verdict_def)
    moreover have "len \<le> length (concat now)"
      using parse_Complete_bounds [OF c] by simp
    ultimately show ?thesis
      by (auto simp: read_proxy_header.simps [of "concat now"] c header_outcome_def byte_simps)
  qed
qed

lemma read_proxy_header_reads:
  assumes "\<forall>c \<in> set chunks. c \<noteq> []"
  shows "\<exists>res. read_proxy_header [] (map ReadOk chunks) = Some res \<and> header_outcome chunks res"
proof (cases "parse_undecided (parse ([] @ concat chunks) MAX_PROXY_HEADER_BYTES)")
  case True
  have "parse_undecided (parse ([] @ concat (take k chunks)) MAX_PROXY_HEADER_BYTES)" for k
    using header.undecided_shorter [where max_length = MAX_PROXY_HEADER_BYTES
        and buf = "concat (take k chunks)" and more = "concat (drop k chunks)"] True
    by (simp flip: concat_append)
  then have "read_proxy_header [] (map ReadOk chunks @ []) = read_proxy_header ([] @ concat chunks) []"
    using assms by (intro read_proxy_header_follow) simp_all
  with True show ?thesis
    by (simp add: read_proxy_header.simps [of "concat chunks"] parse_undecided_def header_outcome_def)
next
  case False
  from header.reads_decide [OF False] obtain now later where
    split: "chunks = now @ later" "\<not> parse_undecided (parse ([] @ concat now) MAX_PROXY_HEADER_BYTES)"
      "\<forall>k < length now. parse_undecided (parse ([] @ concat (take k now)) MAX_PROXY_HEADER_BYTES)"
      "parse_same_verdict (parse ([] @ concat now) MAX_PROXY_HEADER_BYTES)
        (parse ([] @ concat chunks) MAX_PROXY_HEADER_BYTES)"
    by blast
  have "read_proxy_header [] (map ReadOk now @ map ReadOk later)
      = read_proxy_header ([] @ concat now) (map ReadOk later)"
    using assms split(1,3) by (intro read_proxy_header_follow) simp_all
  then show ?thesis
    using read_proxy_header_decided [of now later] split by simp
qed

section \<open>Properties of the header parser and its reader\<close>

text \<open>
  C12. Whether a connection's header is taken does not depend on where the reads end: over the bytes
  of a connection cut into any non-empty reads, a header that the parser finds complete in the whole input
  yields its source address and leaves exactly the bytes after it for the framer; an input
  that never completes a header runs into the deadline; and an input that the parser rejects is
  rejected after the first reads that it does not ask to continue, with the parser's own error for these bytes,
  nothing more being read.
\<close>

theorem proxy_header_any_reads:
  assumes "\<forall>c \<in> set chunks. c \<noteq> []"
  shows "\<exists>result buffer reads. read_proxy_header [] (map ReadOk chunks) = Some (result, buffer, reads) \<and>
    (case parse (concat chunks) MAX_PROXY_HEADER_BYTES of
       Some (Inr (Complete source len)) \<Rightarrow>
         result = Inr source \<and>
         (\<exists>later. reads = map ReadOk later \<and> buffer @ concat later = drop len (concat chunks))
     | Some (Inr Incomplete) \<Rightarrow> result = Inl (Read ''timeout'') \<and> buffer = concat chunks \<and> reads = []
     | Some (Inl _) \<Rightarrow> (\<exists>now later e. chunks = now @ later
         \<and> (\<forall>k < length now. parse (concat (take k now)) MAX_PROXY_HEADER_BYTES = Some (Inr Incomplete))
         \<and> parse (concat now) MAX_PROXY_HEADER_BYTES = Some (Inl e)
         \<and> result = Inl (Header e) \<and> buffer = concat now \<and> reads = map ReadOk later)
     | None \<Rightarrow> False)"
  using read_proxy_header_reads [OF assms] by (auto simp: header_outcome_def)

text \<open>The two bytes of \<open>PX\<close> in separate reads: the first alone is an old header, and is refused as such.\<close>

theorem proxy_header_any_reads_witness:
  "\<exists>buffer reads. read_proxy_header [] (map ReadOk [[80], [88]]) = Some (Inl (Header Version), buffer, reads)"
proof -
  have p: "parse [80] MAX_PROXY_HEADER_BYTES = Some (Inl Version)"
      "parse [80, 88] MAX_PROXY_HEADER_BYTES = Some (Inl Signature)"
      "parse [] MAX_PROXY_HEADER_BYTES = Some (Inr Incomplete)"
    by (simp_all add: parse_eq like_v1_def like_v2_def V1_SIGNATURE_def SIGNATURE_def)
  define chunks :: "bytes list" where "chunks = [[80], [88]]"
  have "\<forall>c \<in> set chunks. c \<noteq> []" and all: "parse (concat chunks) MAX_PROXY_HEADER_BYTES = Some (Inl Signature)"
    using p(2) by (simp_all add: chunks_def)
  from proxy_header_any_reads [OF this(1)] obtain buffer reads now later e where
    r: "read_proxy_header [] (map ReadOk chunks) = Some (Inl (Header e), buffer, reads)" "chunks = now @ later"
      "\<forall>k < length now. parse (concat (take k now)) MAX_PROXY_HEADER_BYTES = Some (Inr Incomplete)"
      "parse (concat now) MAX_PROXY_HEADER_BYTES = Some (Inl e)"
    by (auto simp: all)
  have "now = [[80]]"
    using r(2-4) p by (auto simp: chunks_def Cons_eq_append_conv dest: spec [of _ 1])
  with r(1,4) p(1) show ?thesis
    by (simp add: chunks_def)
qed

text \<open>The source address a well-formed header names, after the PROXY protocol specification.\<close>

definition header_source :: "u8 \<Rightarrow> u8 \<Rightarrow> bytes \<Rightarrow> IpAddr option \<Rightarrow> bool" where
  "header_source family command address source \<longleftrightarrow>
     (command = 0 \<and> source = None) \<or>
     (command = 1 \<and>
       ((family \<in> {0x11, 0x12} \<and> 12 \<le> length address \<and> source = Some (V4 (take 4 address)))
        \<or> (family \<in> {0x21, 0x22} \<and> 36 \<le> length address \<and> source = Some (V6 (take 16 address)))
        \<or> (family \<in> {0x00, 0x31, 0x32} \<and> source = None)))"

lemma v2_header_nth:
  fixes family command address rest
  defines "h \<equiv> v2_header family command address @ rest"
  shows "take 12 h = SIGNATURE" and "h ! 12 = 0x20 OR command" and "h ! 13 = family"
    and "[h ! 14, h ! 15] = u16_to_be (of_nat (length address))" and "drop 16 h = address @ rest"
    and "length h = 16 + length address + length rest"
  by (simp_all add: h_def v2_header_def nth_append u16_to_be_def)

lemma parse_v2_header:
  assumes "header_source family command address source"
    and "16 + length address \<le> max_length" and "length address < 2 ^ 16"
  shows "parse (v2_header family command address @ rest) max_length
    = Some (Inr (Complete source (16 + length address)))"
proof -
  define h where "h = v2_header family command address @ rest"
  have sig: "take 12 h = SIGNATURE" and vc: "h ! 12 = 0x20 OR command" and fam: "h ! 13 = family"
    and be: "[h ! 14, h ! 15] = u16_to_be (of_nat (length address))"
    and addr: "drop 16 h = address @ rest" and size: "length h = 16 + length address + length rest"
    unfolding h_def by (rule v2_header_nth)+
  have v2: "like_v2 h" "h \<noteq> []" "16 \<le> length h"
    using sig size by (auto simp: like_v2_def)
  then have v1: "\<not> like_v1 h"
    using like_v1_not_v2 by blast
  have len: "address_length h = length address"
  proof -
    have "u16_from_be (h ! 14) (h ! 15) = of_nat (length address)"
      using u16_from_to_be [of "of_nat (length address)"] by (simp flip: be)
    moreover have "unat (of_nat (length address) :: u16) = length address"
      using assms(3) by (simp only: unat_of_nat) simp
    ultimately show ?thesis
      by (simp add: address_length_def)
  qed
  have "12 \<le> length address \<Longrightarrow> get_range 16 20 h = Some (take 4 address)"
      "36 \<le> length address \<Longrightarrow> get_range 16 32 h = Some (take 16 address)"
    using addr size by (simp_all add: get_range_def)
  then have "parse_source h command family (length address) = Some (Inr source)"
    using assms(1) by (auto simp: header_source_def parse_source_def)
  moreover have "h ! 12 AND 0x0f = command" "drop_bit 4 (h ! 12) = 0x2" "\<not> command > 0x1"
    using assms(1) by (auto simp: vc header_source_def)
  ultimately have "parse h max_length = Some (Inr (Complete source (16 + length address)))"
    using v1 v2 assms(2) size by (simp add: parse_eq parse_prefix_def len fam)
  then show ?thesis
    by (simp add: h_def)
qed

text \<open>A connection that starts with a well-formed header: the rest is left for the framer.\<close>

lemma read_v2_header:
  assumes "header_source family command address source" and "16 + length address \<le> MAX_PROXY_HEADER_BYTES"
    and "\<forall>c \<in> set chunks. c \<noteq> []" and "concat chunks = v2_header family command address @ rest"
  shows "\<exists>buffer later. read_proxy_header [] (map ReadOk chunks) = Some (Inr source, buffer, map ReadOk later)
    \<and> buffer @ concat later = rest \<and> (\<forall>c \<in> set later. c \<noteq> [])"
proof -
  have "parse (concat chunks) MAX_PROXY_HEADER_BYTES = Some (Inr (Complete source (16 + length address)))"
    unfolding assms(4) using assms(1,2) by (intro parse_v2_header) (simp_all add: MAX_PROXY_HEADER_BYTES_def)
  moreover have "drop (16 + length address) (concat chunks) = rest"
    using v2_header_nth(6) [of family command address rest] by (simp add: assms(4))
  moreover obtain result buffer reads where
    reads: "read_proxy_header [] (map ReadOk chunks) = Some (result, buffer, reads)"
      "header_outcome chunks (result, buffer, reads)"
    using read_proxy_header_reads [OF assms(3)] by auto
  ultimately obtain later where "result = Inr source" "reads = map ReadOk later" "buffer @ concat later = rest"
    by (auto simp: header_outcome_def)
  moreover from this have "\<forall>c \<in> set later. c \<noteq> []"
    using set_mono_suffix [OF read_proxy_header_suffix [OF reads(1)]] assms(3) by fastforce
  ultimately show ?thesis
    using reads(1) by blast
qed

text \<open>
  A well-formed header is understood: a v2 header for an IPv4 or IPv6 connection, a
  unix or unspecified one, or a LOCAL one, followed by anything, parses to its source address
  and its own length, TLVs included.
\<close>

lemma proxy_header_roundtrip:
  assumes "header_source family command address source"
    and "16 + length address \<le> max_length" and "length address < 2 ^ 16"
  shows "parse (v2_header family command address @ rest) max_length
    = Some (Inr (Complete source (length (v2_header family command address))))"
  using parse_v2_header [OF assms] by (simp add: v2_header_def)

text \<open>
  The parser is safe on every input: it never indexes out of range; a complete header
  starts with the signature, is at least the sixteen bytes of its prefix and lies inside both the
  buffer and the allowed length, so taking it off the buffer cannot panic; and it asks for
  more only while the buffer is shorter than the allowed length.
\<close>

lemma proxy_parse_bounds:
  "\<exists>v. parse buf max_length = Some v \<and>
    (case v of
       Inl _ \<Rightarrow> True
     | Inr Incomplete \<Rightarrow> length buf < max 16 max_length
     | Inr (Complete source len) \<Rightarrow> 16 \<le> len \<and> len \<le> length buf \<and> len \<le> max_length
         \<and> take 12 buf = SIGNATURE)"
proof -
  obtain v where v: "parse buf max_length = Some v"
    using parse_total by fastforce
  with parse_Incomplete_bounds [of buf max_length] parse_Complete_bounds [of buf max_length]
  show ?thesis
    by (auto split: sum.splits ProxyHeader.splits)
qed

end
