(* ===== verification/Line_Codec_Instance.thy ===== *)
theory Line_Codec_Instance
  imports Framing
begin

text \<open>
  A concrete line codec with the behaviour \<open>LinesCodec\<close> documents, so that the
  hypotheses of the framer theorems are seen to hold together. Its state is the maximum
  length and whether an overlong line is being skipped. It models no code of the
  repository: the theorems hold for every codec that satisfies \<open>lines_codec_ok\<close>.
\<close>

definition take_line ::
  "nat \<Rightarrow> bytes \<Rightarrow> (LinesCodecError + bytes option) \<times> (nat \<times> bool) \<times> bytes" where
  "take_line m src =
     (case position (\<lambda>b. b = 10) (take (m + 1) src) of
        Some i \<Rightarrow>
          (if valid_utf8 (strip_cr (take i src)) then Inr (Some (strip_cr (take i src))) else Inl Io,
           (m, False), drop (i + 1) src)
      | None \<Rightarrow>
          if length src > m then (Inl MaxLineLengthExceeded, (m, True), src)
          else (Inr None, (m, False), src))"

fun line_decode ::
  "nat \<times> bool \<Rightarrow> bytes \<Rightarrow> (LinesCodecError + bytes option) \<times> (nat \<times> bool) \<times> bytes" where
  "line_decode (m, False) src = take_line m src"
| "line_decode (m, True) src =
     (case position (\<lambda>b. b = 10) src of
        Some i \<Rightarrow> take_line m (drop (i + 1) src)
      | None \<Rightarrow> (Inr None, (m, True), []))"

definition line_decode_eof ::
  "nat \<times> bool \<Rightarrow> bytes \<Rightarrow> (LinesCodecError + bytes option) \<times> (nat \<times> bool) \<times> bytes" where
  "line_decode_eof codec src =
     (case line_decode codec src of
        (Inr None, codec', src') \<Rightarrow>
          if src' = [] \<or> src' = [13] then (Inr None, codec', src')
          else (if valid_utf8 (strip_cr src') then Inr (Some (strip_cr src')) else Inl Io, codec', [])
      | res \<Rightarrow> res)"

definition simple_lines :: "(nat \<times> bool) lines_codec" where
  "simple_lines =
     \<lparr>lc_new = \<lambda>m. (m, False), lc_max_length = fst, lc_decode = line_decode,
      lc_decode_eof = line_decode_eof, lc_discarding = snd, lc_waiting = \<lambda>codec src. \<not> snd codec\<rparr>"

lemma simple_lines_sels [simp]:
  "lc_new simple_lines m = (m, False)" "lc_max_length simple_lines = fst"
  "lc_decode simple_lines = line_decode" "lc_decode_eof simple_lines = line_decode_eof"
  "lc_discarding simple_lines = snd" "lc_waiting simple_lines codec src = (\<not> snd codec)"
  by (simp_all add: simple_lines_def)

lemma length_strip_cr: "length (strip_cr xs) \<le> length xs"
  by (simp add: strip_cr_def)

lemma take_line_ok: "line_step_ok simple_lines (m, False) src (take_line m src)"
proof (cases "position (\<lambda>b. b = 10) (take (m + 1) src)")
  case None
  then show ?thesis
    by (simp add: take_line_def line_step_ok_def)
next
  case (Some i)
  then have i: "i < Suc m" "i < length src"
    by (auto dest: position_SomeD)
  then have "length (strip_cr (take i src)) \<le> m"
    using length_strip_cr [of "take i src"] by simp
  moreover have "length src - Suc i < length src"
    using i by arith
  ultimately show ?thesis
    using Some by (simp add: take_line_def line_step_ok_def suffix_drop)
qed

lemma line_decode_ok: "line_step_ok simple_lines codec src (line_decode codec src)"
proof -
  obtain m d where codec: "codec = (m, d)" by (cases codec)
  show ?thesis
  proof (cases d)
    case False
    with codec take_line_ok show ?thesis by simp
  next
    case True
    show ?thesis
    proof (cases "position (\<lambda>b. b = 10) src")
      case None
      with True codec show ?thesis by (simp add: line_step_ok_def)
    next
      case (Some i)
      then have "length (drop (Suc i) src) < length src"
        by (auto dest: position_SomeD)
      moreover obtain r c' src' where res: "take_line m (drop (Suc i) src) = (r, c', src')"
        by (cases "take_line m (drop (Suc i) src)")
      moreover have "line_step_ok simple_lines (m, False) (drop (Suc i) src) (r, c', src')"
        using take_line_ok [of m "drop (Suc i) src"] res by simp
      ultimately show ?thesis
        using Some True codec
        by (auto simp: line_step_ok_def dest: suffix_length_le
            intro: suffix_order.trans [OF _ suffix_drop]
            split: sum.splits option.splits LinesCodecError.splits)
    qed
  qed
qed

lemma line_decode_None_short:
  "line_decode (m, d) src = (Inr None, codec', src') \<Longrightarrow> length src' \<le> m"
  by (cases d) (auto simp: take_line_def split: option.splits if_splits)

lemma line_decode_eof_ok: "line_step_ok simple_lines codec src (line_decode_eof codec src)"
proof -
  obtain r codec' src' where res: "line_decode codec src = (r, codec', src')"
    by (cases "line_decode codec src")
  have step: "line_step_ok simple_lines codec src (r, codec', src')"
    using line_decode_ok [of codec src] res by simp
  show ?thesis
  proof (cases "r = Inr None \<and> src' \<noteq> [] \<and> src' \<noteq> [13]")
    case False
    then have "line_decode_eof codec src = (r, codec', src')"
      using res by (auto simp: line_decode_eof_def split: sum.splits option.splits)
    with step show ?thesis by simp
  next
    case True
    then have "length (strip_cr src') \<le> fst codec"
      using line_decode_None_short [of "fst codec" "snd codec" src] res length_strip_cr [of src']
      by (metis le_trans prod.collapse)
    moreover have "0 < length src"
      using step True by (auto simp: line_step_ok_def)
    ultimately show ?thesis
      using True res step by (simp add: line_decode_eof_def line_step_ok_def)
  qed
qed

lemma simple_lines_ok: "lines_codec_ok simple_lines"
proof -
  have "\<exists>codec'. line_decode codec [] = (Inr None, codec', [])" for codec
    by (cases codec, cases "snd codec") (auto simp: take_line_def)
  then show ?thesis
    by (simp add: lines_codec_ok_def line_decode_ok line_decode_eof_ok)
qed

lemma position_newline:
  "10 \<notin> set line \<Longrightarrow> length line \<le> m \<Longrightarrow>
   position (\<lambda>b. b = 10) (take (m + 1) (line @ 10 # rest)) = Some (length line)"
  by (simp add: Suc_diff_le) (rule position_skip, auto)

lemma line_decode_no_newline:
  assumes "\<not> snd codec" and "10 \<notin> set src" and "length src \<le> fst codec"
  shows "line_decode codec src = (Inr None, (fst codec, False), src)"
proof -
  have "position (\<lambda>b. b = 10) (take (fst codec + 1) src) = None"
    using assms by (auto simp: byte_simps)
  with assms show ?thesis
    by (cases codec) (simp add: take_line_def)
qed

lemma simple_lines_splits: "lines_codec_splits simple_lines"
proof -
  have "\<exists>codec'. line_decode codec (line @ 10 # rest) = (Inr (Some (strip_cr line)), codec', rest)
      \<and> \<not> snd codec'"
    if "\<not> snd codec" "10 \<notin> set line" "length line \<le> fst codec" "valid_utf8 (strip_cr line)"
    for codec line rest
    using that position_newline [of line "fst codec" rest]
    by (cases codec) (simp add: take_line_def)
  moreover have "\<exists>codec'. line_decode_eof codec src =
        (if src = [] \<or> src = [13] then (Inr None, codec', src) else (Inr (Some (strip_cr src)), codec', []))
      \<and> \<not> snd codec'"
    if "\<not> snd codec" "10 \<notin> set src" "length src \<le> fst codec" "valid_utf8 (strip_cr src)" for codec src
    using that by (intro exI [of _ "(fst codec, False)"]) (simp add: line_decode_eof_def line_decode_no_newline)
  ultimately show ?thesis
    by (simp add: lines_codec_splits_def line_decode_no_newline)
qed

end
