(* ===== verification/Framing_Streams.thy ===== *)
theory Framing_Streams
  imports Framing Line_Codec_Instance
begin

text \<open>
  The framer over a stream that arrives in pieces. \<open>feed\<close> hands the framer one read
  after another and empties the buffer after each, as the connection loop does; the
  theorems say that the frames of a stream, octet counted ones and lines in any mixture, do
  not depend on where the reads end, and that the body of an oversize frame never comes
  out as messages.
\<close>

definition ends_fatal :: "(FrameError + bytes) list \<Rightarrow> bool" where
  "ends_fatal out = (case rev out of Inl e # _ \<Rightarrow> fatal e | _ \<Rightarrow> False)"

definition decode_fuel :: "bytes \<Rightarrow> nat" where
  "decode_fuel src = 2 * length src + 2"

fun feed ::
  "bool \<Rightarrow> 'lc lines_codec \<Rightarrow> 'lc Framer \<Rightarrow> bytes \<Rightarrow> bytes list
    \<Rightarrow> ((FrameError + bytes) list \<times> 'lc Framer \<times> bytes) option" where
  "feed chk L framer buffer [] = Some ([], framer, buffer)"
| "feed chk L framer buffer (chunk # chunks) =
     (case decode_all (decode_fuel (buffer @ chunk)) chk L framer (buffer @ chunk) of
        None \<Rightarrow> None
      | Some (out, framer', buffer') \<Rightarrow>
          if ends_fatal out then Some (out, framer', buffer')
          else map_option (\<lambda>(out', r). (out @ out', r)) (feed chk L framer' buffer' chunks))"

text \<open>An octet counted frame on the wire, and the messages that may be sent that way.\<close>

definition octet_frame :: "bytes \<Rightarrow> bytes" where
  "octet_frame m = decimal (length m) @ 32 # m"

definition sendable :: "nat \<Rightarrow> bytes \<Rightarrow> bool" where
  "sendable max_length m \<longleftrightarrow>
     valid_utf8 m \<and> 0 < length m \<and> length m \<le> max_length
     \<and> length (decimal (length m)) < max_length \<and> length (octet_frame m) \<le> usize_max"

text \<open>
  A frame as a sender writes it: octet counted, or as a line that ends in a newline or in a
  carriage return and a newline. A line must not look like the start of an octet counted
  frame.
\<close>

datatype frame = Octet bytes | Line bool bytes

fun frame_message :: "frame \<Rightarrow> bytes" where
  "frame_message (Octet m) = m"
| "frame_message (Line cr m) = m"

definition line_text :: "bool \<Rightarrow> bytes \<Rightarrow> bytes" where
  "line_text cr m = (if cr then m @ [13] else m)"

fun frame_bytes :: "frame \<Rightarrow> bytes" where
  "frame_bytes (Octet m) = octet_frame m"
| "frame_bytes (Line cr m) = line_text cr m @ [10]"

fun carried :: "nat \<Rightarrow> frame \<Rightarrow> bool" where
  "carried max_length (Octet m) = sendable max_length m"
| "carried max_length (Line cr m) \<longleftrightarrow>
     valid_utf8 m \<and> 10 \<notin> set m \<and> \<not> starts_octet m \<and> strip_cr (line_text cr m) = m
     \<and> length (line_text cr m) \<le> max_length"

text \<open>A line at the end of the stream that has not been terminated.\<close>

definition open_line :: "nat \<Rightarrow> bytes \<Rightarrow> bool" where
  "open_line max_length tail \<longleftrightarrow>
     valid_utf8 (strip_cr tail) \<and> 10 \<notin> set tail \<and> \<not> starts_octet tail \<and> length tail \<le> max_length"

section \<open>Termination of the decode loop\<close>

definition decode_measure :: "'lc lines_codec \<Rightarrow> 'lc Framer \<Rightarrow> bytes \<Rightarrow> nat" where
  "decode_measure L f src = 2 * length src + (if lc_discarding L (other f) then 0 else 1)"

lemma decode_all_returns:
  assumes "lines_codec_ok L"
  shows "decode_measure L f src < fuel \<Longrightarrow> \<exists>r. decode_all fuel False L f src = Some r"
proof (induction fuel arbitrary: f src)
  case (Suc fuel)
  obtain res where res: "decode False L f src = Some res"
    using decode_total by fastforce
  with decode_post [OF assms] have post: "frame_post L f src res" .
  show ?case
  proof (cases res rule: decoded_cases)
    case (1 e f' src')
    show ?thesis
    proof (cases "fatal e")
      case True
      with 1 res show ?thesis by simp
    next
      case False
      with 1 post have "decode_measure L f' src' < decode_measure L f src"
        by (auto simp: frame_post_def decode_measure_def dest: suffix_length_le)
      with Suc.prems have "\<exists>r. decode_all fuel False L f' src' = Some r"
        by (intro Suc.IH) simp
      with 1 False res show ?thesis by auto
    qed
  next
    case (2 f' src')
    with res show ?thesis by simp
  next
    case (3 m f' src')
    with post have "decode_measure L f' src' < decode_measure L f src"
      by (simp add: frame_post_def decode_measure_def)
    with Suc.prems have "\<exists>r. decode_all fuel False L f' src' = Some r"
      by (intro Suc.IH) simp
    with 3 res show ?thesis by auto
  qed
qed simp

lemma decode_measure_fuel: "decode_measure L f src < decode_fuel src"
  by (simp add: decode_measure_def decode_fuel_def)

lemma feed_returns:
  assumes "lines_codec_ok L"
  shows "\<exists>r. feed False L f buf chunks = Some r"
proof (induction chunks arbitrary: f buf)
  case (Cons c cs)
  obtain out f' buf' where
    "decode_all (decode_fuel (buf @ c)) False L f (buf @ c) = Some (out, f', buf')"
    using decode_all_returns [OF assms decode_measure_fuel] by (metis prod_cases3)
  moreover obtain out' r where "feed False L f' buf' cs = Some (out', r)"
    using Cons.IH by fastforce
  ultimately show ?case by simp
qed simp

section \<open>Reading one frame\<close>

lemma digits_not_separators:
  "b \<in> set (decimal n) \<Longrightarrow> b \<noteq> 32" "b \<in> set (decimal n) \<Longrightarrow> b \<noteq> 10"
  by (auto dest!: decimal_digits simp: is_digit_def)

lemma digit_less: "is_digit b \<Longrightarrow> b < 0x80"
  by (simp add: is_digit_def word_less_nat_alt word_le_nat_alt)

lemma decimal_valid_utf8: "valid_utf8 (decimal n)"
  by (rule valid_utf8_ascii) (auto dest!: decimal_digits digit_less)

lemma starts_octet_decimal: "0 < n \<Longrightarrow> starts_octet (decimal n @ r)"
  using hd_decimal [of n] by (cases "decimal n") (auto simp: starts_octet_def)

text \<open>A framer between frames, or one that has seen part of a length prefix.\<close>

definition ready :: "'lc Framer \<Rightarrow> bool" where
  "ready f \<longleftrightarrow> octet_decoding f = None \<or> octet_decoding f = Some NotDiscarding"

lemma decode_ready:
  assumes "ready f" and "starts_octet src"
  shows "decode chk L f src =
    octet_decode chk L (f\<lparr>octet_decoding := Some NotDiscarding\<rparr>) NotDiscarding src"
proof (cases "octet_decoding f")
  case None
  with assms show ?thesis by (simp add: decode_octet_start)
next
  case (Some st)
  with assms have st: "octet_decoding f = Some NotDiscarding"
    by (simp add: ready_def)
  then have eq: "f\<lparr>octet_decoding := Some NotDiscarding\<rparr> = f" by simp
  show ?thesis
    unfolding eq using st by (rule decode_octet_active)
qed

lemma octet_decode_header:
  assumes "length (decimal n) < lc_max_length L (other f)"
  shows "octet_decode chk L f NotDiscarding (decimal n @ 32 # r) =
    octet_decode_length chk L f (length (decimal n)) (decimal n @ 32 # r)"
proof -
  have "position (\<lambda>b. b = 32) (decimal n @ 32 # r) = Some (length (decimal n))"
    by (rule position_skip) (auto dest: digits_not_separators)
  with assms show ?thesis
    by (simp add: octet_decode_def)
qed

lemma decode_header:
  assumes "ready f" and "0 < n" and "length (decimal n) < lc_max_length L (other f)"
  shows "decode chk L f (decimal n @ 32 # r) =
    octet_decode_length chk L (f\<lparr>octet_decoding := Some NotDiscarding\<rparr>)
      (length (decimal n)) (decimal n @ 32 # r)"
  using assms by (simp add: decode_ready starts_octet_decimal octet_decode_header)

lemma octet_decode_length_header:
  assumes "n \<le> usize_max" and "length (decimal n) + 1 + n \<le> usize_max"
  shows "octet_decode_length chk L f (length (decimal n)) (decimal n @ 32 # r) =
    Some (if n > lc_max_length L (other f) then
            (Inr None, f\<lparr>octet_decoding := Some (Discarding n)\<rparr>, r)
          else if n \<le> length r then
            (if valid_utf8 (take n r) then Inr (Some (take n r))
             else Inl (FrameError_fatal InvalidUtf8), f\<lparr>octet_decoding := None\<rparr>, drop n r)
          else (Inr None, f, decimal n @ 32 # r))"
proof -
  have to: "usize_add (Suc (length (decimal n))) n = Suc (length (decimal n) + n)"
    using assms by (simp add: usize_add_def usize_max_def)
  have "get_range (Suc (length (decimal n))) (Suc (length (decimal n) + n)) (decimal n @ 32 # r)
      = (if n \<le> length r then Some (take n r) else None)"
    by (simp add: get_range_def)
  with assms to show ?thesis
    by (simp add: octet_decode_length_def decimal_valid_utf8 parse_uint_decimal Let_def
        byte_simps)
qed

lemma decode_octet_frame:
  assumes "ready f" and "sendable (lc_max_length L (other f)) m"
  shows "decode chk L f (octet_frame m @ rest) =
    Some (Inr (Some m), f\<lparr>octet_decoding := None\<rparr>, rest)"
proof -
  from assms(2) have "decode chk L f (octet_frame m @ rest) =
      octet_decode_length chk L (f\<lparr>octet_decoding := Some NotDiscarding\<rparr>)
        (length (decimal (length m))) (decimal (length m) @ 32 # m @ rest)"
    using decode_header [OF assms(1), of "length m" L chk "m @ rest"]
    by (simp add: sendable_def octet_frame_def)
  also have "\<dots> = Some (Inr (Some m), f\<lparr>octet_decoding := None\<rparr>, rest)"
    using assms(2) by (subst octet_decode_length_header) (auto simp: sendable_def octet_frame_def)
  finally show ?thesis .
qed

lemma octet_decode_digits:
  assumes "\<forall>b \<in> set p. b \<noteq> 32 \<and> b \<noteq> 10" and "length p < lc_max_length L (other f)"
  shows "octet_decode chk L f NotDiscarding p = Some (Inr None, f, p)"
proof -
  have "position (\<lambda>b. b = 32) p = None" and "position (\<lambda>b. b = 10) p = None"
    using assms(1) by (auto simp: byte_simps)
  with assms(2) show ?thesis
    by (simp add: octet_decode_def octet_decode_no_length_def)
qed

text \<open>Part of a length prefix: nothing comes out and nothing is consumed.\<close>

lemma decode_header_prefix:
  assumes "ready f" and "0 < n" and "length (decimal n) < lc_max_length L (other f)"
    and "prefix p (decimal n)" and "p \<noteq> []"
  shows "decode chk L f p = Some (Inr None, f\<lparr>octet_decoding := Some NotDiscarding\<rparr>, p)"
proof -
  from assms(4) obtain q where q: "decimal n = p @ q"
    by (auto simp: prefix_def)
  have "starts_octet p"
    using starts_octet_decimal [OF assms(2), of "[]"] q assms(5)
    by (cases p) (auto simp: starts_octet_def)
  moreover have "\<forall>b \<in> set p. b \<noteq> 32 \<and> b \<noteq> 10"
    using digits_not_separators [of _ n] q by auto
  moreover have "length p < lc_max_length L (other f)"
    using assms(3) q by simp
  ultimately show ?thesis
    using assms(1) by (simp add: decode_ready octet_decode_digits)
qed

lemma prefix_frame_cases:
  assumes "prefix b (h @ s # m)"
  obtains "prefix b h" | r where "b = h @ s # r" "prefix r m"
proof (cases "prefix b h")
  case True
  then show ?thesis by (rule that(1))
next
  case False
  with assms obtain z where z: "b = h @ z" "prefix z (s # m)"
    by (auto simp: prefix_append)
  with False have "z \<noteq> []" by auto
  with z obtain r where "z = s # r" "prefix r m"
    by (cases z) auto
  with z show ?thesis
    by (intro that(2)) simp_all
qed

text \<open>Part of a frame: nothing comes out and nothing is consumed.\<close>

lemma decode_frame_prefix:
  assumes "ready f" and "sendable (lc_max_length L (other f)) m"
    and "strict_prefix p (octet_frame m)" and "p \<noteq> []"
  shows "decode chk L f p = Some (Inr None, f\<lparr>octet_decoding := Some NotDiscarding\<rparr>, p)"
proof -
  have n: "0 < length m" "length (decimal (length m)) < lc_max_length L (other f)"
    using assms(2) by (auto simp: sendable_def)
  from assms(3) have "prefix p (decimal (length m) @ 32 # m)"
    by (simp add: octet_frame_def strict_prefix_def)
  then show ?thesis
  proof (cases rule: prefix_frame_cases)
    case 1
    with n assms(1,4) show ?thesis
      by (intro decode_header_prefix)
  next
    case (2 r)
    with assms(3) have "length r < length m"
      by (auto simp: octet_frame_def strict_prefix_def prefix_def)
    then show ?thesis
      using assms(2) decode_header [OF assms(1) n, of chk r]
      by (simp add: 2(1) octet_decode_length_header sendable_def octet_frame_def)
  qed
qed

lemma decode_empty:
  assumes "lines_codec_ok L" and "ready f" and "0 < lc_max_length L (other f)"
  shows "\<exists>f'. decode chk L f [] = Some (Inr None, f', []) \<and> ready f'
    \<and> lc_max_length L (other f') = lc_max_length L (other f)"
proof (cases "octet_decoding f")
  case None
  obtain codec where codec: "lc_decode L (other f) [] = (Inr None, codec, [])"
    using lines_codec_okD(4) [OF assms(1)] by blast
  moreover have "lc_max_length L codec = lc_max_length L (other f)"
    using lines_codec_okD(2) [OF assms(1), of "other f" "[]"] codec by (simp add: line_step_ok_def)
  ultimately show ?thesis
    using None by (simp add: decode_line starts_octet_def line_result_def ready_def)
next
  case (Some st)
  with assms(2) have st: "octet_decoding f = Some NotDiscarding"
    by (simp add: ready_def)
  then have "decode chk L f [] = octet_decode chk L f NotDiscarding []"
    by (rule decode_octet_active)
  also have "\<dots> = Some (Inr None, f, [])"
    using assms(3) by (intro octet_decode_digits) simp_all
  finally show ?thesis
    using assms(2) by simp
qed

section \<open>Streams of frames, whatever the reads\<close>

abbreviation wire :: "frame list \<Rightarrow> bytes" where
  "wire frs \<equiv> concat (map frame_bytes frs)"

text \<open>
  The framer between two calls, with the buffer \<open>b\<close>: the octet mode is only left on in front of
  a part of an octet counted frame, and the line codec has seen nothing of such a part.
\<close>

definition between_calls :: "'lc lines_codec \<Rightarrow> 'lc Framer \<Rightarrow> bytes \<Rightarrow> bool" where
  "between_calls L f b \<longleftrightarrow> lc_waiting L (other f) (if starts_octet b then [] else b)
     \<and> (octet_decoding f = None \<or> octet_decoding f = Some NotDiscarding \<and> starts_octet b)"

lemma between_calls_ready: "between_calls L f b \<Longrightarrow> ready f"
  by (auto simp: between_calls_def ready_def)

lemma starts_octet_append: "b \<noteq> [] \<Longrightarrow> starts_octet (b @ c) = starts_octet b"
  by (cases b) (simp_all add: starts_octet_def)

lemma not_starts_octet_Nil [simp]: "\<not> starts_octet []"
  by (simp add: starts_octet_def)

lemma between_calls_start:
  assumes "lines_codec_splits L" and "octet_decoding f = None" and "lc_waiting L (other f) []"
  shows "between_calls L f b"
  using assms lines_codec_splitsD(2) [OF assms(1), of "other f" "[]" b] by (simp add: between_calls_def)

lemma between_calls_append:
  assumes "lines_codec_splits L" and "between_calls L f b"
  shows "between_calls L f (b @ c)"
proof (cases "b = []")
  case True
  with assms(2) have "octet_decoding f = None" "lc_waiting L (other f) []"
    by (auto simp: between_calls_def)
  then show ?thesis
    by (rule between_calls_start [OF assms(1)])
next
  case False
  with assms lines_codec_splitsD(2) [OF assms(1), of "other f" b c] show ?thesis
    by (auto simp: between_calls_def starts_octet_append)
qed

lemma codec_max_length:
  "lines_codec_ok L \<Longrightarrow> lc_decode L codec src = (r, codec', src') \<Longrightarrow>
   lc_max_length L codec' = lc_max_length L codec"
  using lines_codec_okD(2) [of L codec src] by (simp add: line_step_ok_def)

lemma starts_octet_line:
  "\<not> starts_octet m \<Longrightarrow> \<not> starts_octet (line_text cr m @ 10 # rest)"
  by (cases m) (simp_all add: starts_octet_def line_text_def)

text \<open>A buffer that begins with a whole frame: its message comes out.\<close>

lemma decode_whole_frame:
  assumes "lines_codec_ok L" and "lines_codec_splits L"
    and "carried (lc_max_length L (other f)) fr" and "between_calls L f (frame_bytes fr @ rest)"
  shows "\<exists>f'. decode chk L f (frame_bytes fr @ rest) = Some (Inr (Some (frame_message fr)), f', rest)
    \<and> between_calls L f' rest \<and> lc_max_length L (other f') = lc_max_length L (other f)"
proof (cases fr)
  case (Octet m)
  have "starts_octet (frame_bytes fr @ rest)"
    using assms(3) Octet by (simp add: octet_frame_def sendable_def starts_octet_decimal)
  then have "lc_waiting L (other f) []"
    using assms(4) by (simp add: between_calls_def)
  then have "between_calls L (f\<lparr>octet_decoding := None\<rparr>) rest"
    by (simp add: between_calls_start [OF assms(2)])
  then show ?thesis
    using decode_octet_frame [OF between_calls_ready [OF assms(4)]] assms(3) Octet by simp
next
  case (Line cr m)
  let ?src = "line_text cr m @ 10 # rest"
  have line: "10 \<notin> set (line_text cr m)" "length (line_text cr m) \<le> lc_max_length L (other f)"
      "strip_cr (line_text cr m) = m" "valid_utf8 m"
    using assms(3) Line by (auto simp: line_text_def)
  have ns: "\<not> starts_octet ?src"
    using assms(3) Line by (simp add: starts_octet_line)
  then have f: "octet_decoding f = None" "lc_waiting L (other f) ?src"
    using assms(4) Line by (simp_all add: between_calls_def)
  with line obtain codec where codec: "lc_decode L (other f) ?src = (Inr (Some m), codec, rest)"
      "lc_waiting L codec []"
    using lines_codec_splitsD(3) [OF assms(2) f(2) line(1,2)] by auto
  have "between_calls L (f\<lparr>other := codec\<rparr>) rest"
    using f(1) codec(2) by (intro between_calls_start [OF assms(2)]) simp_all
  then show ?thesis
    using Line f(1) ns codec codec_max_length [OF assms(1) codec(1)]
    by (simp add: decode_line line_result_def)
qed

lemma strict_prefix_snoc: "strict_prefix p (xs @ [x]) \<Longrightarrow> prefix p xs"
  by (auto simp: strict_prefix_def prefix_def append_eq_append_conv2 Cons_eq_append_conv)

text \<open>A buffer that holds a part of a frame: nothing comes out and nothing is consumed.\<close>

lemma decode_part_line:
  assumes "lines_codec_ok L" and "lines_codec_splits L" and "\<not> starts_octet p" and "between_calls L f p"
    and "10 \<notin> set p" and "length p \<le> lc_max_length L (other f)"
  shows "\<exists>f'. decode chk L f p = Some (Inr None, f', p)
    \<and> between_calls L f' p \<and> lc_max_length L (other f') = lc_max_length L (other f)"
proof -
  from assms(3,4) have f: "octet_decoding f = None" "lc_waiting L (other f) p"
    by (simp_all add: between_calls_def)
  then obtain codec where codec: "lc_decode L (other f) p = (Inr None, codec, p)" "lc_waiting L codec p"
    using lines_codec_splitsD(4) [OF assms(2) f(2) assms(5,6)] by blast
  with f(1) assms(3) codec_max_length [OF assms(1) codec(1)] show ?thesis
    by (simp add: decode_line line_result_def between_calls_def)
qed

lemma decode_part_frame:
  assumes "lines_codec_ok L" and "lines_codec_splits L"
    and "carried (lc_max_length L (other f)) fr" and "between_calls L f p" and "strict_prefix p (frame_bytes fr)"
  shows "\<exists>f'. decode chk L f p = Some (Inr None, f', p)
    \<and> between_calls L f' p \<and> lc_max_length L (other f') = lc_max_length L (other f)"
proof (cases fr)
  case (Octet m)
  show ?thesis
  proof (cases "p = []")
    case True
    with assms(1,2,4) show ?thesis
      by (intro decode_part_line) simp_all
  next
    case False
    obtain q where "octet_frame m = p @ q"
      using assms(5) Octet by (auto simp: strict_prefix_def prefix_def)
    moreover have "starts_octet (octet_frame m)"
      using assms(3) Octet by (simp add: octet_frame_def sendable_def starts_octet_decimal)
    ultimately have "starts_octet p"
      using False by (simp add: starts_octet_append)
    with decode_frame_prefix [OF between_calls_ready [OF assms(4)] _ _ False, of L m chk] assms(3-5) Octet
    show ?thesis
      by (simp add: between_calls_def)
  qed
next
  case (Line cr m)
  then have "prefix p (line_text cr m)"
    using assms(5) by (simp add: strict_prefix_snoc)
  then obtain q where q: "line_text cr m = p @ q"
    by (auto simp: prefix_def)
  have "\<not> starts_octet (p @ q @ [10])"
    using starts_octet_line [of m cr "[]"] assms(3) Line q by simp
  then have "\<not> starts_octet p"
    by (cases "p = []") (simp_all add: starts_octet_append)
  moreover have "10 \<notin> set (line_text cr m)"
    using assms(3) Line by (auto simp: line_text_def)
  moreover have "length (line_text cr m) \<le> lc_max_length L (other f)"
    using assms(3) Line by simp
  ultimately show ?thesis
    using assms(1,2,4) q by (intro decode_part_line) simp_all
qed

lemma prefix_concat_cases:
  assumes "prefix b (x @ y)"
  obtains "strict_prefix b x" | b' where "b = x @ b'" "prefix b' y"
proof (cases "strict_prefix b x")
  case True
  then show ?thesis by (rule that(1))
next
  case False
  with assms have "b = x \<or> (\<exists>b'. b = x @ b' \<and> prefix b' y)"
    by (auto simp: prefix_append strict_prefix_def)
  then show ?thesis
    by (auto intro: that(2))
qed

lemma not_ends_fatal_msgs: "\<not> ends_fatal (map Inr msgs)"
  by (cases msgs rule: rev_cases) (simp_all add: ends_fatal_def)

lemma decode_all_stop:
  "decode chk L f b = Some (Inr None, f', b') \<Longrightarrow> 0 < fuel \<Longrightarrow>
   decode_all fuel chk L f b = Some ([], f', b')"
  by (cases fuel) simp_all

text \<open>
  Emptying a buffer that holds a prefix of the stream: the complete frames come out and
  the part of the next one, or of the line left open at the end, stays.
\<close>

lemma frame_bytes_nonempty: "frame_bytes fr \<noteq> []"
  by (cases fr) (simp_all add: octet_frame_def)

lemma open_line_prefix:
  assumes "open_line k tail" and "prefix b tail"
  shows "\<not> starts_octet b" and "10 \<notin> set b" and "length b \<le> k"
proof -
  obtain q where "tail = b @ q"
    using assms(2) by (auto simp: prefix_def)
  with assms(1) show "\<not> starts_octet b" and "10 \<notin> set b" and "length b \<le> k"
    by (cases "b = []"; simp add: open_line_def starts_octet_append)+
qed

lemma decode_all_wire:
  assumes "lines_codec_ok L" and "lines_codec_splits L" and "open_line k tail"
  shows "\<forall>fr \<in> set frs. carried k fr \<Longrightarrow> between_calls L f b \<Longrightarrow>
    lc_max_length L (other f) = k \<Longrightarrow> prefix b (wire frs @ tail) \<Longrightarrow> length b < fuel \<Longrightarrow>
    \<exists>sent rest b' f'. frs = sent @ rest \<and> b = wire sent @ b' \<and> prefix b' (wire rest @ tail)
      \<and> between_calls L f' b' \<and> lc_max_length L (other f') = k
      \<and> decode_all fuel chk L f b = Some (map (\<lambda>fr. Inr (frame_message fr)) sent, f', b')
      \<and> (b' = wire rest @ tail \<longrightarrow> rest = [])"
proof (induction frs arbitrary: f b fuel)
  case Nil
  then have b: "\<not> starts_octet b" "10 \<notin> set b" "length b \<le> lc_max_length L (other f)"
    using open_line_prefix [OF assms(3), of b] by simp_all
  obtain f' where "decode chk L f b = Some (Inr None, f', b)" "between_calls L f' b"
      "lc_max_length L (other f') = k"
    using decode_part_line [OF assms(1,2) b(1) Nil.prems(2) b(2,3)] Nil.prems(3) by auto
  with Nil.prems show ?case
    by (auto simp: decode_all_stop)
next
  case (Cons fr frs)
  have fr: "carried (lc_max_length L (other f)) fr"
    using Cons.prems by simp
  from Cons.prems(4) have "prefix b (frame_bytes fr @ wire frs @ tail)"
    by simp
  then show ?case
  proof (cases rule: prefix_concat_cases)
    case 1
    from decode_part_frame [OF assms(1,2) fr Cons.prems(2) 1] obtain f' where
        "decode chk L f b = Some (Inr None, f', b)" "between_calls L f' b" "lc_max_length L (other f') = k"
      using Cons.prems(3) by auto
    moreover have "0 < fuel" using Cons.prems(5) by simp
    moreover have "b \<noteq> wire (fr # frs) @ tail"
      using 1 by (auto simp: strict_prefix_def prefix_def)
    ultimately show ?thesis
      using Cons.prems(4) by (intro exI [of _ "[]"] exI [of _ "fr # frs"] exI [of _ b] exI [of _ f'])
        (simp add: decode_all_stop)
  next
    case (2 b')
    obtain fuel' where fuel: "fuel = Suc fuel'"
      using Cons.prems(5) by (cases fuel) auto
    have "length b' < fuel'"
      using 2(1) Cons.prems(5) frame_bytes_nonempty [of fr] by (cases "frame_bytes fr") (simp_all add: fuel)
    moreover from decode_whole_frame [OF assms(1,2) fr] Cons.prems(2,3) obtain f' where
        f': "decode chk L f b = Some (Inr (Some (frame_message fr)), f', b')" "between_calls L f' b'"
          "lc_max_length L (other f') = k"
      unfolding 2(1) by blast
    ultimately obtain sent rest b'' f'' where IH: "frs = sent @ rest" "b' = wire sent @ b''"
        "prefix b'' (wire rest @ tail)" "between_calls L f'' b''" "lc_max_length L (other f'') = k"
        "decode_all fuel' chk L f' b' = Some (map (\<lambda>fr. Inr (frame_message fr)) sent, f'', b'')"
        "b'' = wire rest @ tail \<longrightarrow> rest = []"
      using Cons.IH [of f' b' fuel'] Cons.prems(1) 2(2) by auto
    then show ?thesis
      using f'(1) 2(1)
      by (intro exI [of _ "fr # sent"] exI [of _ rest] exI [of _ b''] exI [of _ f'']) (simp add: fuel)
  qed
qed

lemma feed_wire:
  assumes "lines_codec_ok L" and "lines_codec_splits L" and "open_line k tail"
  shows "\<forall>fr \<in> set frs. carried k fr \<Longrightarrow> between_calls L f b \<Longrightarrow> lc_max_length L (other f) = k \<Longrightarrow>
    b @ concat chunks = wire frs @ tail \<Longrightarrow> (b = wire frs @ tail \<longrightarrow> frs = []) \<Longrightarrow>
    \<exists>f'. feed chk L f b chunks = Some (map (\<lambda>fr. Inr (frame_message fr)) frs, f', tail)"
proof (induction chunks arbitrary: f b frs)
  case Nil
  then show ?case by simp
next
  case (Cons c cs)
  have all: "(b @ c) @ concat cs = wire frs @ tail"
    using Cons.prems(4) by simp
  then have "prefix (b @ c) (wire frs @ tail)"
    by (rule prefixI [OF sym])
  moreover have "length (b @ c) < decode_fuel (b @ c)"
    by (simp add: decode_fuel_def)
  ultimately obtain sent rest b' f' where step: "frs = sent @ rest" "b @ c = wire sent @ b'"
      "between_calls L f' b'" "lc_max_length L (other f') = k"
      "decode_all (decode_fuel (b @ c)) chk L f (b @ c)
        = Some (map (\<lambda>fr. Inr (frame_message fr)) sent, f', b')"
      "b' = wire rest @ tail \<longrightarrow> rest = []"
    using decode_all_wire [OF assms Cons.prems(1) between_calls_append [OF assms(2) Cons.prems(2)] Cons.prems(3),
        of c "decode_fuel (b @ c)" chk] by blast
  moreover have "b' @ concat cs = wire rest @ tail"
    using all unfolding step(1,2) by simp
  ultimately obtain f'' where "feed chk L f' b' cs = Some (map (\<lambda>fr. Inr (frame_message fr)) rest, f'', tail)"
    using Cons.IH [of rest f' b'] Cons.prems(1) by auto
  with step not_ends_fatal_msgs [of "map frame_message sent"] show ?case
    by (simp add: comp_def)
qed

text \<open>At the end of the input the line left open is the last message.\<close>

lemma open_line_Nil [simp]: "open_line k []"
  by (simp add: open_line_def strip_cr_def)

lemma decode_eof_open_line:
  assumes "lines_codec_splits L" and "between_calls L f tail" and "open_line (lc_max_length L (other f)) tail"
  shows "\<exists>f'. decode_eof chk L f tail = Some (if tail = [] \<or> tail = [13] then (Inr None, f', tail)
      else (Inr (Some (strip_cr tail)), f', [])) \<and> between_calls L f' []"
proof -
  from assms(2,3) have f: "octet_decoding f = None" "lc_waiting L (other f) tail" "\<not> starts_octet tail"
    by (simp_all add: between_calls_def open_line_def)
  then obtain codec where "lc_decode_eof L (other f) tail =
      (if tail = [] \<or> tail = [13] then (Inr None, codec, tail) else (Inr (Some (strip_cr tail)), codec, []))"
      "lc_waiting L codec []"
    using lines_codec_splitsD(5) [OF assms(1) f(2)] assms(3) by (auto simp: open_line_def)
  with f show ?thesis
    by (simp add: decode_line line_result_def between_calls_def)
qed

lemma Framer_new_between_calls:
  assumes "lines_codec_ok L" and "lines_codec_splits L"
  shows "between_calls L (Framer_new L k) b" and "lc_max_length L (other (Framer_new L k)) = k"
  using lines_codec_okD(1) [OF assms(1)] lines_codec_splitsD(1) [OF assms(2)]
  by (auto simp: Framer_new_def intro: between_calls_start [OF assms(2)])

section \<open>Oversize frames, whatever the reads\<close>

lemma ends_fatal_Oversize [simp]: "ends_fatal [Inl (FrameError_fatal r)]"
  by (simp add: ends_fatal_def)

lemma not_ends_fatal_Nil [simp]: "\<not> ends_fatal []"
  by (simp add: ends_fatal_def)

lemma decode_Discarding:
  assumes "octet_decoding f = Some (Discarding k)"
  shows "decode chk L f b =
    Some (if k \<le> length b then (Inl (FrameError_fatal Oversize), f\<lparr>octet_decoding := None\<rparr>, drop k b)
          else (Inr None, f\<lparr>octet_decoding := Some (Discarding (k - length b))\<rparr>, []))"
  using assms by (simp add: decode_octet_active octet_decode_def advance_def)

lemma decode_all_fatal:
  "decode chk L f b = Some (Inl (FrameError_fatal r), f', b') \<Longrightarrow> 0 < fuel \<Longrightarrow>
   decode_all fuel chk L f b = Some ([Inl (FrameError_fatal r)], f', b')"
  by (cases fuel) simp_all

lemma decode_fuel_pos [simp]: "0 < decode_fuel b"
  by (simp add: decode_fuel_def)

lemma feed_Discarding:
  "octet_decoding f = Some (Discarding k) \<Longrightarrow> chunks \<noteq> [] \<Longrightarrow> k \<le> length (b @ concat chunks) \<Longrightarrow>
   \<exists>f' b'. feed chk L f b chunks = Some ([Inl (FrameError_fatal Oversize)], f', b')"
proof (induction chunks arbitrary: f b k)
  case (Cons c cs)
  show ?case
  proof (cases "k \<le> length (b @ c)")
    case True
    with Cons.prems(1) show ?thesis
      by (simp add: decode_Discarding decode_all_fatal)
  next
    case False
    let ?f = "f\<lparr>octet_decoding := Some (Discarding (k - length (b @ c)))\<rparr>"
    have "decode_all (decode_fuel (b @ c)) chk L f (b @ c) = Some ([], ?f, [])"
      using Cons.prems(1) False by (intro decode_all_stop) (simp_all add: decode_Discarding)
    moreover from False Cons.prems(3) have "cs \<noteq> []"
        "k - length (b @ c) \<le> length ([] @ concat cs)" by auto
    then obtain f' b' where "feed chk L ?f [] cs = Some ([Inl (FrameError_fatal Oversize)], f', b')"
      using Cons.IH [of ?f "k - length (b @ c)" "[]"] by auto
    ultimately show ?thesis by simp
  qed
qed simp

lemma decode_oversize_header:
  assumes "ready f" and "lc_max_length L (other f) < n" and "n \<le> usize_max"
    and "length (decimal n) < lc_max_length L (other f)"
  shows "decode False L f (decimal n @ 32 # r) =
    Some (Inr None, f\<lparr>octet_decoding := Some (Discarding n)\<rparr>, r)"
proof -
  have "0 < n" using assms(2) by simp
  with decode_header [OF assms(1) _ assms(4)] assms(2,3) show ?thesis
    by (simp add: octet_decode_length_def decimal_valid_utf8 parse_uint_decimal Let_def byte_simps)
qed

lemma feed_oversize_header:
  assumes "lines_codec_ok L" and "k < n" and "n \<le> usize_max" and "length (decimal n) < k"
  shows "ready f \<Longrightarrow> lc_max_length L (other f) = k \<Longrightarrow> prefix b (decimal n) \<Longrightarrow>
    b @ concat chunks = decimal n @ 32 # r \<Longrightarrow> n \<le> length r \<Longrightarrow>
    \<exists>f' b'. feed False L f b (chunks @ [c]) = Some ([Inl (FrameError_fatal Oversize)], f', b')"
proof (induction chunks arbitrary: f b)
  case Nil
  then show ?case by (auto dest: prefix_length_le)
next
  case (Cons c0 cs)
  have "prefix (b @ c0) (decimal n @ 32 # r)"
    using Cons.prems(4) by (metis append.assoc concat.simps(2) prefixI)
  then show ?case
  proof (cases rule: prefix_frame_cases)
    case 1
    have "\<exists>f'. decode False L f (b @ c0) = Some (Inr None, f', b @ c0) \<and> ready f'
        \<and> lc_max_length L (other f') = k"
    proof (cases "b @ c0 = []")
      case True
      with decode_empty [OF assms(1) Cons.prems(1)] Cons.prems(2) assms(4) show ?thesis
        by fastforce
    next
      case False
      have "decode False L f (b @ c0)
          = Some (Inr None, f\<lparr>octet_decoding := Some NotDiscarding\<rparr>, b @ c0)"
        using decode_header_prefix [OF Cons.prems(1) _ _ 1 False] Cons.prems(2) assms(2,4)
        by simp
      with Cons.prems(2) show ?thesis
        by (simp add: ready_def)
    qed
    then obtain f' where f': "decode False L f (b @ c0) = Some (Inr None, f', b @ c0)"
        "ready f'" "lc_max_length L (other f') = k"
      by blast
    from f'(1) have "decode_all (decode_fuel (b @ c0)) False L f (b @ c0) = Some ([], f', b @ c0)"
      by (rule decode_all_stop) simp
    moreover obtain f'' b'' where
      "feed False L f' (b @ c0) (cs @ [c]) = Some ([Inl (FrameError_fatal Oversize)], f'', b'')"
      using Cons.IH [OF f'(2,3) 1] Cons.prems(4,5) by auto
    ultimately show ?thesis by simp
  next
    case (2 r0)
    let ?f = "f\<lparr>octet_decoding := Some (Discarding n)\<rparr>"
    have "decode False L f (b @ c0) = Some (Inr None, ?f, r0)"
      using Cons.prems(2) assms(2-4) by (simp only: 2(1)) (rule decode_oversize_header [OF Cons.prems(1)], simp_all)
    then have "decode_all (decode_fuel (b @ c0)) False L f (b @ c0) = Some ([], ?f, r0)"
      by (rule decode_all_stop) simp
    moreover have "(b @ c0) @ concat cs = decimal n @ 32 # r"
      using Cons.prems(4) by simp
    then have "r0 @ concat cs = r"
      by (simp add: 2(1))
    then obtain f' b' where
      "feed False L ?f r0 (cs @ [c]) = Some ([Inl (FrameError_fatal Oversize)], f', b')"
      using feed_Discarding [of ?f n "cs @ [c]" r0 False L] Cons.prems(5) by auto
    ultimately show ?thesis by simp
  qed
qed

section \<open>Properties of the framer\<close>

text \<open>
  C6. Messages survive the wire whatever the reads: a new framer that is fed any list of
  frames, octet counted or lines in any mixture, cut into reads at any points, delivers exactly
  the messages sent, in order, and keeps back only the line that is not yet ended.
\<close>

theorem framed_stream_any_reads:
  assumes "lines_codec_ok L" and "lines_codec_splits L"
    and "\<forall>fr \<in> set frs. carried max_length fr" and "open_line max_length tail"
    and "concat chunks = concat (map frame_bytes frs) @ tail"
  shows "\<exists>f. feed chk L (Framer_new L max_length) [] chunks
    = Some (map (\<lambda>fr. Inr (frame_message fr)) frs, f, tail)"
proof -
  have "[] = wire frs @ tail \<longrightarrow> frs = []"
    by (cases frs) (simp_all add: frame_bytes_nonempty)
  moreover have "[] @ concat chunks = wire frs @ tail"
    using assms(5) by simp
  ultimately show ?thesis
    using Framer_new_between_calls [OF assms(1,2)] by (intro feed_wire [OF assms(1,2,4,3)]) simp_all
qed

theorem framed_stream_any_reads_witness:
  "\<exists>f. feed False simple_lines (Framer_new simple_lines 64) []
     [[50, 32], [104], [105, 60], [], [49, 62, 13], [10, 51, 32, 97, 10], [98, 60, 50]]
   = Some ([Inr [104, 105], Inr [60, 49, 62], Inr [97, 10, 98]], f, [60, 50])"
proof -
  let ?frs = "[Octet [104, 105], Line True [60, 49, 62], Octet [97, 10, 98]]"
  have "\<forall>fr \<in> set ?frs. carried 64 fr"
    by (simp add: sendable_def octet_frame_def decimal.simps usize_max_def line_text_def strip_cr_def
        starts_octet_def)
  moreover have "open_line 64 [60, 50]"
    by (simp add: open_line_def strip_cr_def starts_octet_def)
  moreover have "concat [[50, 32], [104], [105, 60], [], [49, 62, 13], [10, 51, 32, 97, 10], [98, 60, 50]]
      = concat (map frame_bytes ?frs) @ [60, 50]"
    by (simp add: octet_frame_def decimal.simps digit_byte_def line_text_def)
  ultimately show ?thesis
    using framed_stream_any_reads [OF simple_lines_ok simple_lines_splits, of ?frs 64 "[60, 50]"] by fastforce
qed

text \<open>
  C7. The body of an oversize frame is never handed over as messages: a frame whose
  declared length is above the maximum is answered by exactly one fatal rejection and no
  message, wherever the reads end, digits at the front of a read included. (The last read
  \<open>c\<close> may be empty: it stands for the end of the stream.)
\<close>

theorem oversize_frame_any_reads:
  assumes "lines_codec_ok L" and "max_length < n" and "n \<le> usize_max"
    and "length (decimal n) < max_length"
    and "concat chunks = decimal n @ 32 # body @ rest" and "length body = n"
  shows "\<exists>f b. feed False L (Framer_new L max_length) [] (chunks @ [c])
    = Some ([Inl (FrameError_fatal Oversize)], f, b)"
proof -
  have "ready (Framer_new L max_length)"
      "lc_max_length L (other (Framer_new L max_length)) = max_length"
    using lines_codec_okD(1) [OF assms(1)] by (simp_all add: ready_def Framer_new_def)
  then show ?thesis
    using assms(5,6) by (intro feed_oversize_header [OF assms(1-4), where r = "body @ rest"]) simp_all
qed

theorem oversize_frame_any_reads_witness:
  "\<exists>f b. feed False simple_lines (Framer_new simple_lines 3) []
     ([[53], [32], [49, 32], [97, 49, 50], [49, 32, 97]] @ [[]])
   = Some ([Inl (FrameError_fatal Oversize)], f, b)"
proof -
  have "concat [[53], [32], [49, 32], [97, 49, 50], [49, 32, 97]]
      = decimal 5 @ 32 # [49, 32, 97, 49, 50] @ [49, 32, 97]"
    by (simp add: decimal.simps digit_byte_def)
  then show ?thesis
    by (intro oversize_frame_any_reads [OF simple_lines_ok, where n = 5
          and body = "[49, 32, 97, 49, 50]" and rest = "[49, 32, 97]"])
      (simp_all add: decimal.simps usize_max_def)
qed

text \<open>
  Every delivered frame is valid UTF-8 and no longer than the maximum, and taking it
  shortens the buffer, of which the framer only ever drops a prefix. The first is what
  the unchecked conversion of a stream message to a string relies on.
\<close>

lemma delivered_frame_valid:
  assumes "lines_codec_ok L"
    and "decode chk L f src = Some (Inr (Some m), f', src') \<or>
         decode_eof chk L f src = Some (Inr (Some m), f', src')"
  shows "valid_utf8 m \<and> length m \<le> lc_max_length L (other f) \<and> suffix src' src
    \<and> length src' < length src \<and> lc_max_length L (other f') = lc_max_length L (other f)"
proof -
  have "frame_post L f src (Inr (Some m), f', src')"
    using assms by (auto intro: decode_post decode_eof_post)
  then show ?thesis
    by (simp add: frame_post_def)
qed

lemma decode_hi:
  "decode False simple_lines (Framer_new simple_lines 64) [50, 32, 104, 105]
     = Some (Inr (Some [104, 105]), Framer_new simple_lines 64, [])"
  using decode_octet_frame [of "Framer_new simple_lines 64" simple_lines "[104, 105]" False "[]"]
  by (simp add: ready_def Framer_new_def sendable_def octet_frame_def decimal.simps
      digit_byte_def usize_max_def)

text \<open>
  C25. The decode loop ends: in a release build no call of the framer panics, and emptying
  a buffer returns after at most \<open>2 * length src + 2\<close> calls, whatever the buffer holds and
  whatever the framer's state.
\<close>

theorem decode_loop_returns:
  assumes "lines_codec_ok L"
  shows "\<exists>out f' src'. decode_all (decode_fuel src) False L f src = Some (out, f', src')"
  using decode_all_returns [OF assms decode_measure_fuel] by (metis prod_cases3)

theorem decode_loop_returns_witness:
  "\<exists>out f' src'. decode_all (decode_fuel [49, 49]) False simple_lines (Framer_new simple_lines 1) [49, 49]
     = Some (out, f', src')"
  by (rule decode_loop_returns [OF simple_lines_ok])

text \<open>
  Which rejections end the connection: only an overlong line in newline mode is
  recoverable. It is reported as oversize, leaves the framer in newline mode and makes
  the line codec skip that line. Every error of the octet counting decoder, and every line that is
  not UTF-8, is fatal.
\<close>

lemma recoverable_only_overlong_line:
  assumes "lines_codec_ok L"
    and "decode chk L f src = Some (Inl e, f', src')" and "\<not> fatal e"
  shows "octet_decoding f = None \<and> \<not> starts_octet src \<and> reason e = Oversize
    \<and> octet_decoding f' = None \<and> lc_discarding L (other f')"
  using decode_post [OF assms(1,2)] assms(3) by (auto simp: frame_post_def)

lemma decode_overlong_line:
  "decode False simple_lines (Framer_new simple_lines 3) [60, 60, 60, 60]
     = Some (Inl (FrameError_recoverable Oversize), \<lparr>other = (3, True), octet_decoding = None\<rparr>,
         [60, 60, 60, 60])"
  by (simp add: Framer_new_def decode_line starts_octet_def line_result_def take_line_def)

text \<open>
  C37. A read boundary inside an overlong line lets its tail pass as a message: the framer
  chooses the decoder by the first byte of the buffer alone, so while the line codec is
  still skipping an overlong line, a read that begins with an octet counted frame has that
  frame delivered, and the codec still skips afterwards.
\<close>

theorem overlong_line_tail_delivered:
  assumes "octet_decoding f = None" and "lc_discarding L (other f)"
    and "sendable (lc_max_length L (other f)) m"
  shows "\<exists>f'. decode chk L f (octet_frame m @ rest) = Some (Inr (Some m), f', rest)
    \<and> lc_discarding L (other f')"
  using assms decode_octet_frame [of f L m chk rest] by (simp add: ready_def)

theorem overlong_line_tail_delivered_witness:
  "\<exists>f'. decode False simple_lines \<lparr>other = (3, True), octet_decoding = None\<rparr> [50, 32, 104, 105]
     = Some (Inr (Some [104, 105]), f', []) \<and> lc_discarding simple_lines (other f')"
proof -
  let ?f = "\<lparr>other = (3, True), octet_decoding = None\<rparr> :: (nat \<times> bool) Framer"
  have "sendable (lc_max_length simple_lines (other ?f)) [104, 105]"
    by (simp add: sendable_def octet_frame_def decimal.simps usize_max_def)
  then show ?thesis
    using overlong_line_tail_delivered [of ?f simple_lines "[104, 105]" False "[]"]
    by (simp add: octet_frame_def decimal.simps digit_byte_def)
qed

lemma decode_all_unfold:
  "0 < fuel \<Longrightarrow> decode chk L f b = Some (Inl e, f', b') \<Longrightarrow> \<not> fatal e \<Longrightarrow>
   decode_all fuel chk L f b
     = map_option (\<lambda>(out, r). (Inl e # out, r)) (decode_all (fuel - 1) chk L f' b')"
  "0 < fuel \<Longrightarrow> decode chk L f b = Some (Inr (Some m), f', b') \<Longrightarrow>
   decode_all fuel chk L f b
     = map_option (\<lambda>(out, r). (Inr m # out, r)) (decode_all (fuel - 1) chk L f' b')"
  by (cases fuel; simp)+

lemma decode_skipping_line:
  "\<not> starts_octet src \<Longrightarrow> \<forall>b \<in> set src. b \<noteq> 10 \<Longrightarrow>
   decode False simple_lines \<lparr>other = (n, True), octet_decoding = None\<rparr> src
     = Some (Inr None, \<lparr>other = (n, True), octet_decoding = None\<rparr>, [])"
proof -
  assume a: "\<not> starts_octet src" "\<forall>b \<in> set src. b \<noteq> 10"
  then have "position (\<lambda>b. b = 10) src = None"
    by (auto simp: byte_simps)
  with a show ?thesis
    by (simp add: decode_line line_result_def)
qed

lemma decode_overlong_line_whole:
  "decode False simple_lines (Framer_new simple_lines 3) [60, 60, 60, 60, 50, 32, 104, 105]
     = Some (Inl (FrameError_recoverable Oversize), \<lparr>other = (3, True), octet_decoding = None\<rparr>,
         [60, 60, 60, 60, 50, 32, 104, 105])"
  by (simp add: Framer_new_def decode_line starts_octet_def line_result_def take_line_def)

lemma decode_hi_skipping:
  "decode False simple_lines \<lparr>other = (3, True), octet_decoding = None\<rparr> [50, 32, 104, 105]
     = Some (Inr (Some [104, 105]), \<lparr>other = (3, True), octet_decoding = None\<rparr>, [])"
  using decode_octet_frame [of "\<lparr>other = (3, True), octet_decoding = None\<rparr>" simple_lines
      "[104, 105]" False "[]"]
  by (simp add: ready_def sendable_def octet_frame_def decimal.simps digit_byte_def usize_max_def)

text \<open>
  The outcome of an overlong line depends on where the reads end: the same bytes are
  rejected and skipped as one read, and deliver a message when a read ends inside the line.
\<close>

lemma overlong_line_depends_on_reads:
  "map_option fst (feed False simple_lines (Framer_new simple_lines 3) []
      [[60, 60, 60, 60], [50, 32, 104, 105]])
     = Some [Inl (FrameError_recoverable Oversize), Inr [104, 105]]
   \<and> map_option fst (feed False simple_lines (Framer_new simple_lines 3) []
      [[60, 60, 60, 60, 50, 32, 104, 105]])
     = Some [Inl (FrameError_recoverable Oversize)]"
proof -
  let ?f = "\<lparr>other = (3, True), octet_decoding = None\<rparr> :: (nat \<times> bool) Framer"
  have empty: "decode False simple_lines ?f [] = Some (Inr None, ?f, [])"
    by (rule decode_skipping_line) (simp_all add: starts_octet_def)
  have skip: "decode False simple_lines ?f [60, 60, 60, 60] = Some (Inr None, ?f, [])"
      "decode False simple_lines ?f [60, 60, 60, 60, 50, 32, 104, 105] = Some (Inr None, ?f, [])"
    by (rule decode_skipping_line; simp add: starts_octet_def)+
  show ?thesis
    by (simp add: decode_all_unfold decode_all_stop decode_overlong_line decode_overlong_line_whole
        skip empty decode_hi_skipping ends_fatal_def decode_fuel_def)
qed

text \<open>
  C40. A dev build panics on a length prefix near the largest \<open>usize\<close>: the end of the frame
  is computed before the length is compared with the maximum, so with overflow checks the
  addition overflows. (A release build wraps there, which no result depends on: it goes on
  to discard the declared length.)
\<close>

theorem length_prefix_overflow:
  assumes "lines_codec_ok L" and "20 < max_length" and "max_length < usize_max"
  shows "decode True L (Framer_new L max_length) (decimal usize_max @ [32]) = None
    \<and> decode False L (Framer_new L max_length) (decimal usize_max @ [32])
      = Some (Inr None, (Framer_new L max_length)\<lparr>octet_decoding := Some (Discarding usize_max)\<rparr>, [])"
proof -
  have len: "length (decimal usize_max) = 20"
    by (simp add: decimal.simps usize_max_def)
  have "ready (Framer_new L max_length)"
      "lc_max_length L (other (Framer_new L max_length)) = max_length"
    using lines_codec_okD(1) [OF assms(1)] by (simp_all add: ready_def Framer_new_def)
  moreover from this assms(2) have "decode True L (Framer_new L max_length) (decimal usize_max @ [32])
      = octet_decode_length True L ((Framer_new L max_length)\<lparr>octet_decoding := Some NotDiscarding\<rparr>)
          (length (decimal usize_max)) (decimal usize_max @ [32])"
    by (intro decode_header) (simp_all add: len, simp add: usize_max_def)
  ultimately show ?thesis
    using assms(2,3) decode_oversize_header [of "Framer_new L max_length" L usize_max "[]"]
    by (simp add: len octet_decode_length_def decimal_valid_utf8 parse_uint_decimal Let_def)
qed

theorem length_prefix_overflow_witness:
  "decode True simple_lines (Framer_new simple_lines 65536) (decimal usize_max @ [32]) = None"
  using length_prefix_overflow [OF simple_lines_ok, of 65536] by (simp add: usize_max_def)

text \<open>
  A number on a line of its own is rejected as oversize however short it is: a buffer
  that starts with a number and a newline and holds no space ends the connection with the
  reason \<open>oversize\<close>, not only when the maximum length is exceeded.
\<close>

lemma digit_line_rejected_as_oversize:
  assumes "octet_decoding f = None" and "0 < n" and "\<forall>b \<in> set rest. b \<noteq> 32"
  shows "decode chk L f (decimal n @ 10 # rest)
    = Some (Inl (FrameError_fatal Oversize), f\<lparr>octet_decoding := Some NotDiscarding\<rparr>, rest)"
proof -
  have "position (\<lambda>b. b = 32) (decimal n @ 10 # rest) = None"
    using assms(3) by (auto simp: byte_simps dest: digits_not_separators)
  moreover have "position (\<lambda>b. b = 10) (decimal n @ 10 # rest) = Some (length (decimal n))"
    by (rule position_skip) (auto dest: digits_not_separators)
  ultimately show ?thesis
    using assms(1,2)
    by (simp add: decode_octet_start starts_octet_decimal octet_decode_def octet_decode_no_length_def
        advance_def)
qed

end
