(* ===== verification/Stream.thy ===== *)
theory Stream
  imports Delivery Config Syslog_Proxy Framing_Streams
begin

text \<open>
  A stream connection (\<open>serve_stream\<close> and \<open>close_stream\<close> of \<open>syslog.rs\<close>): the PROXY header,
  the loop that reads and frames, the delivery of what was framed, and the end.

  The awaited outcomes are arguments. \<open>frames n\<close> says what happens to the \<open>n\<close>-th framed
  message: the time read, whether the permit was acquired, its identity, and whether the
  bounded channel took it. \<open>events\<close> are the outcomes of the \<open>select!\<close> between reading, idling
  and shutdown. The reads that end before the deadline of the header come first; those the header does
  not need are the first events. Effects on the shared counters are this connection's own.
\<close>

record Dispatcher =
  counters :: SyslogCounters
  connections :: u64

record frame_env =
  now_nanos :: u64
  acquired :: bool
  next_message_id :: u64
  channel_open :: bool

datatype stream_event = ReadResult read_result | IdleElapsed | TokenCancelled

text \<open>Why the frames of the buffer are no longer emitted: none is complete, the connection ends, or a panic.\<close>

datatype stop = NeedMore | EndStream | PanicStream

section \<open>Framing and reading\<close>

fun emit ::
  "nat \<Rightarrow> bool \<Rightarrow> 'lc lines_codec \<Rightarrow> (nat \<Rightarrow> frame_env) \<Rightarrow> string option \<Rightarrow> bool
   \<Rightarrow> 'lc Framer \<Rightarrow> bytes \<Rightarrow> SyslogCounters \<Rightarrow> PendingMessage list
   \<Rightarrow> (stop \<times> 'lc Framer \<times> bytes \<times> SyslogCounters \<times> PendingMessage list) option" where
  "emit 0 chk L frames client eof framer buffer c sent = None"
| "emit (Suc fuel) chk L frames client eof framer buffer c sent =
     (case (if eof then decode_eof chk L framer buffer else decode chk L framer buffer) of
        None \<Rightarrow> Some (PanicStream, framer, buffer, c, sent)
      | Some (Inr (Some m), framer', buffer') \<Rightarrow>
          (let env = frames (length sent) in
           if \<not> acquired env then Some (EndStream, framer', buffer', c, sent)
           else
             let pm = \<lparr>pm_message = m, pm_utf8 = True, pm_peer = client, pm_transport = Stream,
                       pm_received_at_ns = now_nanos env, pm_message_id = next_message_id env\<rparr>;
                 c' = c\<lparr>pending := pending c + 1\<rparr>
             in if channel_open env then emit fuel chk L frames client eof framer' buffer' c' (sent @ [pm])
                else Some (EndStream, framer', buffer', abandon_pending c', sent))
      | Some (Inr None, framer', buffer') \<Rightarrow> Some (NeedMore, framer', buffer', c, sent)
      | Some (Inl error, framer', buffer') \<Rightarrow>
          (let c' = record_rejection c (reason error) in
           if fatal error then Some (EndStream, framer', buffer', c', sent)
           else emit fuel chk L frames client eof framer' buffer' c' sent))"

text \<open>The connection's state after the events: why it stopped (\<open>NeedMore\<close>: still open).\<close>

fun read_loop ::
  "bool \<Rightarrow> 'lc lines_codec \<Rightarrow> (nat \<Rightarrow> frame_env) \<Rightarrow> string option \<Rightarrow> u64 \<Rightarrow> bool
   \<Rightarrow> 'lc Framer \<Rightarrow> bytes \<Rightarrow> SyslogCounters \<Rightarrow> PendingMessage list \<Rightarrow> stream_event list
   \<Rightarrow> (stop \<times> SyslogCounters \<times> PendingMessage list) option" where
  "read_loop chk L frames client idle eof framer buffer c sent events =
     (case emit (decode_fuel buffer) chk L frames client eof framer buffer c sent of
        None \<Rightarrow> None
      | Some (NeedMore, framer', buffer', c', sent') \<Rightarrow>
          if eof then Some (EndStream, c', sent')
          else (case events of
            [] \<Rightarrow> Some (NeedMore, c', sent')
          | ReadResult (ReadOk []) # events' \<Rightarrow>
              read_loop chk L frames client idle True framer' buffer' c' sent' events'
          | ReadResult (ReadOk (b # bs)) # events' \<Rightarrow>
              read_loop chk L frames client idle False framer' (buffer' @ b # bs) c' sent' events'
          | ReadResult ReadErr # events' \<Rightarrow> Some (EndStream, c', sent')
          | IdleElapsed # events' \<Rightarrow>
              if idle > 0 then Some (EndStream, c', sent')
              else read_loop chk L frames client idle False framer' buffer' c' sent' events'
          | TokenCancelled # events' \<Rightarrow> Some (EndStream, c', sent'))
      | Some (s, framer', buffer', c', sent') \<Rightarrow> Some (s, c', sent'))"

declare read_loop.simps [simp del]

section \<open>The whole connection\<close>

definition close_stream :: "Dispatcher \<Rightarrow> Dispatcher" where
  "close_stream d =
     d\<lparr>connections := connections d - 1,
       counters := (counters d)\<lparr>connections_closed := connections_closed (counters d) + 1\<rparr>\<rparr>"

text \<open>
  How the task stands: finished, still at work, or panicked. A panic unwinds the task, so
  \<open>close_stream\<close> does not run.
\<close>

datatype task = Finished | Running | Unwound

record served =
  task :: task
  dispatcher :: Dispatcher
  framed :: "PendingMessage list"
  fates :: "fate list"
  handed :: "SyslogMessage list"

text \<open>
  \<open>mpsc::channel\<close> panics on a capacity of zero or above \<open>Semaphore::MAX_PERMITS\<close>.
\<close>

definition serve_stream_messages ::
  "bool \<Rightarrow> 'lc lines_codec \<Rightarrow> nat \<Rightarrow> SyslogConfig \<Rightarrow> (nat \<Rightarrow> frame_env) \<Rightarrow> attempt_env list
   \<Rightarrow> string option \<Rightarrow> bytes \<Rightarrow> stream_event list \<Rightarrow> Dispatcher \<Rightarrow> served option" where
  "serve_stream_messages chk L MAX_PERMITS config frames envs client buffer events d =
     (if max_pending_per_connection config = 0 \<or> MAX_PERMITS < max_pending_per_connection config
      then Some \<lparr>task = Unwound, dispatcher = d, framed = [], fates = [], handed = []\<rparr>
      else
        case read_loop chk L frames client (idle_timeout config) False
               (Framer_new L (max_frame_bytes config)) buffer (counters d) [] events of
          None \<Rightarrow> None
        | Some (s, c, sent) \<Rightarrow>
            (case deliver_stream_messages False sent c envs of
               Some (fs, c', msgs) \<Rightarrow>
                 let d' = d\<lparr>counters := c'\<rparr> in
                 Some (case s of
                     NeedMore \<Rightarrow> \<lparr>task = Running, dispatcher = d', framed = sent, fates = fs, handed = msgs\<rparr>
                   | PanicStream \<Rightarrow> \<lparr>task = Unwound, dispatcher = d', framed = sent, fates = fs, handed = msgs\<rparr>
                   | EndStream \<Rightarrow>
                       \<lparr>task = Finished, dispatcher = close_stream d', framed = sent, fates = fs, handed = msgs\<rparr>)
             | None \<Rightarrow>
                 Some \<lparr>task = Running, dispatcher = d\<lparr>counters := c\<rparr>, framed = sent, fates = [], handed = []\<rparr>))"

definition serve_stream ::
  "bool \<Rightarrow> 'lc lines_codec \<Rightarrow> nat \<Rightarrow> SyslogConfig \<Rightarrow> (nat \<Rightarrow> frame_env) \<Rightarrow> attempt_env list
   \<Rightarrow> string option \<Rightarrow> read_result list \<Rightarrow> stream_event list \<Rightarrow> Dispatcher \<Rightarrow> served option" where
  "serve_stream chk L MAX_PERMITS config frames envs client reads events d =
     (if proxy_protocol config then
        (case read_proxy_header [] reads of
           None \<Rightarrow> None
         | Some (Inr source, buffer, later) \<Rightarrow>
             serve_stream_messages chk L MAX_PERMITS config frames envs
               (case source of Some address \<Rightarrow> Some (IpAddr_to_string address) | None \<Rightarrow> client)
               buffer (map ReadResult later @ events) d
         | Some (Inl failure, buffer, later) \<Rightarrow>
             Some \<lparr>task = Finished,
               dispatcher = close_stream (d\<lparr>counters := ProxyFailure_record failure (counters d)\<rparr>),
               framed = [], fates = [], handed = []\<rparr>)
      else serve_stream_messages chk L MAX_PERMITS config frames envs client []
             (map ReadResult reads @ events) d)"

section \<open>The reading loop returns\<close>

abbreviation next_frame :: "bool \<Rightarrow> 'lc lines_codec \<Rightarrow> bool \<Rightarrow> 'lc Framer \<Rightarrow> bytes \<Rightarrow> 'lc decoded option" where
  "next_frame chk L eof framer buffer \<equiv>
     (if eof then decode_eof chk L framer buffer else decode chk L framer buffer)"

lemma next_frame_post:
  "lines_codec_ok L \<Longrightarrow> next_frame chk L eof f b = Some res \<Longrightarrow> frame_post L f b res"
  by (auto split: if_splits intro: decode_post decode_eof_post)

lemma emit_returns:
  assumes "lines_codec_ok L"
  shows "decode_measure L f b < fuel \<Longrightarrow> emit fuel chk L frames client eof f b c sent \<noteq> None"
proof (induction fuel arbitrary: f b c sent)
  case (Suc fuel)
  show ?case
  proof (cases "next_frame chk L eof f b")
    case (Some res)
    have post: "frame_post L f b res"
      using next_frame_post [OF assms Some] .
    show ?thesis
    proof (cases res rule: decoded_cases)
      case (1 e f' b')
      then show ?thesis
      proof (cases "fatal e")
        case False
        with 1 post have "decode_measure L f' b' < decode_measure L f b"
          by (auto simp: frame_post_def decode_measure_def dest: suffix_length_le)
        with Suc.prems have "decode_measure L f' b' < fuel"
          by simp
        from Suc.IH [OF this] False show ?thesis
          by (simp add: Some 1 Let_def)
      qed (simp add: Some Let_def)
    next
      case (3 m f' b')
      with post have "decode_measure L f' b' < decode_measure L f b"
        by (simp add: frame_post_def decode_measure_def)
      with Suc.prems have "decode_measure L f' b' < fuel"
        by simp
      from Suc.IH [OF this] show ?thesis
        by (simp add: Some 3 Let_def)
    qed (simp add: Some)
  qed simp
qed simp

lemma read_loop_returns:
  assumes "lines_codec_ok L"
  shows "read_loop chk L frames client idle eof f b c sent events \<noteq> None"
proof (induction events arbitrary: eof f b c sent)
  case Nil
  show ?case
    using emit_returns [OF assms decode_measure_fuel, where f = f and b = b and chk = chk
        and frames = frames and client = client and eof = eof and c = c and sent = sent]
    by (auto simp: read_loop.simps split: option.splits stop.splits)
next
  case (Cons e events)
  then show ?case
    using emit_returns [OF assms decode_measure_fuel, where f = f and b = b and chk = chk
        and frames = frames and client = client and eof = eof and c = c and sent = sent]
    by (auto simp: read_loop.simps [of _ _ _ _ _ _ _ _ _ _ "e # events"]
        split: option.splits stop.splits stream_event.splits read_result.splits list.splits)
qed

section \<open>What is framed\<close>

definition stream_message :: "nat \<Rightarrow> string option \<Rightarrow> PendingMessage \<Rightarrow> bool" where
  "stream_message max_length client pm \<longleftrightarrow>
     valid_utf8 (pm_message pm) \<and> length (pm_message pm) \<le> max_length \<and> pm_utf8 pm
     \<and> pm_peer pm = client \<and> pm_transport pm = Stream"

text \<open>
  What framing does to the counters: the gauge counts the messages sent on, no message is
  counted as delivered, and no connection as closed.
\<close>

definition framed_counters :: "SyslogCounters \<Rightarrow> nat \<Rightarrow> SyslogCounters \<Rightarrow> bool" where
  "framed_counters c n c' \<longleftrightarrow>
     (unat (pending c) + n + 1 < 2 ^ 64 \<longrightarrow> unat (pending c') = unat (pending c) + n)
     \<and> messages_delivered c' = messages_delivered c \<and> connections_closed c' = connections_closed c"

lemma pending_incr:
  assumes "unat (pending c) + 1 < 2 ^ 64"
  shows "unat (pending (c\<lparr>pending := pending c + 1\<rparr>)) = unat (pending c) + 1"
proof -
  have "unat (pending c + 1) = (unat (pending c) + 1) mod 2 ^ 64"
    by (simp add: unat_word_ariths)
  with assms show ?thesis
    by simp
qed

lemma record_rejection_sels [simp]:
  "pending (record_rejection c r) = pending c"
  "messages_delivered (record_rejection c r) = messages_delivered c"
  "connections_closed (record_rejection c r) = connections_closed c"
  by (cases r; simp)+

lemma abandon_pending_closed [simp]: "connections_closed (abandon_pending c) = connections_closed c"
  by (simp add: abandon_pending_def release_pending_def)

lemma framed_counters_refl: "framed_counters c 0 c"
  by (simp add: framed_counters_def)

lemma framed_counters_abandon: "framed_counters c 0 (abandon_pending (c\<lparr>pending := pending c + 1\<rparr>))"
  using pending_incr [of c] by (simp add: framed_counters_def)

lemma framed_counters_reject:
  "framed_counters (record_rejection c r) n c' \<Longrightarrow> framed_counters c n c'"
  by (simp add: framed_counters_def)

lemma framed_counters_Suc:
  assumes "framed_counters (c\<lparr>pending := pending c + 1\<rparr>) n c'"
  shows "framed_counters c (Suc n) c'"
  using assms pending_incr [of c] by (auto simp: framed_counters_def)

lemma emit_post:
  assumes "lines_codec_ok L" and "emit fuel chk L frames client eof f b c sent = Some (s, f', b', c', sent')"
  shows "lc_max_length L (other f') = lc_max_length L (other f) \<and>
    (\<exists>new. sent' = sent @ new \<and> list_all (stream_message (lc_max_length L (other f)) client) new
       \<and> framed_counters c (length new) c')"
  using assms(2)
proof (induction fuel arbitrary: f b c sent)
  case (Suc fuel)
  show ?case
  proof (cases "next_frame chk L eof f b")
    case None
    with Suc.prems show ?thesis
      by (simp add: framed_counters_refl)
  next
    case (Some res)
    have post: "frame_post L f b res"
      using next_frame_post [OF assms(1) Some] .
    show ?thesis
    proof (cases res rule: decoded_cases)
      case (1 e f1 b1)
      show ?thesis
      proof (cases "fatal e")
        case True
        with Suc.prems Some 1 post show ?thesis
          by (auto simp: frame_post_def Let_def intro: framed_counters_reject framed_counters_refl)
      next
        case False
        with Suc.prems Some 1 have "emit fuel chk L frames client eof f1 b1 (record_rejection c (reason e)) sent
            = Some (s, f', b', c', sent')"
          by (simp add: Let_def)
        from Suc.IH [OF this] post 1 show ?thesis
          by (auto simp: frame_post_def intro: framed_counters_reject)
      qed
    next
      case (2 f1 b1)
      with Suc.prems Some post show ?thesis
        by (auto simp: frame_post_def framed_counters_refl)
    next
      case (3 m f1 b1)
      define env where "env = frames (length sent)"
      define pm where "pm = \<lparr>pm_message = m, pm_utf8 = True, pm_peer = client, pm_transport = Stream,
        pm_received_at_ns = now_nanos env, pm_message_id = next_message_id env\<rparr>"
      have ok: "stream_message (lc_max_length L (other f)) client pm"
          "lc_max_length L (other f1) = lc_max_length L (other f)"
        using post 3 by (simp_all add: frame_post_def stream_message_def pm_def)
      show ?thesis
      proof (cases "acquired env \<and> channel_open env")
        case True
        with Suc.prems Some 3 have "emit fuel chk L frames client eof f1 b1 (c\<lparr>pending := pending c + 1\<rparr>)
            (sent @ [pm]) = Some (s, f', b', c', sent')"
          by (simp add: Let_def env_def pm_def)
        from Suc.IH [OF this] obtain new where "sent' = sent @ pm # new"
            "list_all (stream_message (lc_max_length L (other f))  client) new"
            "framed_counters (c\<lparr>pending := pending c + 1\<rparr>) (length new) c'"
            "lc_max_length L (other f') = lc_max_length L (other f)"
          using ok(2) by auto
        with ok(1) show ?thesis
          by (auto intro: framed_counters_Suc)
      next
        case False
        with Suc.prems Some 3 ok(2) show ?thesis
          by (auto simp: Let_def env_def framed_counters_refl framed_counters_abandon split: if_splits)
      qed
    qed
  qed
qed simp

lemma framed_counters_trans:
  "framed_counters c n c1 \<Longrightarrow> framed_counters c1 k c2 \<Longrightarrow> framed_counters c (n + k) c2"
  by (auto simp: framed_counters_def)

lemma read_loop_post:
  assumes "lines_codec_ok L"
    and "read_loop chk L frames client idle eof f b c sent events = Some (s, c', sent')"
  shows "\<exists>new. sent' = sent @ new \<and> list_all (stream_message (lc_max_length L (other f)) client) new
    \<and> framed_counters c (length new) c'"
  using assms(2)
proof (induction events arbitrary: eof f b c sent)
  case Nil
  then obtain s1 f1 b1 where "emit (decode_fuel b) chk L frames client eof f b c sent = Some (s1, f1, b1, c', sent')"
    by (auto simp: read_loop.simps split: option.splits stop.splits if_splits)
  from emit_post [OF assms(1) this] show ?case
    by blast
next
  case (Cons e events)
  obtain s1 f1 b1 c1 sent1 where
    em: "emit (decode_fuel b) chk L frames client eof f b c sent = Some (s1, f1, b1, c1, sent1)"
    using emit_returns [OF assms(1) decode_measure_fuel] by (metis option.exhaust prod_cases5)
  from emit_post [OF assms(1) em] obtain new where
    post: "sent1 = sent @ new" "list_all (stream_message (lc_max_length L (other f)) client) new"
      "framed_counters c (length new) c1" "lc_max_length L (other f1) = lc_max_length L (other f)"
    by blast
  show ?case
  proof (cases "c' = c1 \<and> sent' = sent1")
    case True
    with post show ?thesis by blast
  next
    case False
    with Cons.prems em obtain eof' b2 where
      "read_loop chk L frames client idle eof' f1 b2 c1 sent1 events = Some (s, c', sent')"
      by (auto simp: read_loop.simps [of _ _ _ _ _ _ _ _ _ _ "e # events"]
          split: stop.splits if_splits stream_event.splits read_result.splits list.splits)
    from Cons.IH [OF this] post show ?thesis
      by (auto intro: framed_counters_trans)
  qed
qed

section \<open>Delivery leaves the connection counters alone\<close>

lemma release_pending_closed [simp]: "connections_closed (release_pending c) = connections_closed c"
  by (simp add: release_pending_def)

lemma deliver_closed:
  "deliver env pm att c = Some (out, c', msgs) \<Longrightarrow> connections_closed c' = connections_closed c"
  by (auto simp: deliver_def split: option.splits bool.splits worker_answer.splits HandlerResult.splits)

lemma retry_loop_closed:
  "retry_loop pm att delay c envs = Some (f, c', r) \<Longrightarrow> connections_closed c' = connections_closed c"
proof (induction envs arbitrary: att delay c r)
  case (Cons env envs)
  then show ?case
    by (fastforce dest: deliver_closed split: option.splits DeliveryOutcome.splits if_splits)
qed simp

lemma deliver_stream_closed:
  "deliver_stream_messages gone pms c envs = Some (fs, c', msgs) \<Longrightarrow>
   connections_closed c' = connections_closed c"
proof (induction pms arbitrary: gone c envs fs msgs)
  case (Cons pm pms)
  then show ?case
    by (fastforce dest: retry_loop_closed split: option.splits if_splits)
qed simp

section \<open>The whole connection, summed up\<close>

lemma serve_stream_messages_post:
  assumes "lines_codec_ok L"
    and "serve_stream_messages chk L MAX_PERMITS config frames envs client b events d = Some r"
  shows "list_all (stream_message (max_frame_bytes config) client) (framed r)
    \<and> (task r = Finished \<longrightarrow> unat (pending (counters d)) + length (framed r) + 1 < 2 ^ 64 \<longrightarrow>
        length (fates r) = length (framed r) \<and> in_order (framed r) (fates r) (handed r)
        \<and> pending (counters (dispatcher r)) = pending (counters d)
        \<and> messages_delivered (counters (dispatcher r))
          = messages_delivered (counters d) + of_nat (length (filter (\<lambda>f. f = Taken) (fates r)))
        \<and> connections (dispatcher r) = connections d - 1
        \<and> connections_closed (counters (dispatcher r)) = connections_closed (counters d) + 1)"
proof (cases "max_pending_per_connection config = 0 \<or> MAX_PERMITS < max_pending_per_connection config")
  case True
  with assms(2) have "r = \<lparr>task = Unwound, dispatcher = d, framed = [], fates = [], handed = []\<rparr>"
    by (simp add: serve_stream_messages_def)
  then show ?thesis
    by simp
next
  case False
  define f where "f = Framer_new L (max_frame_bytes config)"
  have max: "lc_max_length L (other f) = max_frame_bytes config"
    using lines_codec_okD(1) [OF assms(1)] by (simp add: f_def Framer_new_def)
  obtain s c sent where
    rd: "read_loop chk L frames client (idle_timeout config) False f b (counters d) [] events = Some (s, c, sent)"
    using read_loop_returns [OF assms(1)] by (metis option.exhaust prod_cases3)
  from read_loop_post [OF assms(1) rd]
  have good: "list_all (stream_message (max_frame_bytes config) client) sent"
      and fc: "framed_counters (counters d) (length sent) c"
    by (simp_all add: max)
  show ?thesis
  proof (cases "deliver_stream_messages False sent c envs")
    case None
    with assms(2) False rd have "framed r = sent" "task r = Running"
      by (auto simp: serve_stream_messages_def f_def Let_def)
    with good show ?thesis by simp
  next
    case (Some res)
    then obtain fs c' msgs where dl: "deliver_stream_messages False sent c envs = Some (fs, c', msgs)"
      by (cases res) simp
    have r: "framed r = sent" "fates r = fs" "handed r = msgs"
        "task r = Finished \<Longrightarrow> dispatcher r = close_stream (d\<lparr>counters := c'\<rparr>)"
      using assms(2) False rd dl
      by (auto simp: serve_stream_messages_def f_def Let_def split: stop.splits)
    have "length fs = length sent" "settled c fs c'" "in_order sent fs msgs"
        "connections_closed c' = connections_closed c"
      using stream_settled [OF dl] stream_in_order [OF dl] deliver_stream_closed [OF dl] by simp_all
    moreover have "pending c' = pending (counters d)"
      if "unat (pending (counters d)) + length sent + 1 < 2 ^ 64"
      using that fc calculation(1,2) by (simp add: framed_counters_def settled_def word_unat_eq_iff)
    ultimately show ?thesis
      using good r fc by (simp add: close_stream_def framed_counters_def settled_def)
  qed
qed

lemma in_order_to_message:
  "in_order pms fs msgs \<Longrightarrow> m \<in> set msgs \<Longrightarrow> \<exists>pm \<in> set pms. \<exists>a. m = to_message pm a"
proof (induction pms fs msgs rule: in_order.induct)
  case (2 pm pms f fs msgs)
  then obtain k rest where "msgs = attempts pm 1 k @ rest" "in_order pms fs rest"
    by auto
  with 2 show ?case
    by (auto simp: attempts_def)
qed simp_all

text \<open>What a worker may rely on in a message of a stream.\<close>

definition valid_message :: "nat \<Rightarrow> string option \<Rightarrow> SyslogMessage \<Rightarrow> bool" where
  "valid_message max_length client m \<longleftrightarrow>
     utf8 m \<and> valid_utf8 (msg_bytes m) \<and> length (msg_bytes m) \<le> max_length \<and> peer m = client \<and> transport m = Stream"

lemma serve_stream_messages_handed:
  assumes "lines_codec_ok L"
    and "serve_stream_messages chk L MAX_PERMITS config frames envs client b events d = Some r"
  shows "\<forall>m \<in> set (handed r). valid_message (max_frame_bytes config) client m"
proof -
  have good: "list_all (stream_message (max_frame_bytes config) client) (framed r)"
    using serve_stream_messages_post [OF assms] by blast
  have "handed r = [] \<or> (\<exists>fs. in_order (framed r) fs (handed r))"
    using assms(2)
    by (auto simp: serve_stream_messages_def Let_def split: option.splits stop.splits if_splits)
      (blast dest: stream_in_order)+
  with good show ?thesis
    by (fastforce simp: list_all_iff stream_message_def to_message_def valid_message_def dest: in_order_to_message)
qed

section \<open>A stream of frames, from the wire to the queue\<close>

lemma emit_decode_all:
  assumes "\<And>n. acquired (frames n) \<and> channel_open (frames n)"
  shows "decode_all fuel chk L f b = Some (map Inr msgs, f', b') \<Longrightarrow>
    \<exists>c' new. emit fuel chk L frames client False f b c sent = Some (NeedMore, f', b', c', sent @ new)
      \<and> map pm_message new = msgs"
proof (induction fuel arbitrary: f b c sent msgs)
  case (Suc fuel)
  show ?case
  proof (cases msgs)
    case Nil
    with Suc.prems have "decode chk L f b = Some (Inr None, f', b')"
      by (auto split: option.splits sum.splits if_splits)
    with Nil show ?thesis
      by simp
  next
    case (Cons m ms)
    with Suc.prems obtain f1 b1 where d: "decode chk L f b = Some (Inr (Some m), f1, b1)"
        "decode_all fuel chk L f1 b1 = Some (map Inr ms, f', b')"
      by (auto split: option.splits sum.splits if_splits)
    define pm where "pm = \<lparr>pm_message = m, pm_utf8 = True, pm_peer = client, pm_transport = Stream,
      pm_received_at_ns = now_nanos (frames (length sent)),
      pm_message_id = next_message_id (frames (length sent))\<rparr>"
    from Suc.IH [OF d(2), of "c\<lparr>pending := pending c + 1\<rparr>" "sent @ [pm]"] obtain c' new where
      "emit fuel chk L frames client False f1 b1 (c\<lparr>pending := pending c + 1\<rparr>) (sent @ [pm])
        = Some (NeedMore, f', b', c', (sent @ [pm]) @ new)" "map pm_message new = ms"
      by blast
    then have "emit (Suc fuel) chk L frames client False f b c sent
        = Some (NeedMore, f', b', c', sent @ pm # new)" "map pm_message (pm # new) = msgs"
      using assms d(1) Cons by (simp_all add: pm_def Let_def)
    then show ?thesis
      by blast
  qed
qed simp

text \<open>
  The events that end a connection, and what the end of the input still brings: a line that
  was not terminated, unless it is empty or a single carriage return.
\<close>

fun ends_stream :: "u64 \<Rightarrow> stream_event \<Rightarrow> bool" where
  "ends_stream idle (ReadResult (ReadOk bs)) \<longleftrightarrow> bs = []"
| "ends_stream idle (ReadResult ReadErr) \<longleftrightarrow> True"
| "ends_stream idle IdleElapsed \<longleftrightarrow> idle > 0"
| "ends_stream idle TokenCancelled \<longleftrightarrow> True"

fun last_line :: "stream_event \<Rightarrow> bytes \<Rightarrow> bytes list" where
  "last_line (ReadResult (ReadOk bs)) tail = (if tail = [] \<or> tail = [13] then [] else [strip_cr tail])"
| "last_line event tail = []"

lemma emit_eof:
  assumes "lines_codec_splits L" and "\<And>n. acquired (frames n) \<and> channel_open (frames n)"
    and "between_calls L f tail" and "open_line (lc_max_length L (other f)) tail"
  shows "\<exists>f' b' c' new. emit (decode_fuel tail) chk L frames client True f tail c sent
      = Some (NeedMore, f', b', c', sent @ new) \<and> map pm_message new = last_line (ReadResult (ReadOk [])) tail"
proof -
  obtain f' where f': "decode_eof chk L f tail = Some (if tail = [] \<or> tail = [13] then (Inr None, f', tail)
      else (Inr (Some (strip_cr tail)), f', []))" "between_calls L f' []"
    using decode_eof_open_line [OF assms(1,3,4)] by blast
  moreover obtain f'' where "decode_eof chk L f' [] = Some (Inr None, f'', [])"
    using decode_eof_open_line [OF assms(1) f'(2) open_line_Nil] by auto
  moreover have "decode_fuel tail = Suc (Suc (2 * length tail))"
    by (simp add: decode_fuel_def)
  ultimately show ?thesis
    using assms(2) by (cases "tail = [] \<or> tail = [13]") (auto simp: Let_def)
qed

lemma read_loop_ending:
  assumes "lines_codec_splits L" and "\<And>n. acquired (frames n) \<and> channel_open (frames n)"
    and "between_calls L f tail" and "open_line (lc_max_length L (other f)) tail" and "ends_stream idle ending"
    and em: "emit (decode_fuel b) chk L frames client False f0 b c sent = Some (NeedMore, f, tail, c1, sent1)"
  shows "\<exists>c' new. read_loop chk L frames client idle False f0 b c sent [ending]
      = Some (EndStream, c', sent1 @ new) \<and> map pm_message new = last_line ending tail"
proof (cases "ending = ReadResult (ReadOk [])")
  case True
  from emit_eof [where frames = frames, OF assms(1-4), of chk client c1 sent1] obtain f' b' c' new where
    "emit (decode_fuel tail) chk L frames client True f tail c1 sent1 = Some (NeedMore, f', b', c', sent1 @ new)"
    "map pm_message new = last_line ending tail"
    unfolding True by blast
  then show ?thesis
    by (simp add: True em read_loop.simps [of _ _ _ _ _ _ f0] read_loop.simps [of _ _ _ _ _ _ f])
next
  case False
  then have "read_loop chk L frames client idle False f0 b c sent [ending] = Some (EndStream, c1, sent1)"
      "last_line ending tail = []"
    using assms(5) by (cases "(idle, ending)" rule: ends_stream.cases; simp add: em read_loop.simps)+
  then show ?thesis by simp
qed

lemma emit_wire:
  assumes "lines_codec_ok L" and "lines_codec_splits L"
    and "\<And>n. acquired (frames n) \<and> channel_open (frames n)" and "open_line k tail"
    and "\<forall>fr \<in> set frs. carried k fr" and "between_calls L f b" and "lc_max_length L (other f) = k"
    and "b @ unread = wire frs @ tail"
  shows "\<exists>c' new s rest b' f'. frs = s @ rest \<and> b' @ unread = wire rest @ tail
      \<and> between_calls L f' b' \<and> lc_max_length L (other f') = k \<and> (b' = wire rest @ tail \<longrightarrow> rest = [])
      \<and> emit (decode_fuel b) chk L frames client False f b c sent = Some (NeedMore, f', b', c', sent @ new)
      \<and> map pm_message new = map frame_message s"
proof -
  have "prefix b (wire frs @ tail)"
    using assms(8) by (rule prefixI [OF sym])
  moreover have "length b < decode_fuel b"
    by (simp add: decode_fuel_def)
  ultimately obtain s rest b' f' where step: "frs = s @ rest" "b = wire s @ b'" "between_calls L f' b'"
      "lc_max_length L (other f') = k" "b' = wire rest @ tail \<longrightarrow> rest = []"
      "decode_all (decode_fuel b) chk L f b = Some (map Inr (map frame_message s), f', b')"
    using decode_all_wire [OF assms(1,2,4-7), of "decode_fuel b" chk]
    unfolding map_map comp_def by blast
  moreover have "b' @ unread = wire rest @ tail"
    using assms(8) unfolding step(1,2) by simp
  ultimately show ?thesis
    using emit_decode_all [where frames = frames, OF assms(3) step(6), where client = client and c = c and sent = sent]
    by blast
qed

lemma read_loop_wire:
  assumes "lines_codec_ok L" and "lines_codec_splits L"
    and "\<And>n. acquired (frames n) \<and> channel_open (frames n)" and "open_line k tail" and "ends_stream idle ending"
  shows "\<forall>fr \<in> set frs. carried k fr \<Longrightarrow> between_calls L f b \<Longrightarrow> lc_max_length L (other f) = k \<Longrightarrow>
    b @ concat chunks = wire frs @ tail \<Longrightarrow> \<forall>c \<in> set chunks. c \<noteq> [] \<Longrightarrow>
    \<exists>c' new. read_loop chk L frames client idle False f b c sent
        (map (\<lambda>bs. ReadResult (ReadOk bs)) chunks @ [ending])
      = Some (EndStream, c', sent @ new) \<and> map pm_message new = map frame_message frs @ last_line ending tail"
proof (induction chunks arbitrary: f b c sent frs)
  case Nil
  then have "b @ [] = wire frs @ tail"
    by simp
  from emit_wire [where frames = frames, OF assms(1-4) Nil.prems(1-3) this,
      where chk = chk and client = client and c = c and sent = sent]
  obtain c1 new f' where step: "between_calls L f' tail" "lc_max_length L (other f') = k"
      "emit (decode_fuel b) chk L frames client False f b c sent = Some (NeedMore, f', tail, c1, sent @ new)"
      "map pm_message new = map frame_message frs"
    by auto
  have "open_line (lc_max_length L (other f')) tail"
    using assms(4) step(2) by simp
  from read_loop_ending [where frames = frames, OF assms(2,3) step(1) this assms(5) step(3)] obtain c' new' where
    "read_loop chk L frames client idle False f b c sent [ending] = Some (EndStream, c', (sent @ new) @ new')"
    "map pm_message new' = last_line ending tail"
    by blast
  then show ?case
    using step(4) by (intro exI [of _ c'] exI [of _ "new @ new'"]) simp
next
  case (Cons x xs)
  then have "b @ x @ concat xs = wire frs @ tail"
    by simp
  from emit_wire [where frames = frames, OF assms(1-4) Cons.prems(1-3) this,
      where chk = chk and client = client and c = c and sent = sent]
  obtain c1 new s rest b' f' where step: "frs = s @ rest" "b' @ x @ concat xs = wire rest @ tail"
      "between_calls L f' b'" "lc_max_length L (other f') = k"
      "emit (decode_fuel b) chk L frames client False f b c sent = Some (NeedMore, f', b', c1, sent @ new)"
      "map pm_message new = map frame_message s"
    by blast
  with Cons.IH [OF _ between_calls_append [OF assms(2) step(3), of x], of rest c1 "sent @ new"]
    Cons.prems(1,5) obtain c' new' where
    "read_loop chk L frames client idle False f' (b' @ x) c1 (sent @ new)
        (map (\<lambda>bs. ReadResult (ReadOk bs)) xs @ [ending])
      = Some (EndStream, c', (sent @ new) @ new')"
    "map pm_message new' = map frame_message rest @ last_line ending tail"
    by auto
  moreover obtain y ys where "x = y # ys"
    using Cons.prems(5) by (cases x) simp_all
  ultimately show ?case
    using step(1,5,6)
    by (intro exI [of _ c'] exI [of _ "new @ new'"]) (simp add: read_loop.simps [of _ _ _ _ _ _ f b])
qed

lemma deliver_stream_accepted:
  "list_all (decides Taken) envs \<Longrightarrow> length pms \<le> length envs \<Longrightarrow>
   \<exists>c'. deliver_stream_messages False pms c envs
     = Some (replicate (length pms) Taken, c', map (\<lambda>pm. to_message pm 1) pms)"
proof (induction pms arbitrary: c envs)
  case (Cons pm pms)
  then obtain env envs' where envs: "envs = env # envs'" "list_all (decides Taken) envs'" "decides Taken env"
    by (cases envs) (auto simp del: decides.simps)
  then have "retry_loop pm 1 MIN_REFUSAL_DELAY c envs
      = Some (Taken, release_pending (c\<lparr>messages_delivered := messages_delivered c + 1\<rparr>), [to_message pm 1], [], envs')"
    by (simp add: deliver_def)
  with Cons.IH [OF envs(2)] Cons.prems(2) envs(1) show ?case
    by fastforce
qed simp

lemma serve_stream_messages_wire:
  assumes "lines_codec_ok L" and "lines_codec_splits L"
    and "\<And>n. acquired (frames n) \<and> channel_open (frames n)"
    and "\<forall>fr \<in> set frs. carried (max_frame_bytes config) fr" and "open_line (max_frame_bytes config) tail"
    and "ends_stream (idle_timeout config) ending"
    and "b @ concat later = wire frs @ tail" and "\<forall>c \<in> set later. c \<noteq> []"
    and "0 < max_pending_per_connection config" and "max_pending_per_connection config \<le> MAX_PERMITS"
    and "list_all (decides Taken) envs" and "length frs < length envs"
  shows "\<exists>r. serve_stream_messages chk L MAX_PERMITS config frames envs client b
        (map ReadResult (map ReadOk later) @ [ending]) d = Some r
    \<and> task r = Finished \<and> map msg_bytes (handed r) = map frame_message frs @ last_line ending tail
    \<and> (\<forall>m \<in> set (handed r). utf8 m \<and> attempt m = 1 \<and> peer m = client)
    \<and> fates r = replicate (length (handed r)) Taken"
proof -
  define f where "f = Framer_new L (max_frame_bytes config)"
  have "between_calls L f b" "lc_max_length L (other f) = max_frame_bytes config"
    unfolding f_def by (rule Framer_new_between_calls [OF assms(1,2)])+
  then obtain c new where
    rd: "read_loop chk L frames client (idle_timeout config) False f b (counters d) []
        (map (\<lambda>bs. ReadResult (ReadOk bs)) later @ [ending]) = Some (EndStream, c, [] @ new)"
      "map pm_message new = map frame_message frs @ last_line ending tail"
    using read_loop_wire [where frames = frames, OF assms(1-3,5,6,4) _ _ assms(7,8)] by blast
  have "length (last_line ending tail) \<le> 1"
    by (cases "(ending, tail)" rule: last_line.cases) simp_all
  moreover have "length new = length frs + length (last_line ending tail)"
    using rd(2) by (metis length_append length_map)
  ultimately have "length new \<le> length envs"
    using assms(12) by simp
  from deliver_stream_accepted [OF assms(11) this, of c] obtain c' where
    "deliver_stream_messages False new c envs
      = Some (replicate (length new) Taken, c', map (\<lambda>pm. to_message pm 1) new)"
    by blast
  moreover have "list_all (stream_message (max_frame_bytes config) client) new"
    using read_loop_post [OF assms(1) rd(1)] lines_codec_okD(1) [OF assms(1)]
    by (simp add: f_def Framer_new_def)
  ultimately show ?thesis
    using rd assms(9,10)
    by (auto simp: serve_stream_messages_def f_def comp_def to_message_def list_all_iff stream_message_def)
qed

text \<open>
  What a client sends ahead of its messages, and the address that names: a PROXY v2 header
  where the configuration asks for one, nothing otherwise.
\<close>

definition announces :: "SyslogConfig \<Rightarrow> bytes \<Rightarrow> IpAddr option \<Rightarrow> bool" where
  "announces config header source \<longleftrightarrow>
     (if proxy_protocol config
      then \<exists>family command address. header = v2_header family command address
        \<and> header_source family command address source \<and> 16 + length address \<le> MAX_PROXY_HEADER_BYTES
      else header = [] \<and> source = None)"

lemma announces_v2:
  assumes "header_source family command address source" and "16 + length address \<le> MAX_PROXY_HEADER_BYTES"
    and "proxy_protocol config"
  shows "announces config (v2_header family command address) source"
  unfolding announces_def if_P [OF assms(3)] using assms(1,2) by blast

lemma serve_stream_announced:
  assumes "announces config header source" and "concat reads = header @ rest" and "\<forall>c \<in> set reads. c \<noteq> []"
  shows "\<exists>b later. b @ concat later = rest \<and> (\<forall>c \<in> set later. c \<noteq> [])
    \<and> serve_stream chk L MAX_PERMITS config frames envs client (map ReadOk reads) events d
      = serve_stream_messages chk L MAX_PERMITS config frames envs
          (case source of Some address \<Rightarrow> Some (IpAddr_to_string address) | None \<Rightarrow> client) b
          (map ReadResult (map ReadOk later) @ events) d"
proof (cases "proxy_protocol config")
  case True
  with assms(1) obtain family command address where
    h: "header_source family command address source" "16 + length address \<le> MAX_PROXY_HEADER_BYTES"
      "header = v2_header family command address"
    by (auto simp: announces_def)
  then obtain b later where
    "read_proxy_header [] (map ReadOk reads) = Some (Inr source, b, map ReadOk later)"
    "b @ concat later = rest" "\<forall>c \<in> set later. c \<noteq> []"
    using read_v2_header [OF h(1,2) assms(3)] assms(2) by auto
  with True show ?thesis
    by (intro exI [of _ b] exI [of _ later]) (simp add: serve_stream_def)
next
  case False
  with assms show ?thesis
    by (intro exI [of _ "[]"] exI [of _ reads]) (simp add: serve_stream_def announces_def)
qed

section \<open>Properties of a connection\<close>

definition plain_frames :: "nat \<Rightarrow> frame_env" where
  "plain_frames n = \<lparr>now_nanos = 0, acquired = True, next_message_id = of_nat n, channel_open = True\<rparr>"

definition sample_dispatcher :: Dispatcher where
  "sample_dispatcher = \<lparr>counters = SyslogCounters_default, connections = 1\<rparr>"

text \<open>
  C1. From the wire to the workers: messages sent over a connection, octet counted or as lines
  in any mixture, after a PROXY header where one is expected, and cut into reads at any
  points, reach the worker queue as they were sent and in their order, each once, marked as
  UTF-8 and as a first attempt, when the permits, the channel and the handlers take them.
  They carry the address the header names, or else the client's own. However the connection
  ends it is closed, and a last line that was not terminated is a message too when the
  client closed its side.
\<close>

theorem stream_end_to_end:
  assumes "lines_codec_ok L" and "lines_codec_splits L" and "announces config header source"
    and "\<forall>fr \<in> set frs. carried (max_frame_bytes config) fr" and "open_line (max_frame_bytes config) tail"
    and "concat reads = header @ concat (map frame_bytes frs) @ tail" and "\<forall>c \<in> set reads. c \<noteq> []"
    and "ends_stream (idle_timeout config) ending"
    and "0 < max_pending_per_connection config" and "max_pending_per_connection config \<le> MAX_PERMITS"
    and "\<And>n. acquired (frames n) \<and> channel_open (frames n)"
    and "list_all (decides Taken) envs" and "length frs < length envs"
  shows "\<exists>r. serve_stream chk L MAX_PERMITS config frames envs client (map ReadOk reads) [ending] d = Some r
    \<and> task r = Finished \<and> map msg_bytes (handed r) = map frame_message frs @ last_line ending tail
    \<and> (\<forall>m \<in> set (handed r). utf8 m \<and> attempt m = 1
        \<and> peer m = (case source of Some address \<Rightarrow> Some (IpAddr_to_string address) | None \<Rightarrow> client))
    \<and> fates r = replicate (length (handed r)) Taken"
proof -
  obtain b later where split: "b @ concat later = wire frs @ tail" "\<forall>c \<in> set later. c \<noteq> []"
      "serve_stream chk L MAX_PERMITS config frames envs client (map ReadOk reads) [ending] d
        = serve_stream_messages chk L MAX_PERMITS config frames envs
            (case source of Some address \<Rightarrow> Some (IpAddr_to_string address) | None \<Rightarrow> client) b
            (map ReadResult (map ReadOk later) @ [ending]) d"
    using serve_stream_announced [OF assms(3,6,7)] by blast
  show ?thesis
    unfolding split(3) by (rule serve_stream_messages_wire [where frames = frames,
        OF assms(1,2,11,4,5,8) split(1,2) assms(9,10,12,13)])
qed

text \<open>A connection from 192.0.2.7 through a proxy, closed by the client in the middle of a line.\<close>

definition sample_reads :: "bytes list" where
  "sample_reads = [take 5 SIGNATURE, drop 5 SIGNATURE @ [0x21, 0x11, 0, 12, 192, 0, 2, 7, 192, 0, 2, 1],
     [0, 0, 0, 0, 50, 32], [104, 105, 60], [49, 62, 10, 60], [50]]"

theorem stream_end_to_end_witness:
  "\<exists>r. serve_stream False simple_lines 64 (SyslogConfig_new\<lparr>proxy_protocol := True\<rparr>) plain_frames
      [accept_env, accept_env, accept_env] None (map ReadOk sample_reads) [ReadResult (ReadOk [])] sample_dispatcher = Some r
    \<and> task r = Finished \<and> map msg_bytes (handed r) = [[104, 105], [60, 49, 62], [60, 50]]
    \<and> (\<forall>m \<in> set (handed r). peer m = Some ''192.0.2.7'')"
proof -
  let ?config = "SyslogConfig_new\<lparr>proxy_protocol := True\<rparr>"
  let ?frs = "[Octet [104, 105], Line False [60, 49, 62]]"
  let ?address = "[192, 0, 2, 7, 192, 0, 2, 1, 0, 0, 0, 0]"
  have "header_source 0x11 1 ?address (Some (V4 [192, 0, 2, 7]))"
    by (simp add: header_source_def)
  moreover have "16 + length ?address \<le> MAX_PROXY_HEADER_BYTES"
    by (simp add: MAX_PROXY_HEADER_BYTES_def)
  moreover have "proxy_protocol ?config"
    by simp
  ultimately have hdr: "announces ?config (v2_header 0x11 1 ?address) (Some (V4 [192, 0, 2, 7]))"
    by (rule announces_v2)
  have frs: "\<forall>fr \<in> set ?frs. carried (max_frame_bytes ?config) fr" "open_line (max_frame_bytes ?config) [60, 50]"
    by (simp_all add: sendable_def octet_frame_def decimal.simps usize_max_def SyslogConfig_new_def
        line_text_def strip_cr_def starts_octet_def open_line_def)
  have reads: "concat sample_reads = v2_header 0x11 1 ?address @ concat (map frame_bytes ?frs) @ [60, 50]"
      "\<forall>c \<in> set sample_reads. c \<noteq> []"
    by (simp_all add: sample_reads_def v2_header_def u16_to_be_def SIGNATURE_def octet_frame_def decimal.simps
        digit_byte_def line_text_def)
  have rest: "ends_stream (idle_timeout ?config) (ReadResult (ReadOk []))" "0 < max_pending_per_connection ?config"
      "max_pending_per_connection ?config \<le> 64" "\<And>n. acquired (plain_frames n) \<and> channel_open (plain_frames n)"
      "list_all (decides Taken) [accept_env, accept_env, accept_env]" "length ?frs < length [accept_env, accept_env, accept_env]"
    by (simp_all add: SyslogConfig_new_def plain_frames_def accept_env_def)
  have "IpAddr_to_string (V4 [192, 0, 2, 7]) = ''192.0.2.7''"
    by (simp add: to_string_radix radix_text.simps digit_char_def) code_simp
  with stream_end_to_end [where frames = plain_frames, OF simple_lines_ok simple_lines_splits hdr frs reads rest]
  show ?thesis
    by (fastforce simp: strip_cr_def simp del: IpAddr_to_string.simps)
qed

text \<open>
  C8. The books of a finished connection balance, whatever it sent and however it ended: it
  is counted as closed and leaves the number of open connections; every message it framed
  was accepted by a handler or abandoned, in order; the accepted ones are counted as
  delivered; and the gauge of pending messages is back where it was.
\<close>

theorem stream_connection_accounting:
  assumes "lines_codec_ok L"
    and "serve_stream chk L MAX_PERMITS config frames envs client reads events d = Some r"
    and "task r = Finished" and "unat (pending (counters d)) + length (framed r) + 1 < 2 ^ 64"
  shows "length (fates r) = length (framed r) \<and> in_order (framed r) (fates r) (handed r)
    \<and> pending (counters (dispatcher r)) = pending (counters d)
    \<and> messages_delivered (counters (dispatcher r))
      = messages_delivered (counters d) + of_nat (length (filter (\<lambda>f. f = Taken) (fates r)))
    \<and> connections (dispatcher r) = connections d - 1
    \<and> connections_closed (counters (dispatcher r)) = connections_closed (counters d) + 1"
proof -
  consider (messages) client' b events' where
      "serve_stream_messages chk L MAX_PERMITS config frames envs client' b events' d = Some r"
    | (failed) failure where "r = \<lparr>task = Finished,
        dispatcher = close_stream (d\<lparr>counters := ProxyFailure_record failure (counters d)\<rparr>),
        framed = [], fates = [], handed = []\<rparr>"
    using assms(2) by (auto simp: serve_stream_def split: if_splits option.splits sum.splits)
  then show ?thesis
  proof cases
    case messages
    with serve_stream_messages_post [OF assms(1) messages] assms(3,4) show ?thesis
      by blast
  next
    case failed
    then show ?thesis
      by (cases failure) (simp_all add: close_stream_def)
  qed
qed

theorem stream_connection_accounting_witness:
  "\<exists>r. serve_stream False simple_lines 64 (SyslogConfig_new\<lparr>proxy_protocol := True\<rparr>) plain_frames [] None
      [ReadErr] [] sample_dispatcher = Some r
    \<and> connections (dispatcher r) = 0 \<and> connections_closed (counters (dispatcher r)) = 1"
proof -
  have run: "serve_stream False simple_lines 64 (SyslogConfig_new\<lparr>proxy_protocol := True\<rparr>) plain_frames [] None
      [ReadErr] [] sample_dispatcher = Some \<lparr>task = Finished,
        dispatcher = close_stream (sample_dispatcher\<lparr>counters :=
          ProxyFailure_record (Read ''io'') (counters sample_dispatcher)\<rparr>),
        framed = [], fates = [], handed = []\<rparr>"
    by (simp add: serve_stream_def read_proxy_header.simps parse_eq)
  from stream_connection_accounting [OF simple_lines_ok run] show ?thesis
    unfolding run by (simp add: sample_dispatcher_def SyslogCounters_default_def)
qed

text \<open>
  C24. What a stream connection hands to the workers is what it promises: every message is marked as
  UTF-8 and consists of valid UTF-8, which is what the unchecked conversion of \<open>message\<close> relies
  on, is within the configured maximum, is marked as from a stream, and names the address in the PROXY header
  of its connection, or the client's own without one.
\<close>

theorem stream_messages_valid:
  assumes "lines_codec_ok L"
    and "serve_stream chk L MAX_PERMITS config frames envs client reads events d = Some r"
  shows "\<exists>who. (\<forall>m \<in> set (handed r). utf8 m \<and> valid_utf8 (msg_bytes m) \<and> length (msg_bytes m) \<le> max_frame_bytes config
        \<and> peer m = who \<and> transport m = Stream)
    \<and> (if proxy_protocol config
       then \<forall>source buffer later. read_proxy_header [] reads = Some (Inr source, buffer, later) \<longrightarrow>
         who = (case source of Some address \<Rightarrow> Some (IpAddr_to_string address) | None \<Rightarrow> client)
       else who = client)"
proof -
  consider (messages) who b events' where
      "serve_stream_messages chk L MAX_PERMITS config frames envs who b events' d = Some r"
      "if proxy_protocol config
       then \<forall>source buffer later. read_proxy_header [] reads = Some (Inr source, buffer, later) \<longrightarrow>
         who = (case source of Some address \<Rightarrow> Some (IpAddr_to_string address) | None \<Rightarrow> client)
       else who = client"
    | (failed) failure buffer later where "proxy_protocol config"
      "read_proxy_header [] reads = Some (Inl failure, buffer, later)" "handed r = []"
    using assms(2) by (auto simp: serve_stream_def split: if_splits option.splits sum.splits)
  then show ?thesis
  proof cases
    case messages
    with serve_stream_messages_handed [OF assms(1) messages(1)] show ?thesis
      unfolding valid_message_def by blast
  qed auto
qed

theorem stream_messages_valid_witness:
  "\<exists>r. serve_stream False simple_lines 64 SyslogConfig_new plain_frames [accept_env, accept_env] (Some ''192.0.2.7'')
      (map ReadOk [[60, 49], [62, 10]]) [ReadResult (ReadOk [])] sample_dispatcher = Some r
    \<and> map msg_bytes (handed r) = [[60, 49, 62]]
    \<and> (\<forall>m \<in> set (handed r). utf8 m \<and> valid_utf8 (msg_bytes m) \<and> peer m = Some ''192.0.2.7'')"
proof -
  let ?frs = "[Line False [60, 49, 62]]"
  have frs: "\<forall>fr \<in> set ?frs. carried (max_frame_bytes SyslogConfig_new) fr" "open_line (max_frame_bytes SyslogConfig_new) []"
      "[] @ concat [[60, 49], [62, 10]] = wire ?frs @ []"
    by (simp_all add: SyslogConfig_new_def line_text_def strip_cr_def starts_octet_def open_line_def)
  have "\<exists>r. serve_stream_messages False simple_lines 64 SyslogConfig_new plain_frames [accept_env, accept_env]
        (Some ''192.0.2.7'') [] (map ReadResult (map ReadOk [[60, 49], [62, 10]]) @ [ReadResult (ReadOk [])]) sample_dispatcher
      = Some r \<and> task r = Finished
    \<and> map msg_bytes (handed r) = map frame_message ?frs @ last_line (ReadResult (ReadOk [])) []
    \<and> (\<forall>m \<in> set (handed r). utf8 m \<and> attempt m = 1 \<and> peer m = Some ''192.0.2.7'')
    \<and> fates r = replicate (length (handed r)) Taken"
    by (rule serve_stream_messages_wire [OF simple_lines_ok simple_lines_splits _ frs(1,2) _ frs(3)])
      (simp_all add: SyslogConfig_new_def plain_frames_def accept_env_def)
  then obtain r where run: "serve_stream False simple_lines 64 SyslogConfig_new plain_frames [accept_env, accept_env]
        (Some ''192.0.2.7'') (map ReadOk [[60, 49], [62, 10]]) [ReadResult (ReadOk [])] sample_dispatcher = Some r"
      and handed: "map msg_bytes (handed r) = [[60, 49, 62]]"
    by (auto simp: serve_stream_def SyslogConfig_new_def)
  have "\<not> proxy_protocol SyslogConfig_new"
    by (simp add: SyslogConfig_new_def)
  with stream_messages_valid [OF simple_lines_ok run] run handed show ?thesis
    by auto
qed

text \<open>
  With a capacity that \<open>mpsc::channel\<close> does not take, a connection panics where it makes its channel:
  it is not closed, and stays counted. Only one whose PROXY header fails ends before that.
\<close>

lemma oversized_channel_unwinds:
  assumes "MAX_PERMITS < max_pending_per_connection config"
  shows "\<exists>r. serve_stream chk L MAX_PERMITS config frames envs client reads events d = Some r
    \<and> (if proxy_protocol config \<and> (\<exists>failure buffer later. read_proxy_header [] reads = Some (Inl failure, buffer, later))
       then task r = Finished \<and> connections (dispatcher r) = connections d - 1
       else task r = Unwound \<and> dispatcher r = d \<and> handed r = [])"
proof -
  obtain result buffer later where "read_proxy_header [] reads = Some (result, buffer, later)"
    using read_proxy_header_total [of "[]" reads] by auto
  with assms show ?thesis
    by (cases result) (auto simp: serve_stream_def serve_stream_messages_def close_stream_def)
qed

end
