(* ===== verification/Datagrams.thy ===== *)
theory Datagrams
  imports Stream
begin

text \<open>
  The datagram listener of \<open>syslog.rs\<close> (\<open>serve_datagrams\<close>): one datagram is one message. A
  datagram arrives with what the kernel answers for it: the receive buffer holds at most
  \<open>udp_max_datagram_bytes\<close> bytes of it. Whether a permit is free, the time and the identity
  drawn are arguments; each accepted datagram is delivered by a task of its own.
\<close>

record datagram =
  payload :: bytes
  dg_peer :: SocketAddr
  dg_acquired :: bool
  dg_now :: u64
  dg_id :: u64

datatype datagram_event = Datagram_Received datagram | Receive_Failed | Datagram_Cancelled

text \<open>\<open>recv_from\<close>: what fits the buffer; the length returned is that of the part copied.\<close>

definition recv_from :: "nat \<Rightarrow> bytes \<Rightarrow> bytes" where
  "recv_from n bs = take n bs"

text \<open>One received datagram: the counters, and the message handed to a delivery task.\<close>

definition receive_datagram ::
  "SyslogConfig \<Rightarrow> datagram \<Rightarrow> SyslogCounters \<Rightarrow> SyslogCounters \<times> PendingMessage option" where
  "receive_datagram config dg c =
     (let buffer = recv_from (udp_max_datagram_bytes config) (payload dg); len = length buffer in
      if len = udp_max_datagram_bytes config then (c\<lparr>udp_truncated := udp_truncated c + 1\<rparr>, None)
      else if \<not> dg_acquired dg then (c\<lparr>udp_dropped := udp_dropped c + 1\<rparr>, None)
      else
        let pm = \<lparr>pm_message = take len buffer, pm_utf8 = False, pm_peer = Some (IpAddr_to_string (SocketAddr_ip (dg_peer dg))),
                  pm_transport = Datagram, pm_received_at_ns = dg_now dg, pm_message_id = dg_id dg\<rparr>
        in (c\<lparr>pending := pending c + 1\<rparr>, Some pm))"

text \<open>The spawned task: one attempt, and a refusal drops the message.\<close>

definition datagram_task ::
  "attempt_env \<Rightarrow> PendingMessage \<Rightarrow> SyslogCounters \<Rightarrow> (SyslogCounters \<times> SyslogMessage list) option" where
  "datagram_task env pm c =
     (case deliver env pm 1 c of
        None \<Rightarrow> None
      | Some (out, c', msgs) \<Rightarrow>
          let c'' = (case out of
                OutcomeAccepted \<Rightarrow> c'
              | OutcomeRefused \<Rightarrow> c'\<lparr>udp_dropped := udp_dropped c' + 1\<rparr>
              | Unavailable \<Rightarrow> c'\<lparr>udp_dropped := udp_dropped c' + 1\<rparr>)
          in Some (release_pending c'', msgs))"

text \<open>The listener: the counters after the events, and the messages given to tasks.\<close>

fun serve_datagrams ::
  "SyslogConfig \<Rightarrow> datagram_event list \<Rightarrow> SyslogCounters \<Rightarrow> SyslogCounters \<times> PendingMessage list" where
  "serve_datagrams config [] c = (c, [])"
| "serve_datagrams config (Receive_Failed # events) c = serve_datagrams config events c"
| "serve_datagrams config (Datagram_Cancelled # events) c = (c, [])"
| "serve_datagrams config (Datagram_Received dg # events) c =
     (case receive_datagram config dg c of
        (c', None) \<Rightarrow> serve_datagrams config events c'
      | (c', Some pm) \<Rightarrow> map_prod id ((#) pm) (serve_datagrams config events c'))"

text \<open>The tasks of a list of messages, run to their ends one after the other.\<close>

fun run_tasks ::
  "(attempt_env \<times> PendingMessage) list \<Rightarrow> SyslogCounters \<Rightarrow> (SyslogCounters \<times> SyslogMessage list) option" where
  "run_tasks [] c = Some (c, [])"
| "run_tasks ((env, pm) # tasks) c =
     (case datagram_task env pm c of
        None \<Rightarrow> None
      | Some (c', msgs) \<Rightarrow> map_option (map_prod id ((@) msgs)) (run_tasks tasks c'))"

section \<open>Which datagrams become messages\<close>

text \<open>The datagrams the listener sees: those before it is cancelled.\<close>

fun seen :: "datagram_event list \<Rightarrow> datagram list" where
  "seen [] = []"
| "seen (Receive_Failed # events) = seen events"
| "seen (Datagram_Cancelled # events) = []"
| "seen (Datagram_Received dg # events) = dg # seen events"

definition fits :: "SyslogConfig \<Rightarrow> datagram \<Rightarrow> bool" where
  "fits config dg \<longleftrightarrow> length (payload dg) < udp_max_datagram_bytes config"

definition to_pending :: "datagram \<Rightarrow> PendingMessage" where
  "to_pending dg =
     \<lparr>pm_message = payload dg, pm_utf8 = False, pm_peer = Some (IpAddr_to_string (SocketAddr_ip (dg_peer dg))), pm_transport = Datagram,
      pm_received_at_ns = dg_now dg, pm_message_id = dg_id dg\<rparr>"

lemma receive_datagram_cases:
  "receive_datagram config dg c =
     (if \<not> fits config dg then (c\<lparr>udp_truncated := udp_truncated c + 1\<rparr>, None)
      else if \<not> dg_acquired dg then (c\<lparr>udp_dropped := udp_dropped c + 1\<rparr>, None)
      else (c\<lparr>pending := pending c + 1\<rparr>, Some (to_pending dg)))"
  by (auto simp: receive_datagram_def fits_def recv_from_def to_pending_def Let_def min_def)

lemma serve_datagrams_post:
  "serve_datagrams config events c = (c', pms) \<Longrightarrow>
   pms = map to_pending (filter (\<lambda>dg. fits config dg \<and> dg_acquired dg) (seen events))
   \<and> udp_truncated c' = udp_truncated c + of_nat (length (filter (\<lambda>dg. \<not> fits config dg) (seen events)))
   \<and> udp_dropped c' = udp_dropped c
       + of_nat (length (filter (\<lambda>dg. fits config dg \<and> \<not> dg_acquired dg) (seen events)))
   \<and> pending c' = pending c + of_nat (length pms)
   \<and> messages_delivered c' = messages_delivered c"
proof (induction events arbitrary: c c' pms)
  case (Cons e events)
  show ?case
  proof (cases e)
    case (Datagram_Received dg)
    obtain c1 p where r: "receive_datagram config dg c = (c1, p)"
      by fastforce
    obtain c2 pms' where s: "serve_datagrams config events c1 = (c2, pms')"
      by fastforce
    show ?thesis
      using Cons.prems Cons.IH [OF s] r s Datagram_Received
      by (auto simp: receive_datagram_cases split: if_splits)
  qed (use Cons in simp_all)
qed simp

section \<open>The tasks\<close>

fun accepts :: "attempt_env \<Rightarrow> bool" where
  "accepts env \<longleftrightarrow> enqueue (sends env) = Some True \<and> answer env = Answer Accepted"

lemma datagram_task_post:
  assumes "datagram_task env pm c = Some (c', msgs)"
  shows "messages_delivered c' = messages_delivered c + (if accepts env then 1 else 0)
    \<and> udp_dropped c' = udp_dropped c + (if accepts env then 0 else 1)
    \<and> udp_truncated c' = udp_truncated c \<and> unat (pending c') = unat (pending c) - 1
    \<and> (msgs = [] \<or> msgs = [to_message pm 1]) \<and> (accepts env \<longrightarrow> msgs = [to_message pm 1])"
proof -
  have keep: "udp_dropped (release_pending x) = udp_dropped x" "udp_truncated (release_pending x) = udp_truncated x" for x
    by (simp_all add: release_pending_def)
  show ?thesis
    using assms
    by (auto simp: datagram_task_def deliver_def release_pending_unat keep Let_def
        split: option.splits bool.splits worker_answer.splits HandlerResult.splits)
qed

lemma run_tasks_post:
  "run_tasks tasks c = Some (c', msgs) \<Longrightarrow>
   messages_delivered c' = messages_delivered c + of_nat (length (filter (accepts \<circ> fst) tasks))
   \<and> udp_dropped c' = udp_dropped c + of_nat (length (filter (Not \<circ> accepts \<circ> fst) tasks))
   \<and> udp_truncated c' = udp_truncated c \<and> unat (pending c') = unat (pending c) - length tasks
   \<and> subseq msgs (map (\<lambda>(env, pm). to_message pm 1) tasks)"
proof (induction tasks arbitrary: c msgs)
  case (Cons t tasks)
  obtain env pm where t: "t = (env, pm)"
    by fastforce
  with Cons.prems obtain c1 m1 m2 where step: "datagram_task env pm c = Some (c1, m1)"
      "run_tasks tasks c1 = Some (c', m2)" "msgs = m1 @ m2"
    by (auto split: option.splits)
  from datagram_task_post [OF step(1)] Cons.IH [OF step(2)] show ?case
    unfolding step(3) t by (auto simp del: accepts.simps)
qed simp

section \<open>Properties of the datagram listener\<close>

lemma unat_add_of_nat:
  fixes w :: u64
  assumes "unat w + n < 2 ^ 64"
  shows "unat (w + of_nat n) = unat w + n"
proof -
  have "unat (of_nat n :: u64) = n"
    using assms by (simp only: unat_of_nat) simp
  with assms show ?thesis
    by (simp only: unat_word_ariths) simp
qed

lemma ball_mono_ex:
  assumes "\<forall>x \<in> A. \<exists>y \<in> B. P x y" and "\<And>x y. P x y \<Longrightarrow> Q x y"
  shows "\<forall>x \<in> A. \<exists>y \<in> B. Q x y"
  using assms by blast

lemma length_filter_split:
  "length (filter P xs) = length (filter (\<lambda>x. P x \<and> Q x) xs) + length (filter (\<lambda>x. P x \<and> \<not> Q x) xs)"
  by (induction xs) auto

text \<open>
  C15. Every datagram is accounted for, and none is cut: of those received before shutdown,
  the ones that fill the buffer count as truncated, and of the others each is delivered or
  counted as dropped, whether for want of a permit, a refusal or lost workers; when the tasks
  have run the gauge of pending messages is back where it was. What reaches the queue is the
  whole payload of a datagram, not marked as UTF-8, on its only attempt.
\<close>

theorem datagram_accounting:
  assumes "serve_datagrams config events c = (c1, pms)" and "length envs = length pms"
    and "run_tasks (zip envs pms) c1 = Some (c2, msgs)" and "unat (pending c) + length pms < 2 ^ 64"
  shows "udp_truncated c2 = udp_truncated c
        + of_nat (length (filter (\<lambda>dg. udp_max_datagram_bytes config \<le> length (payload dg)) (seen events)))
    \<and> messages_delivered c2 + udp_dropped c2 = messages_delivered c + udp_dropped c
        + of_nat (length (filter (\<lambda>dg. length (payload dg) < udp_max_datagram_bytes config) (seen events)))
    \<and> pending c2 = pending c
    \<and> (\<forall>m \<in> set msgs. \<exists>dg \<in> set (seen events). length (payload dg) < udp_max_datagram_bytes config
          \<and> msg_bytes m = payload dg \<and> \<not> utf8 m \<and> attempt m = 1 \<and> peer m = Some (IpAddr_to_string (SocketAddr_ip (dg_peer dg))))"
proof -
  let ?in = "filter (\<lambda>dg. fits config dg \<and> dg_acquired dg) (seen events)"
  have post: "pms = map to_pending ?in"
      "udp_truncated c1 = udp_truncated c + of_nat (length (filter (\<lambda>dg. \<not> fits config dg) (seen events)))"
      "udp_dropped c1 = udp_dropped c
        + of_nat (length (filter (\<lambda>dg. fits config dg \<and> \<not> dg_acquired dg) (seen events)))"
      "pending c1 = pending c + of_nat (length pms)" "messages_delivered c1 = messages_delivered c"
    using serve_datagrams_post [OF assms(1)] by blast+
  have run: "messages_delivered c2 = messages_delivered c1 + of_nat (length (filter (accepts \<circ> fst) (zip envs pms)))"
      "udp_dropped c2 = udp_dropped c1 + of_nat (length (filter (Not \<circ> accepts \<circ> fst) (zip envs pms)))"
      "udp_truncated c2 = udp_truncated c1" "unat (pending c2) = unat (pending c1) - length (zip envs pms)"
      "subseq msgs (map (\<lambda>(env, pm). to_message pm 1) (zip envs pms))"
    using run_tasks_post [OF assms(3)] by blast+
  have "length (zip envs pms) = length (filter (accepts \<circ> fst) (zip envs pms))
      + length (filter (Not \<circ> accepts \<circ> fst) (zip envs pms))"
    using sum_length_filter_compl [of "accepts \<circ> fst" "zip envs pms"] by (simp add: comp_def)
  then have "messages_delivered c2 + udp_dropped c2 = messages_delivered c1 + udp_dropped c1 + of_nat (length pms)"
    using assms(2) run(1,2) by simp
  also have "\<dots> = messages_delivered c + udp_dropped c + of_nat (length (filter (fits config) (seen events)))"
    using post(1,3,5) length_filter_split [of "fits config" "seen events" dg_acquired] by simp
  finally have dropped: "messages_delivered c2 + udp_dropped c2 = messages_delivered c + udp_dropped c
      + of_nat (length (filter (fits config) (seen events)))" .
  have "unat (pending c1) = unat (pending c) + length pms"
    using assms(4) post(4) by (simp only: unat_add_of_nat)
  then have pend: "pending c2 = pending c"
    using run(4) assms(2) by (simp add: word_unat_eq_iff)
  have "set msgs \<subseteq> set (map (\<lambda>(env, pm). to_message pm 1) (zip envs pms))"
    by (blast elim: list_emb_set [OF run(5)])
  also have "\<dots> \<subseteq> (\<lambda>pm. to_message pm 1) ` set pms"
    by (auto dest: set_zip_rightD)
  finally have "\<forall>m \<in> set msgs. \<exists>dg \<in> set (seen events). fits config dg \<and> m = to_message (to_pending dg) 1"
    using post(1) by auto
  then have "\<forall>m \<in> set msgs. \<exists>dg \<in> set (seen events). length (payload dg) < udp_max_datagram_bytes config
      \<and> msg_bytes m = payload dg \<and> \<not> utf8 m \<and> attempt m = 1 \<and> peer m = Some (IpAddr_to_string (SocketAddr_ip (dg_peer dg)))"
    by (rule ball_mono_ex) (simp add: fits_def to_message_def to_pending_def)
  moreover have "udp_truncated c2 = udp_truncated c
      + of_nat (length (filter (\<lambda>dg. udp_max_datagram_bytes config \<le> length (payload dg)) (seen events)))"
    using post(2) run(3) by (simp add: fits_def not_less)
  ultimately show ?thesis
    using dropped pend by (simp add: fits_def [abs_def])
qed

definition sample_datagram :: datagram where
  "sample_datagram = \<lparr>payload = [60, 49, 62], dg_peer = SocketAddrV4 [192, 0, 2, 7] 40000, dg_acquired = True, dg_now = 0, dg_id = 1\<rparr>"

theorem datagram_accounting_witness:
  "\<exists>c1 pms c2 msgs. serve_datagrams SyslogConfig_new [Datagram_Received sample_datagram] SyslogCounters_default = (c1, pms)
    \<and> run_tasks (zip [accept_env] pms) c1 = Some (c2, msgs)
    \<and> messages_delivered c2 + udp_dropped c2 = 1 \<and> pending c2 = 0"
proof -
  let ?pm = "to_pending sample_datagram"
  have s: "serve_datagrams SyslogConfig_new [Datagram_Received sample_datagram] SyslogCounters_default
      = (SyslogCounters_default\<lparr>pending := 1\<rparr>, [?pm])"
    by (simp add: receive_datagram_cases fits_def sample_datagram_def SyslogConfig_new_def SyslogCounters_default_def)
  obtain c2 msgs where r: "run_tasks (zip [accept_env] [?pm]) (SyslogCounters_default\<lparr>pending := 1\<rparr>) = Some (c2, msgs)"
    by (simp add: datagram_task_def deliver_def accept_env_def Let_def)
  have "messages_delivered c2 + udp_dropped c2 = 1 \<and> pending c2 = 0"
    using datagram_accounting [OF s _ r]
    by (simp add: sample_datagram_def SyslogConfig_new_def SyslogCounters_default_def)
  with s r show ?thesis
    by blast
qed

end
