(* ===== verification/System.thy ===== *)
theory System
  imports Datagrams Transitions
begin

text \<open>
  The running syslog listeners as one concurrent system (\<open>syslog.rs\<close>): the accept loops of
  \<open>spawn_stream_listener\<close>, the connections of \<open>serve_stream\<close> with their delivery tasks, the
  datagram listener with its tasks, and the shutdown. What they share are the \<open>Dispatcher\<close>
  (counters, gauge of connections, semaphore of credits) and \<open>NEXT_MESSAGE_ID\<close>.

  A step is one access of a task to the shared state; updates of different counters that follow
  each other in one task are one step. \<open>fetch_add\<close> and \<open>fetch_sub\<close> on the gauge of
  connections are steps of their own, because two accept loops race there. An \<open>action\<close> names the step and carries what the outside
  answered; \<open>sys_step\<close> is \<open>None\<close> where the task is not at that point. A run is a list of
  actions, so every interleaving is one. The bytes of a connection are left out here: \<open>Reading n\<close> is a
  reader with \<open>n\<close> frames in its buffer, and what the frames are is the subject of the theory
  Stream. The semaphore is never closed and \<open>deliver_stream_messages\<close> has no exit before its channel is
  closed, so acquiring a permit and sending to the channel do not fail.
\<close>

section \<open>The state\<close>

datatype acceptor = Selecting | Refusing | Admitting | AcceptorDone

datatype reader = InHeader | Reading nat | ReadingDone | StreamClosed | StreamUnwound

record conn =
  reader :: reader
  workers_gone :: bool

text \<open>
  A message from its permit on: the permit acquired, the \<open>PendingMessage\<close> built, counted as
  pending and on its way to the channel, in the channel, at its attempt, settled with the
  permit still held, and dropped.
\<close>

datatype phase =
    Granted
  | Numbered PendingMessage
  | Sending PendingMessage
  | InChannel PendingMessage
  | Delivering PendingMessage u32
  | Settled PendingMessage fate
  | Dropped PendingMessage fate

text \<open>The connection a message came from; \<open>None\<close> for a datagram.\<close>

record tracked =
  owner :: "nat option"
  phase :: phase

text \<open>\<open>swept\<close> and \<open>denied\<close> record what the counters were raised by at a drain timeout and for want of a permit.\<close>

record system =
  shared :: Dispatcher
  credits :: nat
  NEXT_MESSAGE_ID :: u64
  cancelled :: bool
  acceptors :: "acceptor list"
  receiving :: bool
  conns :: "conn list"
  messages :: "tracked list"
  swept :: nat
  denied :: nat

text \<open>What \<open>start_listeners\<close> sets up for \<open>n\<close> stream listeners and perhaps a datagram one,
  on the first start of a server: its counters are zero.\<close>

definition system_init :: "SyslogConfig \<Rightarrow> nat \<Rightarrow> bool \<Rightarrow> u64 \<Rightarrow> system" where
  "system_init config n datagrams next_id =
     \<lparr>shared = \<lparr>counters = SyslogCounters_default, connections = 0\<rparr>, credits = max_pending config,
      NEXT_MESSAGE_ID = next_id, cancelled = False, acceptors = replicate n Selecting,
      receiving = datagrams, conns = [], messages = [], swept = 0, denied = 0\<rparr>"

definition at :: "'a list \<Rightarrow> nat \<Rightarrow> 'a option" where
  "at xs i = (if i < length xs then Some (xs ! i) else None)"

definition on_counters :: "(SyslogCounters \<Rightarrow> SyslogCounters) \<Rightarrow> system \<Rightarrow> system" where
  "on_counters f s = s\<lparr>shared := (shared s)\<lparr>counters := f (counters (shared s))\<rparr>\<rparr>"

definition set_acceptor :: "nat \<Rightarrow> acceptor \<Rightarrow> system \<Rightarrow> system" where
  "set_acceptor i a s = s\<lparr>acceptors := (acceptors s)[i := a]\<rparr>"

definition set_reader :: "nat \<Rightarrow> reader \<Rightarrow> system \<Rightarrow> system" where
  "set_reader k r s = s\<lparr>conns := (conns s)[k := (conns s ! k)\<lparr>reader := r\<rparr>]\<rparr>"

definition set_phase :: "nat \<Rightarrow> phase \<Rightarrow> system \<Rightarrow> system" where
  "set_phase m p s = s\<lparr>messages := (messages s)[m := (messages s ! m)\<lparr>phase := p\<rparr>]\<rparr>"

definition reader_at :: "system \<Rightarrow> nat \<Rightarrow> reader option" where
  "reader_at s k = map_option reader (at (conns s) k)"

definition phase_at :: "system \<Rightarrow> nat \<Rightarrow> phase option" where
  "phase_at s m = map_option phase (at (messages s) m)"

section \<open>The accept loops\<close>

text \<open>\<open>connections.fetch_add(1)\<close> on a new connection, compared with the limit.\<close>

definition accept_stream :: "SyslogConfig \<Rightarrow> nat \<Rightarrow> system \<Rightarrow> system option" where
  "accept_stream config i s =
     (if at (acceptors s) i = Some Selecting then
        let previous = connections (shared s) in
        Some (set_acceptor i (if previous \<ge> max_connections config then Refusing else Admitting)
                (s\<lparr>shared := (shared s)\<lparr>connections := previous + 1\<rparr>\<rparr>))
      else None)"

definition refuse_stream :: "nat \<Rightarrow> system \<Rightarrow> system option" where
  "refuse_stream i s =
     (if at (acceptors s) i = Some Refusing then
        Some (set_acceptor i Selecting (on_counters (\<lambda>c. c\<lparr>connections_refused := connections_refused c + 1\<rparr>)
                (s\<lparr>shared := (shared s)\<lparr>connections := connections (shared s) - 1\<rparr>\<rparr>)))
      else None)"

definition spawn_stream :: "SyslogConfig \<Rightarrow> nat \<Rightarrow> system \<Rightarrow> system option" where
  "spawn_stream config i s =
     (if at (acceptors s) i = Some Admitting then
        Some (set_acceptor i Selecting (on_counters (\<lambda>c. c\<lparr>connections_opened := connections_opened c + 1\<rparr>)
                (s\<lparr>conns := conns s
                    @ [\<lparr>reader = (if proxy_protocol config then InHeader else Reading 0), workers_gone = False\<rparr>]\<rparr>)))
      else None)"

definition stop_acceptor :: "nat \<Rightarrow> system \<Rightarrow> system option" where
  "stop_acceptor i s =
     (if at (acceptors s) i = Some Selecting \<and> cancelled s then Some (set_acceptor i AcceptorDone s) else None)"

section \<open>The reader of a connection\<close>

text \<open>The task that frames a message handles it to the send or the spawn before it frames another.\<close>

fun in_hand :: "phase \<Rightarrow> bool" where
  "in_hand Granted = True"
| "in_hand (Numbered _) = True"
| "in_hand (Sending _) = True"
| "in_hand _ = False"

definition framing_free :: "nat option \<Rightarrow> system \<Rightarrow> bool" where
  "framing_free k s \<longleftrightarrow> \<not> list_ex (\<lambda>t. owner t = k \<and> in_hand (phase t)) (messages s)"

definition header_read :: "nat \<Rightarrow> nat \<Rightarrow> system \<Rightarrow> system option" where
  "header_read k n s =
     (if reader_at s k = Some InHeader then Some (set_reader k (Reading n) s) else None)"

definition header_failed :: "nat \<Rightarrow> ProxyFailure \<Rightarrow> system \<Rightarrow> system option" where
  "header_failed k failure s =
     (if reader_at s k = Some InHeader then
        let s' = on_counters (ProxyFailure_record failure) s
        in Some (set_reader k StreamClosed (s'\<lparr>shared := close_stream (shared s')\<rparr>))
      else None)"

definition read_more :: "nat \<Rightarrow> nat \<Rightarrow> system \<Rightarrow> system option" where
  "read_more k n s =
     (if reader_at s k = Some (Reading 0) \<and> framing_free (Some k) s then Some (set_reader k (Reading n) s) else None)"

definition acquire_permit :: "nat \<Rightarrow> system \<Rightarrow> system option" where
  "acquire_permit k s =
     (case reader_at s k of
        Some (Reading (Suc n)) \<Rightarrow>
          if framing_free (Some k) s \<and> 0 < credits s then
            Some (set_reader k (Reading n)
              (s\<lparr>credits := credits s - 1, messages := messages s @ [\<lparr>owner = Some k, phase = Granted\<rparr>]\<rparr>))
          else None
      | _ \<Rightarrow> None)"

definition reject_frame :: "nat \<Rightarrow> FrameError \<Rightarrow> system \<Rightarrow> system option" where
  "reject_frame k error s =
     (case reader_at s k of
        Some (Reading (Suc n)) \<Rightarrow>
          if framing_free (Some k) s then
            Some (set_reader k (if fatal error then ReadingDone else Reading n)
              (on_counters (\<lambda>c. record_rejection c (reason error)) s))
          else None
      | _ \<Rightarrow> None)"

definition end_reading :: "nat \<Rightarrow> system \<Rightarrow> system option" where
  "end_reading k s =
     (if reader_at s k = Some (Reading 0) \<and> framing_free (Some k) s then Some (set_reader k ReadingDone s) else None)"

definition unwind_stream :: "nat \<Rightarrow> system \<Rightarrow> system option" where
  "unwind_stream k s =
     (case reader_at s k of
        Some (Reading n) \<Rightarrow> if framing_free (Some k) s then Some (set_reader k StreamUnwound s) else None
      | _ \<Rightarrow> None)"

text \<open>\<open>delivery.await\<close> returns when the messages of the connection are gone; then \<open>close_stream\<close>.\<close>

fun gone :: "phase \<Rightarrow> bool" where
  "gone (Dropped _ _) = True"
| "gone _ = False"

definition finish_stream :: "nat \<Rightarrow> system \<Rightarrow> system option" where
  "finish_stream k s =
     (if reader_at s k = Some ReadingDone \<and> list_all (\<lambda>t. owner t = Some k \<longrightarrow> gone (phase t)) (messages s)
      then Some (set_reader k StreamClosed (s\<lparr>shared := close_stream (shared s)\<rparr>))
      else None)"

section \<open>The datagram listener\<close>

definition truncated_datagram :: "system \<Rightarrow> system option" where
  "truncated_datagram s =
     (if receiving s \<and> framing_free None s
      then Some (on_counters (\<lambda>c. c\<lparr>udp_truncated := udp_truncated c + 1\<rparr>) s) else None)"

text \<open>\<open>try_acquire_owned\<close>: with no permit free the datagram is dropped.\<close>

definition try_acquire :: "system \<Rightarrow> system option" where
  "try_acquire s =
     (if receiving s \<and> framing_free None s then
        Some (if 0 < credits s
              then s\<lparr>credits := credits s - 1, messages := messages s @ [\<lparr>owner = None, phase = Granted\<rparr>]\<rparr>
              else on_counters (\<lambda>c. c\<lparr>udp_dropped := udp_dropped c + 1\<rparr>) (s\<lparr>denied := denied s + 1\<rparr>))
      else None)"

definition stop_datagrams :: "system \<Rightarrow> system option" where
  "stop_datagrams s =
     (if receiving s \<and> framing_free None s \<and> cancelled s then Some (s\<lparr>receiving := False\<rparr>) else None)"

section \<open>The way of a message\<close>

definition build_message :: "nat \<Rightarrow> PendingMessage \<Rightarrow> system \<Rightarrow> system option" where
  "build_message m pm s =
     (if phase_at s m = Some Granted then
        let stream = owner (messages s ! m) \<noteq> None;
            built = pm\<lparr>pm_utf8 := stream, pm_transport := (if stream then Stream else Datagram),
                       pm_message_id := NEXT_MESSAGE_ID s\<rparr>
        in Some (set_phase m (Numbered built) (s\<lparr>NEXT_MESSAGE_ID := NEXT_MESSAGE_ID s + 1\<rparr>))
      else None)"

definition count_pending :: "nat \<Rightarrow> system \<Rightarrow> system option" where
  "count_pending m s =
     (case phase_at s m of
        Some (Numbered pm) \<Rightarrow> Some (set_phase m (Sending pm) (on_counters (\<lambda>c. c\<lparr>pending := pending c + 1\<rparr>) s))
      | _ \<Rightarrow> None)"

text \<open>The bounded channel of a connection takes a message while it has room.\<close>

fun in_channel :: "phase \<Rightarrow> bool" where
  "in_channel (InChannel _) = True"
| "in_channel _ = False"

definition send_pending :: "SyslogConfig \<Rightarrow> nat \<Rightarrow> system \<Rightarrow> system option" where
  "send_pending config m s =
     (case (phase_at s m, owner (messages s ! m)) of
        (Some (Sending pm), Some k) \<Rightarrow>
          if length (filter (\<lambda>t. owner t = Some k \<and> in_channel (phase t)) (messages s))
             < max_pending_per_connection config
          then Some (set_phase m (InChannel pm) s) else None
      | _ \<Rightarrow> None)"

text \<open>The task spawned for a datagram.\<close>

definition spawn_delivery :: "nat \<Rightarrow> system \<Rightarrow> system option" where
  "spawn_delivery m s =
     (case (phase_at s m, owner (messages s ! m)) of
        (Some (Sending pm), None) \<Rightarrow> Some (set_phase m (Delivering pm 1) s)
      | _ \<Rightarrow> None)"

text \<open>
  \<open>pending_rx.recv\<close>: the delivery task takes the oldest message of its channel once the one
  before is dropped; when it knows that the workers are gone it abandons the message.
\<close>

fun at_work :: "phase \<Rightarrow> bool" where
  "at_work (Delivering _ _) = True"
| "at_work (Settled _ _) = True"
| "at_work _ = False"

definition receive_pending :: "nat \<Rightarrow> system \<Rightarrow> system option" where
  "receive_pending m s =
     (case (phase_at s m, owner (messages s ! m)) of
        (Some (InChannel pm), Some k) \<Rightarrow>
          if list_ex (\<lambda>t. owner t = Some k \<and> at_work (phase t)) (messages s)
           \<or> list_ex (\<lambda>t. owner t = Some k \<and> in_channel (phase t)) (take m (messages s))
          then None
          else if workers_gone (conns s ! k)
          then Some (set_phase m (Settled pm WorkersGone) (on_counters abandon_pending s))
          else Some (set_phase m (Delivering pm 1) s)
      | _ \<Rightarrow> None)"

text \<open>What a task does with the outcome of an attempt.\<close>

definition stream_outcome :: "nat \<Rightarrow> nat \<Rightarrow> PendingMessage \<Rightarrow> u32 \<Rightarrow> DeliveryOutcome \<Rightarrow> system \<Rightarrow> system" where
  "stream_outcome m k pm att out s =
     (case out of
        OutcomeAccepted \<Rightarrow> set_phase m (Settled pm Taken) (on_counters release_pending s)
      | OutcomeRefused \<Rightarrow>
          if cancelled s then set_phase m (Settled pm GivenUp) (on_counters abandon_pending s)
          else set_phase m (Delivering pm (att + 1)) s
      | Unavailable \<Rightarrow>
          set_phase m (Settled pm WorkersGone) (on_counters abandon_pending
            (s\<lparr>conns := (conns s)[k := (conns s ! k)\<lparr>workers_gone := True\<rparr>]\<rparr>)))"

definition datagram_outcome :: "nat \<Rightarrow> PendingMessage \<Rightarrow> DeliveryOutcome \<Rightarrow> system \<Rightarrow> system" where
  "datagram_outcome m pm out s =
     (case out of
        OutcomeAccepted \<Rightarrow> set_phase m (Settled pm Taken) (on_counters release_pending s)
      | _ \<Rightarrow> set_phase m (Settled pm GivenUp)
               (on_counters (\<lambda>c. release_pending (c\<lparr>udp_dropped := udp_dropped c + 1\<rparr>)) s))"

definition attempt_delivery :: "nat \<Rightarrow> attempt_env \<Rightarrow> system \<Rightarrow> system option" where
  "attempt_delivery m env s =
     (case phase_at s m of
        Some (Delivering pm att) \<Rightarrow>
          (case deliver env pm att (counters (shared s)) of
             None \<Rightarrow> None
           | Some (out, c, _) \<Rightarrow>
               let s' = on_counters (\<lambda>_. c) s in
               Some (case owner (messages s ! m) of
                   Some k \<Rightarrow> stream_outcome m k pm att out s'
                 | None \<Rightarrow> datagram_outcome m pm out s'))
      | _ \<Rightarrow> None)"

definition drop_permit :: "nat \<Rightarrow> system \<Rightarrow> system option" where
  "drop_permit m s =
     (case phase_at s m of
        Some (Settled pm f) \<Rightarrow> Some (set_phase m (Dropped pm f) (s\<lparr>credits := credits s + 1\<rparr>))
      | _ \<Rightarrow> None)"

section \<open>Shutdown\<close>

definition drain_timeout :: "SyslogCounters \<Rightarrow> SyslogCounters" where
  "drain_timeout c =
     (let abandoned = pending c in
      c\<lparr>pending := 0, abandoned_at_shutdown := abandoned_at_shutdown c + abandoned\<rparr>)"

definition time_out_drain :: "system \<Rightarrow> system option" where
  "time_out_drain s =
     (if cancelled s
      then Some (on_counters drain_timeout (s\<lparr>swept := swept s + unat (pending (counters (shared s)))\<rparr>))
      else None)"

section \<open>Runs\<close>

datatype action =
    Accept_Stream nat | Refuse_Stream nat | Spawn_Stream nat | Stop_Acceptor nat
  | Header_Read nat nat | Header_Failed nat ProxyFailure
  | Read_More nat nat | Acquire_Permit nat | Reject_Frame nat FrameError | End_Reading nat
  | Unwind_Stream nat | Finish_Stream nat
  | Truncated_Datagram | Try_Acquire | Stop_Datagrams
  | Build_Message nat PendingMessage | Count_Pending nat | Send_Pending nat | Spawn_Delivery nat
  | Receive_Pending nat | Attempt_Delivery nat attempt_env | Drop_Permit nat
  | Stop_Accepting | Time_Out_Drain

fun sys_step :: "SyslogConfig \<Rightarrow> action \<Rightarrow> system \<Rightarrow> system option" where
  "sys_step config (Accept_Stream i) s = accept_stream config i s"
| "sys_step config (Refuse_Stream i) s = refuse_stream i s"
| "sys_step config (Spawn_Stream i) s = spawn_stream config i s"
| "sys_step config (Stop_Acceptor i) s = stop_acceptor i s"
| "sys_step config (Header_Read k n) s = header_read k n s"
| "sys_step config (Header_Failed k failure) s = header_failed k failure s"
| "sys_step config (Read_More k n) s = read_more k n s"
| "sys_step config (Acquire_Permit k) s = acquire_permit k s"
| "sys_step config (Reject_Frame k error) s = reject_frame k error s"
| "sys_step config (End_Reading k) s = end_reading k s"
| "sys_step config (Unwind_Stream k) s = unwind_stream k s"
| "sys_step config (Finish_Stream k) s = finish_stream k s"
| "sys_step config Truncated_Datagram s = truncated_datagram s"
| "sys_step config Try_Acquire s = try_acquire s"
| "sys_step config Stop_Datagrams s = stop_datagrams s"
| "sys_step config (Build_Message m pm) s = build_message m pm s"
| "sys_step config (Count_Pending m) s = count_pending m s"
| "sys_step config (Send_Pending m) s = send_pending config m s"
| "sys_step config (Spawn_Delivery m) s = spawn_delivery m s"
| "sys_step config (Receive_Pending m) s = receive_pending m s"
| "sys_step config (Attempt_Delivery m env) s = attempt_delivery m env s"
| "sys_step config (Drop_Permit m) s = drop_permit m s"
| "sys_step config Stop_Accepting s = Some (s\<lparr>cancelled := True\<rparr>)"
| "sys_step config Time_Out_Drain s = time_out_drain s"

definition run :: "SyslogConfig \<Rightarrow> action list \<Rightarrow> system \<Rightarrow> system option" where
  "run config = runs (sys_step config)"

end
