(* ===== verification/System_Invariants.thy ===== *)
theory System_Invariants
  imports System
begin

text \<open>
  What holds in every state the syslog listeners can reach, whatever the interleaving: the
  permits add up to \<open>max_pending\<close>, the gauge of pending messages counts those between framing
  and a handler, the gauge of connections counts the open ones and those being admitted or
  refused, the counters say how each message ended, identities are not reused, and the messages of
  one connection go through in order.
\<close>

section \<open>Counting\<close>

definition count_if :: "('a \<Rightarrow> bool) \<Rightarrow> 'a list \<Rightarrow> nat" where
  "count_if P xs = length (filter P xs)"

lemma count_if_simps [simp]:
  "count_if P [] = 0"
  "count_if P (x # xs) = (if P x then Suc (count_if P xs) else count_if P xs)"
  "count_if P (xs @ ys) = count_if P xs + count_if P ys"
  by (simp_all add: count_if_def)

lemma count_if_le_length: "count_if P xs \<le> length xs"
  by (simp add: count_if_def)

lemma count_if_mono: "(\<And>x. P x \<Longrightarrow> Q x) \<Longrightarrow> count_if P xs \<le> count_if Q xs"
  by (induction xs) (auto intro: le_SucI)

lemma count_if_map: "count_if P (map f xs) = count_if (\<lambda>x. P (f x)) xs"
  by (induction xs) auto

lemma count_if_update:
  assumes "i < length xs"
  shows "count_if P (xs[i := y]) + of_bool (P (xs ! i)) = count_if P xs + of_bool (P y)"
proof -
  have "count_if P xs = count_if P (take i xs @ xs ! i # drop (Suc i) xs)"
    using assms by (simp add: id_take_nth_drop [symmetric])
  with assms show ?thesis
    by (simp add: upd_conv_take_nth_drop)
qed

lemma count_if_pos: "i < length xs \<Longrightarrow> P (xs ! i) \<Longrightarrow> 0 < count_if P xs"
  by (auto simp: count_if_def filter_empty_conv)

lemma count_if_same [simp]: "i < length xs \<Longrightarrow> P y = P (xs ! i) \<Longrightarrow> count_if P (xs[i := y]) = count_if P xs"
  using count_if_update [of i xs P y] by simp

lemma count_if_gain [simp]:
  "i < length xs \<Longrightarrow> \<not> P (xs ! i) \<Longrightarrow> P y \<Longrightarrow> count_if P (xs[i := y]) = Suc (count_if P xs)"
  using count_if_update [of i xs P y] by simp

lemma count_if_lose:
  "i < length xs \<Longrightarrow> P (xs ! i) \<Longrightarrow> \<not> P y \<Longrightarrow> Suc (count_if P (xs[i := y])) = count_if P xs"
  using count_if_update [of i xs P y] by simp

section \<open>Reading the steps\<close>

lemma at_Some [simp]: "at xs i = Some x \<longleftrightarrow> i < length xs \<and> xs ! i = x"
  by (auto simp: at_def)

lemma reader_at_Some [simp]: "reader_at s k = Some r \<longleftrightarrow> k < length (conns s) \<and> reader (conns s ! k) = r"
  by (auto simp: reader_at_def)

lemma phase_at_Some [simp]: "phase_at s m = Some p \<longleftrightarrow> m < length (messages s) \<and> phase (messages s ! m) = p"
  by (auto simp: phase_at_def)

lemmas state_defs = set_phase_def set_reader_def set_acceptor_def on_counters_def

lemmas step_defs =
  accept_stream_def refuse_stream_def spawn_stream_def stop_acceptor_def header_read_def
  header_failed_def read_more_def end_reading_def finish_stream_def truncated_datagram_def
  try_acquire_def stop_datagrams_def build_message_def time_out_drain_def

lemmas outcome_defs = stream_outcome_def datagram_outcome_def

text \<open>The steps that look at a reader or at a phase, read backwards.\<close>

named_theorems step_elims

lemma acquire_permitE [step_elims]:
  assumes "acquire_permit k s = Some s'"
  obtains n where "k < length (conns s)" "reader (conns s ! k) = Reading (Suc n)" "framing_free (Some k) s"
    "0 < credits s" "s' = set_reader k (Reading n)
      (s\<lparr>credits := credits s - 1, messages := messages s @ [\<lparr>owner = Some k, phase = Granted\<rparr>]\<rparr>)"
  using assms by (auto simp: acquire_permit_def split: option.splits reader.splits nat.splits if_splits)

lemma reject_frameE [step_elims]:
  assumes "reject_frame k error s = Some s'"
  obtains n where "k < length (conns s)" "reader (conns s ! k) = Reading (Suc n)" "framing_free (Some k) s"
    "s' = set_reader k (if fatal error then ReadingDone else Reading n)
      (on_counters (\<lambda>c. record_rejection c (reason error)) s)"
  using assms by (auto simp: reject_frame_def split: option.splits reader.splits nat.splits if_splits)

lemma unwind_streamE [step_elims]:
  assumes "unwind_stream k s = Some s'"
  obtains n where "k < length (conns s)" "reader (conns s ! k) = Reading n" "framing_free (Some k) s"
    "s' = set_reader k StreamUnwound s"
  using assms by (auto simp: unwind_stream_def split: option.splits reader.splits if_splits)

lemma count_pendingE [step_elims]:
  assumes "count_pending m s = Some s'"
  obtains pm where "m < length (messages s)" "phase (messages s ! m) = Numbered pm"
    "s' = set_phase m (Sending pm) (on_counters (\<lambda>c. c\<lparr>pending := pending c + 1\<rparr>) s)"
  using assms by (auto simp: count_pending_def split: option.splits phase.splits)

lemma send_pendingE [step_elims]:
  assumes "send_pending config m s = Some s'"
  obtains pm k where "m < length (messages s)" "phase (messages s ! m) = Sending pm" "owner (messages s ! m) = Some k"
    "length (filter (\<lambda>t. owner t = Some k \<and> in_channel (phase t)) (messages s)) < max_pending_per_connection config"
    "s' = set_phase m (InChannel pm) s"
  using assms by (auto simp: send_pending_def split: option.splits phase.splits if_splits)

lemma spawn_deliveryE [step_elims]:
  assumes "spawn_delivery m s = Some s'"
  obtains pm where "m < length (messages s)" "phase (messages s ! m) = Sending pm" "owner (messages s ! m) = None"
    "s' = set_phase m (Delivering pm 1) s"
  using assms by (auto simp: spawn_delivery_def split: option.splits phase.splits)

lemma receive_pendingE [step_elims]:
  assumes "receive_pending m s = Some s'"
  obtains pm k where "m < length (messages s)" "phase (messages s ! m) = InChannel pm" "owner (messages s ! m) = Some k"
    "\<not> list_ex (\<lambda>t. owner t = Some k \<and> at_work (phase t)) (messages s)"
    "\<not> list_ex (\<lambda>t. owner t = Some k \<and> in_channel (phase t)) (take m (messages s))"
    "s' = (if workers_gone (conns s ! k)
           then set_phase m (Settled pm WorkersGone) (on_counters abandon_pending s)
           else set_phase m (Delivering pm 1) s)"
  using assms by (auto simp: receive_pending_def split: option.splits phase.splits if_splits)

lemma drop_permitE [step_elims]:
  assumes "drop_permit m s = Some s'"
  obtains pm f where "m < length (messages s)" "phase (messages s ! m) = Settled pm f"
    "s' = set_phase m (Dropped pm f) (s\<lparr>credits := credits s + 1\<rparr>)"
  using assms by (auto simp: drop_permit_def split: option.splits phase.splits)

text \<open>
  An attempt: the message stays for the next one, or it is settled and leaves the gauge, and
  its connection may learn that the workers are gone.
\<close>

lemma attempt_deliveryE [step_elims]:
  assumes "attempt_delivery m env s = Some s'"
  obtains (again) pm att c k where "m < length (messages s)" "phase (messages s ! m) = Delivering pm att"
      "\<exists>msgs. deliver env pm att (counters (shared s)) = Some (OutcomeRefused, c, msgs)"
      "owner (messages s ! m) = Some k" "\<not> cancelled s"
      "s' = set_phase m (Delivering pm (att + 1)) (on_counters (\<lambda>_. c) s)"
    | (settle) pm att out c f cs c' where "m < length (messages s)" "phase (messages s ! m) = Delivering pm att"
      "\<exists>msgs. deliver env pm att (counters (shared s)) = Some (out, c, msgs)"
      "map reader cs = map reader (conns s)"
      "f = Taken \<longleftrightarrow> out = OutcomeAccepted"
      "c' = (if f = Taken then release_pending c
             else if owner (messages s ! m) = None then release_pending (c\<lparr>udp_dropped := udp_dropped c + 1\<rparr>)
             else abandon_pending c)"
      "s' = set_phase m (Settled pm f) (on_counters (\<lambda>_. c') (s\<lparr>conns := cs\<rparr>))"
proof -
  obtain pm att out c msgs where a: "m < length (messages s)" "phase (messages s ! m) = Delivering pm att"
      "deliver env pm att (counters (shared s)) = Some (out, c, msgs)"
      "s' = (case owner (messages s ! m) of Some k \<Rightarrow> stream_outcome m k pm att out (on_counters (\<lambda>_. c) s)
             | None \<Rightarrow> datagram_outcome m pm out (on_counters (\<lambda>_. c) s))"
    using assms by (auto simp: attempt_delivery_def Let_def split: option.splits phase.splits)
  show ?thesis
  proof (cases "owner (messages s ! m)")
    case None
    with a show ?thesis
      by (intro settle [OF a(1,2), where cs = "conns s" and out = out and c = c
            and f = "if out = OutcomeAccepted then Taken else GivenUp", OF _ _ _ refl])
        (auto simp: datagram_outcome_def state_defs split: DeliveryOutcome.splits)
  next
    case (Some k)
    let ?gone = "(conns s)[k := (conns s ! k)\<lparr>workers_gone := True\<rparr>]"
    have readers: "map reader ?gone = map reader (conns s)"
      by (cases "k < length (conns s)") (simp_all add: map_update list_update_same_conv list_update_beyond)
    show ?thesis
    proof (cases "out = OutcomeRefused \<and> \<not> cancelled s")
      case True
      with a Some show ?thesis
        by (intro again [OF a(1,2) _ Some]) (auto simp: stream_outcome_def state_defs)
    next
      case False
      with a Some readers show ?thesis
        by (intro settle [OF a(1,2), where cs = "if out = Unavailable then ?gone else conns s" and out = out and c = c
              and f = "if out = OutcomeAccepted then Taken else if out = Unavailable then WorkersGone else GivenUp",
              OF _ _ _ refl])
          (auto simp: stream_outcome_def state_defs split: DeliveryOutcome.splits)
    qed
  qed
qed

section \<open>Permits\<close>

definition permits_ok :: "SyslogConfig \<Rightarrow> system \<Rightarrow> bool" where
  "permits_ok config s \<longleftrightarrow> credits s + count_if (\<lambda>t. \<not> gone (phase t)) (messages s) = max_pending config"

lemma permits_step:
  assumes "permits_ok config s" and "sys_step config a s = Some s'"
  shows "permits_ok config s'"
proof (cases a)
  case (Drop_Permit m)
  then obtain pm f where "m < length (messages s)" "phase (messages s ! m) = Settled pm f"
      "s' = set_phase m (Dropped pm f) (s\<lparr>credits := credits s + 1\<rparr>)"
    using assms(2) by (auto elim: drop_permitE)
  with assms(1) count_if_lose [of m "messages s" "\<lambda>t. \<not> gone (phase t)" "(messages s ! m)\<lparr>phase := Dropped pm f\<rparr>"]
  show ?thesis
    by (simp add: permits_ok_def state_defs)
qed (use assms in \<open>auto simp: permits_ok_def step_defs state_defs Let_def split: if_splits elim!: step_elims\<close>)

section \<open>The gauge of pending messages\<close>

fun counted :: "phase \<Rightarrow> bool" where
  "counted (Sending _) = True"
| "counted (InChannel _) = True"
| "counted (Delivering _ _) = True"
| "counted _ = False"

definition waiting :: "system \<Rightarrow> nat" where
  "waiting s = count_if (\<lambda>t. counted (phase t)) (messages s)"

definition gauge :: "system \<Rightarrow> nat" where
  "gauge s = unat (pending (counters (shared s)))"

text \<open>Until a drain times out the gauge is exact; after that it may be below, by what was swept.\<close>

definition gauge_ok :: "system \<Rightarrow> bool" where
  "gauge_ok s \<longleftrightarrow> gauge s \<le> waiting s \<and> waiting s \<le> gauge s + swept s"

lemma waiting_le_permits: "permits_ok config s \<Longrightarrow> waiting s + credits s \<le> max_pending config"
  using count_if_mono [of "\<lambda>t. counted (phase t)" "\<lambda>t. \<not> gone (phase t)" "messages s"]
  by (fastforce simp: waiting_def permits_ok_def elim: counted.elims)

text \<open>A message that leaves the gauge.\<close>

lemma gauge_release:
  assumes "gauge_ok s" and "m < length (messages s)" and "counted (phase (messages s ! m))" and "\<not> counted p"
    and "messages s' = (messages s)[m := (messages s ! m)\<lparr>phase := p\<rparr>]"
    and "gauge s' = gauge s - 1" and "swept s' = swept s"
  shows "gauge_ok s'"
  using assms count_if_lose [of m "messages s" "\<lambda>t. counted (phase t)" "(messages s ! m)\<lparr>phase := p\<rparr>"]
  by (auto simp: gauge_ok_def waiting_def)

lemma gauge_count:
  assumes "gauge_ok s" and "permits_ok config s" and "max_pending config < 2 ^ 64"
    and "sys_step config (Count_Pending m) s = Some s'"
  shows "gauge_ok s'"
proof -
  from assms(4) obtain pm where m: "m < length (messages s)" "phase (messages s ! m) = Numbered pm"
      "s' = set_phase m (Sending pm) (on_counters (\<lambda>c. c\<lparr>pending := pending c + 1\<rparr>) s)"
    by (auto elim: count_pendingE)
  have "waiting s' = Suc (waiting s)"
    using m by (simp add: waiting_def state_defs)
  moreover have "permits_ok config s'"
    using permits_step [OF assms(2,4)] .
  ultimately have "gauge s + 1 < 2 ^ 64"
    using waiting_le_permits [of config s'] assms(1,3) by (simp add: gauge_ok_def)
  then have "gauge s' = Suc (gauge s)"
    using m(3) unat_add_of_nat [of "pending (counters (shared s))" 1] by (simp add: gauge_def state_defs)
  moreover have "swept s' = swept s"
    using m(3) by (simp add: state_defs)
  ultimately show ?thesis
    using assms(1) \<open>waiting s' = Suc (waiting s)\<close> by (simp add: gauge_ok_def)
qed

lemma pending_deliver: "deliver env pm att c = Some (out, c', msgs) \<Longrightarrow> pending c' = pending c"
  by (auto simp: deliver_def split: option.splits bool.splits worker_answer.splits HandlerResult.splits)

lemma gauge_attempt:
  assumes "gauge_ok s" and "sys_step config (Attempt_Delivery m env) s = Some s'"
  shows "gauge_ok s'"
  using assms(2) [simplified]
proof (cases rule: attempt_deliveryE)
  case (again pm att c k)
  with assms(1) show ?thesis
    by (auto simp: state_defs gauge_ok_def gauge_def waiting_def dest: pending_deliver)
next
  case (settle pm att out c f cs c')
  then show ?thesis
    by (intro gauge_release [OF assms(1), where m = m and p = "Settled pm f"])
      (auto simp: state_defs gauge_def release_pending_unat dest: pending_deliver)
qed

lemma gauge_receive:
  assumes "gauge_ok s" and "sys_step config (Receive_Pending m) s = Some s'"
  shows "gauge_ok s'"
  using assms(2) [simplified]
proof (cases rule: receive_pendingE)
  case (1 pm k)
  show ?thesis
  proof (cases "workers_gone (conns s ! k)")
    case True
    with 1 show ?thesis
      by (intro gauge_release [OF assms(1), where m = m and p = "Settled pm WorkersGone"])
        (simp_all add: state_defs gauge_def)
  next
    case False
    with 1 assms(1) show ?thesis
      by (simp add: state_defs gauge_ok_def gauge_def waiting_def)
  qed
qed

lemma pending_other [simp]:
  "pending (record_rejection c r) = pending c"
  "pending (ProxyFailure_record failure c) = pending c"
  "pending (counters (close_stream d)) = pending (counters d)"
  by (cases r; cases failure; simp add: close_stream_def)+

lemma gauge_step:
  assumes "gauge_ok s" and "permits_ok config s" and "max_pending config < 2 ^ 64"
    and "sys_step config a s = Some s'"
  shows "gauge_ok s'"
proof (cases a)
  case (Count_Pending m)
  with assms gauge_count show ?thesis
    by blast
next
  case (Attempt_Delivery m env)
  with assms gauge_attempt show ?thesis
    by blast
next
  case (Receive_Pending m)
  with assms gauge_receive show ?thesis
    by blast
next
  case Time_Out_Drain
  with assms show ?thesis
    by (auto simp: time_out_drain_def drain_timeout_def state_defs gauge_ok_def gauge_def waiting_def Let_def
        split: if_splits)
qed (use assms in \<open>auto simp: gauge_ok_def gauge_def waiting_def step_defs state_defs Let_def
      split: if_splits elim!: step_elims\<close>)

section \<open>The gauge of connections\<close>

definition in_admission :: "acceptor \<Rightarrow> bool" where
  "in_admission a \<longleftrightarrow> a = Refusing \<or> a = Admitting"

definition open_connections :: "system \<Rightarrow> nat" where
  "open_connections s = count_if (\<lambda>c. reader c \<noteq> StreamClosed) (conns s)"

definition admitting :: "system \<Rightarrow> nat" where
  "admitting s = count_if (\<lambda>a. a = Admitting) (acceptors s)"

definition conns_ok :: "SyslogConfig \<Rightarrow> system \<Rightarrow> bool" where
  "conns_ok config s \<longleftrightarrow>
     unat (max_connections config) + length (acceptors s) < 2 ^ 64
     \<and> unat (connections (shared s)) = open_connections s + count_if in_admission (acceptors s)
     \<and> open_connections s + admitting s \<le> unat (max_connections config)
     \<and> connections_opened (counters (shared s))
         = connections_closed (counters (shared s)) + of_nat (open_connections s)"

lemma admission_split:
  "count_if in_admission xs = count_if (\<lambda>a. a = Refusing) xs + count_if (\<lambda>a. a = Admitting) xs"
  by (induction xs) (auto simp: in_admission_def)

lemma unat_minus_one_u64: "0 < unat w \<Longrightarrow> unat (w - 1 :: u64) = unat w - 1"
  by (metis One_nat_def Suc_leI unat_1 unat_sub word_le_nat_alt)

lemma gauge_below:
  assumes "conns_ok config s" and "at (acceptors s) i = Some Selecting"
  shows "unat (connections (shared s)) + 1 < 2 ^ 64"
proof -
  have "count_if (\<lambda>a. a = Refusing) (acceptors s) < length (acceptors s)"
    using assms(2) count_if_update [of i "acceptors s" "\<lambda>a. a = Refusing" Refusing]
      count_if_le_length [of "\<lambda>a. a = Refusing" "(acceptors s)[i := Refusing]"] by auto
  with assms(1) show ?thesis
    by (simp add: conns_ok_def admission_split admitting_def)
qed

lemma conns_accept:
  assumes "conns_ok config s" and "sys_step config (Accept_Stream i) s = Some s'"
  shows "conns_ok config s'"
proof -
  have i: "at (acceptors s) i = Some Selecting"
    using assms(2) by (auto simp: accept_stream_def split: if_splits)
  have "unat (connections (shared s) + 1) = Suc (unat (connections (shared s)))"
    using gauge_below [OF assms(1) i] unat_add_of_nat [of "connections (shared s)" 1] by simp
  with assms i show ?thesis
    by (auto simp: accept_stream_def state_defs conns_ok_def open_connections_def admitting_def in_admission_def
        admission_split Let_def word_le_nat_alt split: if_splits)
qed

lemma conns_refuse:
  assumes "conns_ok config s" and "sys_step config (Refuse_Stream i) s = Some s'"
  shows "conns_ok config s'"
proof -
  have i: "i < length (acceptors s)" "acceptors s ! i = Refusing"
    using assms(2) by (auto simp: refuse_stream_def split: if_splits)
  have "Suc (count_if in_admission ((acceptors s)[i := Selecting])) = count_if in_admission (acceptors s)"
    using i by (simp add: count_if_lose in_admission_def)
  with assms i unat_minus_one_u64 [of "connections (shared s)"] show ?thesis
    by (auto simp: refuse_stream_def state_defs conns_ok_def open_connections_def admitting_def)
qed

lemma conns_spawn:
  assumes "conns_ok config s" and "sys_step config (Spawn_Stream i) s = Some s'"
  shows "conns_ok config s'"
proof -
  have i: "i < length (acceptors s)" "acceptors s ! i = Admitting"
    using assms(2) by (auto simp: spawn_stream_def split: if_splits)
  have "Suc (count_if in_admission ((acceptors s)[i := Selecting])) = count_if in_admission (acceptors s)"
      "Suc (count_if (\<lambda>a. a = Admitting) ((acceptors s)[i := Selecting])) = count_if (\<lambda>a. a = Admitting) (acceptors s)"
    using i by (simp_all add: count_if_lose in_admission_def)
  with assms i show ?thesis
    by (auto simp: spawn_stream_def state_defs conns_ok_def open_connections_def admitting_def)
qed

text \<open>A connection that ends by \<open>close_stream\<close>.\<close>

lemma conns_close:
  assumes "conns_ok config s" and "k < length (conns s)" and "reader (conns s ! k) \<noteq> StreamClosed"
    and "connections (shared s') = connections (shared s) - 1"
    and "connections_opened (counters (shared s')) = connections_opened (counters (shared s))"
    and "connections_closed (counters (shared s')) = connections_closed (counters (shared s)) + 1"
    and "acceptors s' = acceptors s" and "conns s' = (conns s)[k := (conns s ! k)\<lparr>reader := StreamClosed\<rparr>]"
  shows "conns_ok config s'"
proof -
  have "open_connections s = Suc (open_connections s')"
    using assms(2,3,8) by (simp add: open_connections_def count_if_lose)
  with assms unat_minus_one_u64 [of "connections (shared s)"] show ?thesis
    by (auto simp: conns_ok_def admitting_def)
qed

lemma opened_other [simp]:
  "connections_opened (record_rejection c r) = connections_opened c"
  "connections_closed (record_rejection c r) = connections_closed c"
  "connections_opened (ProxyFailure_record failure c) = connections_opened c"
  "connections_closed (ProxyFailure_record failure c) = connections_closed c"
  "connections_opened (release_pending c) = connections_opened c"
  "connections_closed (release_pending c) = connections_closed c"
  "connections_opened (abandon_pending c) = connections_opened c"
  "connections_closed (abandon_pending c) = connections_closed c"
  "connections_opened (drain_timeout c) = connections_opened c"
  "connections_closed (drain_timeout c) = connections_closed c"
  by (cases r; cases failure; simp add: release_pending_def abandon_pending_def drain_timeout_def)+

lemma open_connections_readers:
  "map reader cs = map reader (conns s) \<Longrightarrow>
   count_if (\<lambda>c. reader c \<noteq> StreamClosed) cs = count_if (\<lambda>c. reader c \<noteq> StreamClosed) (conns s)"
  using count_if_map [of "\<lambda>r. r \<noteq> StreamClosed" reader cs] count_if_map [of "\<lambda>r. r \<noteq> StreamClosed" reader "conns s"]
  by simp

lemma opened_deliver:
  "deliver env pm att c = Some (out, c', msgs) \<Longrightarrow>
   connections_opened c' = connections_opened c \<and> connections_closed c' = connections_closed c"
  by (auto simp: deliver_def split: option.splits bool.splits worker_answer.splits HandlerResult.splits)

lemma conns_attempt:
  assumes "conns_ok config s" and "sys_step config (Attempt_Delivery m env) s = Some s'"
  shows "conns_ok config s'"
  using assms(2) [simplified]
proof (cases rule: attempt_deliveryE)
  case (again pm att c k)
  with assms(1) show ?thesis
    by (auto simp: state_defs conns_ok_def open_connections_def admitting_def dest: opened_deliver)
next
  case (settle pm att out c f cs c')
  from settle(3) opened_deliver have "connections_opened c' = connections_opened (counters (shared s))"
      "connections_closed c' = connections_closed (counters (shared s))"
    unfolding settle(6) by fastforce+
  with assms(1) settle(7) open_connections_readers [OF settle(4)] show ?thesis
    by (simp add: state_defs conns_ok_def open_connections_def admitting_def)
qed

lemma conns_step:
  assumes "conns_ok config s" and "sys_step config a s = Some s'"
  shows "conns_ok config s'"
proof (cases a)
  case (Accept_Stream i)
  with assms conns_accept show ?thesis
    by blast
next
  case (Refuse_Stream i)
  with assms conns_refuse show ?thesis
    by blast
next
  case (Spawn_Stream i)
  with assms conns_spawn show ?thesis
    by blast
next
  case (Header_Failed k failure)
  with assms(2) show ?thesis
    by (intro conns_close [OF assms(1), of k])
      (auto simp: header_failed_def state_defs close_stream_def Let_def split: if_splits)
next
  case (Finish_Stream k)
  with assms(2) show ?thesis
    by (intro conns_close [OF assms(1), of k])
      (auto simp: finish_stream_def state_defs close_stream_def split: if_splits)
next
  case (Attempt_Delivery m env)
  with assms conns_attempt show ?thesis
    by blast
qed (use assms in \<open>auto simp: conns_ok_def open_connections_def admitting_def step_defs state_defs in_admission_def Let_def
      split: if_splits elim!: step_elims\<close>)

end
