(* ===== verification/System_Messages.thy ===== *)
theory System_Messages
  imports System_Invariants
begin

text \<open>
  The way of the messages through the system of listeners: what a message carries never
  changes once it is built and its identity is its own, the counters say how it ended, and
  the messages of one connection are sent, received and settled in the order of their frames.
\<close>

section \<open>What a message carries\<close>

fun carried :: "phase \<Rightarrow> PendingMessage option" where
  "carried Granted = None"
| "carried (Numbered pm) = Some pm"
| "carried (Sending pm) = Some pm"
| "carried (InChannel pm) = Some pm"
| "carried (Delivering pm _) = Some pm"
| "carried (Settled pm _) = Some pm"
| "carried (Dropped pm _) = Some pm"

definition contents :: "system \<Rightarrow> PendingMessage option list" where
  "contents s = map (\<lambda>t. carried (phase t)) (messages s)"

definition owners :: "system \<Rightarrow> nat option list" where
  "owners s = map owner (messages s)"

lemma length_contents [simp]: "length (contents s) = length (messages s)"
  by (simp add: contents_def)

lemma contents_nth [simp]: "m < length (messages s) \<Longrightarrow> contents s ! m = carried (phase (messages s ! m))"
  by (simp add: contents_def)

lemma carried_update [simp]:
  "m < length ts \<Longrightarrow> carried p = carried (phase (ts ! m)) \<Longrightarrow>
   map (\<lambda>t. carried (phase t)) (ts[m := (ts ! m)\<lparr>phase := p\<rparr>]) = map (\<lambda>t. carried (phase t)) ts"
  by (simp add: map_update list_update_same_conv)

lemma build_messageE:
  assumes "build_message m pm s = Some s'"
  obtains built where "m < length (messages s)" "phase (messages s ! m) = Granted"
    "pm_message_id built = NEXT_MESSAGE_ID s"
    "s' = set_phase m (Numbered built) (s\<lparr>NEXT_MESSAGE_ID := NEXT_MESSAGE_ID s + 1\<rparr>)"
proof -
  let ?built = "pm\<lparr>pm_utf8 := owner (messages s ! m) \<noteq> None,
      pm_transport := (if owner (messages s ! m) \<noteq> None then Stream else Datagram),
      pm_message_id := NEXT_MESSAGE_ID s\<rparr>"
  have m: "phase_at s m = Some Granted"
    using assms by (auto simp: build_message_def split: if_split_asm)
  then have "s' = set_phase m (Numbered ?built) (s\<lparr>NEXT_MESSAGE_ID := NEXT_MESSAGE_ID s + 1\<rparr>)"
    using assms unfolding build_message_def Let_def by simp
  with m show ?thesis
    by (intro that [of ?built]) simp_all
qed

lemma contents_step:
  assumes "sys_step config a s = Some s'"
  obtains (same) "contents s' = contents s" "NEXT_MESSAGE_ID s' = NEXT_MESSAGE_ID s"
    | (granted) "contents s' = contents s @ [None]" "NEXT_MESSAGE_ID s' = NEXT_MESSAGE_ID s"
    | (built) m pm where "m < length (messages s)" "contents s ! m = None" "contents s' = (contents s)[m := Some pm]"
        "pm_message_id pm = NEXT_MESSAGE_ID s" "NEXT_MESSAGE_ID s' = NEXT_MESSAGE_ID s + 1"
proof (cases a)
  case (Build_Message m pm)
  with assms have "build_message m pm s = Some s'"
    by simp
  then show ?thesis
    by (cases rule: build_messageE) (auto intro!: built [of m] simp: state_defs contents_def map_update)
next
  case (Acquire_Permit k)
  with assms show ?thesis
    by (intro granted) (auto simp: state_defs contents_def elim!: acquire_permitE)
next
  case Try_Acquire
  with assms show ?thesis
    by (cases "0 < credits s")
      (auto intro: same granted simp: try_acquire_def state_defs contents_def split: if_splits)
next
  case (Attempt_Delivery m env)
  with assms have "attempt_delivery m env s = Some s'"
    by simp
  then show ?thesis
    by (cases rule: attempt_deliveryE) (auto intro!: same simp: state_defs contents_def)
qed (use assms in \<open>auto intro!: same simp: step_defs state_defs Let_def contents_def
      split: if_splits elim!: step_elims\<close>)

text \<open>
  Identities: drawn in turn from \<open>NEXT_MESSAGE_ID\<close>, which starts at \<open>next_id\<close>; two messages
  never have the same one as long as the counter has not come round.
\<close>

definition ids_ok :: "u64 \<Rightarrow> system \<Rightarrow> bool" where
  "ids_ok next_id s \<longleftrightarrow>
     unat next_id + length (messages s) < 2 ^ 64 \<longrightarrow>
       unat (NEXT_MESSAGE_ID s) = unat next_id + count_if (\<lambda>c. c \<noteq> None) (contents s)
       \<and> (\<forall>i < length (messages s). \<forall>pm. contents s ! i = Some pm \<longrightarrow> pm_message_id pm < NEXT_MESSAGE_ID s)
       \<and> (\<forall>i < length (messages s). \<forall>j < length (messages s). \<forall>pm pm'. i \<noteq> j \<longrightarrow>
            contents s ! i = Some pm \<longrightarrow> contents s ! j = Some pm' \<longrightarrow> pm_message_id pm \<noteq> pm_message_id pm')"

lemma ids_built:
  assumes "ids_ok next_id s" and m: "m < length (messages s)" "contents s ! m = None"
    and s': "contents s' = (contents s)[m := Some pm]" "pm_message_id pm = NEXT_MESSAGE_ID s"
      "NEXT_MESSAGE_ID s' = NEXT_MESSAGE_ID s + 1"
  shows "ids_ok next_id s'"
  unfolding ids_ok_def
proof (intro impI)
  assume bound: "unat next_id + length (messages s') < 2 ^ 64"
  have len: "length (messages s') = length (messages s)"
    using s'(1) length_contents [of s'] by simp
  have count: "count_if (\<lambda>c. c \<noteq> None) (contents s') = Suc (count_if (\<lambda>c. c \<noteq> None) (contents s))"
    unfolding s'(1) using m by (intro count_if_gain) simp_all
  then have "count_if (\<lambda>c. c \<noteq> None) (contents s) < length (messages s)"
    using count_if_le_length [of "\<lambda>c. c \<noteq> None" "contents s'"] len by simp
  with assms(1) bound len have room: "unat (NEXT_MESSAGE_ID s) + 1 < 2 ^ 64"
    by (simp add: ids_ok_def)
  then have suc: "unat (NEXT_MESSAGE_ID s') = Suc (unat (NEXT_MESSAGE_ID s))"
    using unat_add_of_nat [of "NEXT_MESSAGE_ID s" 1] s'(3) by simp
  then have "id < NEXT_MESSAGE_ID s \<Longrightarrow> id < NEXT_MESSAGE_ID s'" "NEXT_MESSAGE_ID s < NEXT_MESSAGE_ID s'" for id
    by (simp_all add: word_less_nat_alt)
  with assms(1) bound len count suc m s'(2)
  show "unat (NEXT_MESSAGE_ID s') = unat next_id + count_if (\<lambda>c. c \<noteq> None) (contents s')
      \<and> (\<forall>i < length (messages s'). \<forall>pm. contents s' ! i = Some pm \<longrightarrow> pm_message_id pm < NEXT_MESSAGE_ID s')
      \<and> (\<forall>i < length (messages s'). \<forall>j < length (messages s'). \<forall>pm pm'. i \<noteq> j \<longrightarrow>
            contents s' ! i = Some pm \<longrightarrow> contents s' ! j = Some pm' \<longrightarrow> pm_message_id pm \<noteq> pm_message_id pm')"
    unfolding ids_ok_def s'(1) by (auto simp: nth_list_update split: if_splits)
qed

lemma ids_step:
  assumes "ids_ok next_id s" and "sys_step config a s = Some s'"
  shows "ids_ok next_id s'"
  using assms(2)
proof (cases rule: contents_step)
  case same
  moreover have "length (messages s') = length (messages s)"
    using same(1) by (metis length_contents)
  ultimately show ?thesis
    using assms(1) by (simp add: ids_ok_def del: contents_nth)
next
  case granted
  moreover have "length (messages s') = Suc (length (messages s))"
    using granted(1) by (metis length_append_singleton length_contents)
  ultimately show ?thesis
    using assms(1) by (auto simp: ids_ok_def nth_append less_Suc_eq simp del: contents_nth)
next
  case built
  with assms(1) ids_built show ?thesis
    by blast
qed

section \<open>How a message ended\<close>

fun ending :: "phase \<Rightarrow> fate option" where
  "ending (Settled _ f) = Some f"
| "ending (Dropped _ f) = Some f"
| "ending _ = None"

definition was_taken :: "tracked \<Rightarrow> bool" where
  "was_taken t \<longleftrightarrow> ending (phase t) = Some Taken"

definition lost :: "tracked \<Rightarrow> bool" where
  "lost t \<longleftrightarrow> ending (phase t) = Some GivenUp \<or> ending (phase t) = Some WorkersGone"

definition fates_ok :: "system \<Rightarrow> bool" where
  "fates_ok s \<longleftrightarrow>
     messages_delivered (counters (shared s)) = of_nat (count_if was_taken (messages s))
     \<and> abandoned_at_shutdown (counters (shared s))
         = of_nat (count_if (\<lambda>t. owner t \<noteq> None \<and> lost t) (messages s) + swept s)
     \<and> udp_dropped (counters (shared s))
         = of_nat (count_if (\<lambda>t. owner t = None \<and> lost t) (messages s) + denied s)"

lemma fates_other [simp]:
  "messages_delivered (record_rejection c r) = messages_delivered c"
  "abandoned_at_shutdown (record_rejection c r) = abandoned_at_shutdown c"
  "udp_dropped (record_rejection c r) = udp_dropped c"
  "messages_delivered (ProxyFailure_record failure c) = messages_delivered c"
  "abandoned_at_shutdown (ProxyFailure_record failure c) = abandoned_at_shutdown c"
  "udp_dropped (ProxyFailure_record failure c) = udp_dropped c"
  "messages_delivered (counters (close_stream d)) = messages_delivered (counters d)"
  "abandoned_at_shutdown (counters (close_stream d)) = abandoned_at_shutdown (counters d)"
  "udp_dropped (counters (close_stream d)) = udp_dropped (counters d)"
  "udp_dropped (release_pending c) = udp_dropped c"
  "udp_dropped (abandon_pending c) = udp_dropped c"
  by (cases r; cases failure; simp add: close_stream_def release_pending_def abandon_pending_def)+

lemma fates_deliver:
  "deliver env pm att c = Some (out, c', msgs) \<Longrightarrow>
   messages_delivered c' = messages_delivered c + (if out = OutcomeAccepted then 1 else 0)
   \<and> abandoned_at_shutdown c' = abandoned_at_shutdown c \<and> udp_dropped c' = udp_dropped c"
  by (auto simp: deliver_def split: option.splits bool.splits worker_answer.splits HandlerResult.splits)

text \<open>A message that is settled.\<close>

lemma fates_settle:
  assumes "fates_ok s" and "m < length (messages s)" and "ending (phase (messages s ! m)) = None"
    and "messages s' = (messages s)[m := (messages s ! m)\<lparr>phase := Settled pm f\<rparr>]"
    and "messages_delivered (counters (shared s'))
          = messages_delivered (counters (shared s)) + (if f = Taken then 1 else 0)"
    and "abandoned_at_shutdown (counters (shared s')) = abandoned_at_shutdown (counters (shared s))
          + (if f \<noteq> Taken \<and> owner (messages s ! m) \<noteq> None then 1 else 0)"
    and "udp_dropped (counters (shared s')) = udp_dropped (counters (shared s))
          + (if f \<noteq> Taken \<and> owner (messages s ! m) = None then 1 else 0)"
    and "swept s' = swept s" and "denied s' = denied s"
  shows "fates_ok s'"
  using assms by (cases f; cases "owner (messages s ! m)") (simp_all add: fates_ok_def was_taken_def lost_def)

lemma fates_attempt:
  assumes "fates_ok s" and "sys_step config (Attempt_Delivery m env) s = Some s'"
  shows "fates_ok s'"
  using assms(2) [simplified]
proof (cases rule: attempt_deliveryE)
  case (again pm att c k)
  with assms(1) show ?thesis
    by (auto simp: state_defs fates_ok_def was_taken_def lost_def dest: fates_deliver)
next
  case (settle pm att out c f cs c')
  then obtain msgs where "deliver env pm att (counters (shared s)) = Some (out, c, msgs)"
    by blast
  from settle fates_deliver [OF this] show ?thesis
    by (intro fates_settle [OF assms(1), where m = m and pm = pm and f = f]) (simp_all add: state_defs)
qed

lemma fates_receive:
  assumes "fates_ok s" and "sys_step config (Receive_Pending m) s = Some s'"
  shows "fates_ok s'"
  using assms(2) [simplified]
proof (cases rule: receive_pendingE)
  case (1 pm k)
  show ?thesis
  proof (cases "workers_gone (conns s ! k)")
    case True
    with 1 show ?thesis
      by (intro fates_settle [OF assms(1), where m = m and pm = pm and f = WorkersGone]) (simp_all add: state_defs)
  next
    case False
    with 1 assms(1) show ?thesis
      by (simp add: state_defs fates_ok_def was_taken_def lost_def)
  qed
qed

lemma fates_step:
  assumes "fates_ok s" and "sys_step config a s = Some s'"
  shows "fates_ok s'"
proof (cases a)
  case (Attempt_Delivery m env)
  with assms fates_attempt show ?thesis
    by blast
next
  case (Receive_Pending m)
  with assms fates_receive show ?thesis
    by blast
next
  case (Build_Message m pm)
  with assms(2) have "build_message m pm s = Some s'"
    by simp
  then show ?thesis
    using assms(1) by (cases rule: build_messageE) (simp add: fates_ok_def was_taken_def lost_def state_defs)
qed (use assms in \<open>auto simp: fates_ok_def was_taken_def lost_def step_defs state_defs drain_timeout_def Let_def
      split: if_splits elim!: step_elims\<close>)

end
