(* ===== verification/System_Order.thy ===== *)
theory System_Order
  imports System_Messages
begin

text \<open>
  The order of the messages of one connection, the bound on those it has under way, and the
  end of a connection: it closes after the last of its messages is gone.
\<close>

section \<open>Order\<close>

fun rank :: "phase \<Rightarrow> nat" where
  "rank Granted = 0"
| "rank (Numbered _) = 1"
| "rank (Sending _) = 2"
| "rank (InChannel _) = 3"
| "rank (Delivering _ _) = 4"
| "rank (Settled _ _) = 5"
| "rank (Dropped _ _) = 6"

lemma in_hand_rank: "in_hand p \<longleftrightarrow> rank p < 3"
  by (cases p) simp_all

lemma in_channel_rank: "in_channel p \<longleftrightarrow> rank p = 3"
  by (cases p) simp_all

lemma at_work_rank: "at_work p \<longleftrightarrow> rank p = 4 \<or> rank p = 5"
  by (cases p) simp_all

lemma gone_rank: "gone p \<longleftrightarrow> rank p = 6"
  by (cases p) simp_all

lemma rank_le: "rank p \<le> 6"
  by (cases p) simp_all

text \<open>
  Of two messages of a connection the earlier has been sent, and is gone before the later is
  attempted.
\<close>

definition order_ok :: "tracked list \<Rightarrow> bool" where
  "order_ok ts \<longleftrightarrow>
     (\<forall>j < length ts. \<forall>i < j. owner (ts ! i) = owner (ts ! j) \<and> owner (ts ! j) \<noteq> None \<longrightarrow>
        3 \<le> rank (phase (ts ! i)) \<and> (4 \<le> rank (phase (ts ! j)) \<longrightarrow> rank (phase (ts ! i)) = 6))"

lemma order_grant:
  assumes "order_ok ts" and "k \<noteq> None \<Longrightarrow> \<forall>t \<in> set ts. owner t = k \<longrightarrow> 3 \<le> rank (phase t)"
  shows "order_ok (ts @ [\<lparr>owner = k, phase = Granted\<rparr>])"
  using assms by (auto simp: order_ok_def nth_append less_Suc_eq)

lemma order_advance:
  assumes "order_ok ts" and m: "m < length ts" and up: "rank (phase (ts ! m)) \<le> rank p"
    and turn: "rank (phase (ts ! m)) < 4 \<Longrightarrow> 4 \<le> rank p \<Longrightarrow> owner (ts ! m) \<noteq> None \<Longrightarrow>
      \<forall>i < m. owner (ts ! i) = owner (ts ! m) \<longrightarrow> rank (phase (ts ! i)) = 6"
  shows "order_ok (ts[m := (ts ! m)\<lparr>phase := p\<rparr>])"
  unfolding order_ok_def
proof (intro allI impI)
  fix j i
  let ?ts = "ts[m := (ts ! m)\<lparr>phase := p\<rparr>]"
  assume j: "j < length ?ts" and i: "i < j"
    and same: "owner (?ts ! i) = owner (?ts ! j) \<and> owner (?ts ! j) \<noteq> None"
  have own: "owner (?ts ! n) = owner (ts ! n)" if "n < length ts" for n
    using m that by (auto simp: nth_list_update)
  have old: "3 \<le> rank (phase (ts ! i)) \<and> (4 \<le> rank (phase (ts ! j)) \<longrightarrow> rank (phase (ts ! i)) = 6)"
    using assms(1) i j same own by (simp add: order_ok_def)
  have phase: "phase (?ts ! n) = (if n = m then p else phase (ts ! n))" if "n < length ts" for n
    using m that by (simp add: nth_list_update)
  consider "i = m" "j \<noteq> m" | "j = m" "i \<noteq> m" | "i \<noteq> m" "j \<noteq> m"
    using i by blast
  then show "3 \<le> rank (phase (?ts ! i)) \<and> (4 \<le> rank (phase (?ts ! j)) \<longrightarrow> rank (phase (?ts ! i)) = 6)"
  proof cases
    case 1
    with old up rank_le [of p] i j phase show ?thesis
      by auto
  next
    case 2
    have "rank (phase (ts ! i)) = 6" if "4 \<le> rank p"
    proof (cases "rank (phase (ts ! m)) < 4")
      case True
      from turn [OF True that] same own [of i] own [of m] i j m 2 show ?thesis
        by simp
    qed (use old 2 in simp)
    with 2 old i j phase show ?thesis
      by simp
  next
    case 3
    with old i j phase show ?thesis
      by simp
  qed
qed

lemma free_rank:
  "framing_free k s \<Longrightarrow> t \<in> set (messages s) \<Longrightarrow> owner t = k \<Longrightarrow> 3 \<le> rank (phase t)"
  by (auto simp: framing_free_def list_ex_iff in_hand_rank not_less)

lemma order_receive:
  assumes "order_ok (messages s)" and "receive_pending m s = Some s'"
  shows "order_ok (messages s')"
  using assms(2)
proof (cases rule: receive_pendingE)
  case (1 pm k)
  have "rank (phase (messages s ! i)) = 6" if i: "i < m" "owner (messages s ! i) = Some k" for i
  proof -
    have "messages s ! i \<in> set (messages s)" "messages s ! i \<in> set (take m (messages s))"
      using i 1(1) by (auto simp: in_set_conv_nth intro!: exI [of _ i])
    moreover have "3 \<le> rank (phase (messages s ! i))"
      using assms(1) i 1 by (simp add: order_ok_def)
    moreover have "rank (phase (messages s ! i)) \<noteq> 3" "rank (phase (messages s ! i)) \<noteq> 4"
        "rank (phase (messages s ! i)) \<noteq> 5"
      using calculation 1(4,5) i by (auto simp: list_ex_iff in_channel_rank at_work_rank)
    ultimately show ?thesis
      using rank_le [of "phase (messages s ! i)"] by linarith
  qed
  with 1 show ?thesis
    by (auto simp: state_defs intro!: order_advance [OF assms(1)])
qed

lemma order_step:
  assumes "order_ok (messages s)" and "sys_step config a s = Some s'"
  shows "order_ok (messages s')"
proof (cases a)
  case (Receive_Pending m)
  with assms order_receive show ?thesis
    by simp
next
  case (Acquire_Permit k)
  with assms show ?thesis
    by (auto simp: state_defs intro!: order_grant intro: free_rank elim!: acquire_permitE)
next
  case Try_Acquire
  with assms show ?thesis
    by (auto simp: try_acquire_def state_defs intro!: order_grant split: if_splits)
next
  case (Build_Message m pm)
  with assms show ?thesis
    by (auto simp: state_defs intro!: order_advance elim!: build_messageE)
next
  case (Attempt_Delivery m env)
  with assms show ?thesis
    by (auto simp: state_defs intro!: order_advance elim!: attempt_deliveryE)
qed (use assms in \<open>auto simp: step_defs state_defs Let_def intro!: order_advance split: if_splits elim!: step_elims\<close>)

section \<open>What a connection has under way\<close>

text \<open>The channel of a connection holds at most its capacity; datagrams do not pass through one.\<close>

definition channel_limit :: "SyslogConfig \<Rightarrow> nat option \<Rightarrow> nat" where
  "channel_limit config k = (if k = None then 0 else max_pending_per_connection config)"

definition channel_ok :: "SyslogConfig \<Rightarrow> tracked list \<Rightarrow> bool" where
  "channel_ok config ts \<longleftrightarrow>
     (\<forall>k. count_if (\<lambda>t. owner t = k \<and> in_channel (phase t)) ts \<le> channel_limit config k)"

lemma channel_keep:
  assumes "channel_ok config ts" and "m < length ts" and "in_channel p \<Longrightarrow> in_channel (phase (ts ! m))"
  shows "channel_ok config (ts[m := (ts ! m)\<lparr>phase := p\<rparr>])"
  unfolding channel_ok_def
proof
  fix k
  have "count_if (\<lambda>t. owner t = k \<and> in_channel (phase t)) (ts[m := (ts ! m)\<lparr>phase := p\<rparr>])
      \<le> count_if (\<lambda>t. owner t = k \<and> in_channel (phase t)) ts"
    using assms(2,3) count_if_update [of m ts "\<lambda>t. owner t = k \<and> in_channel (phase t)" "(ts ! m)\<lparr>phase := p\<rparr>"]
    by (auto simp: of_bool_def split: if_splits)
  with assms(1) show "count_if (\<lambda>t. owner t = k \<and> in_channel (phase t)) (ts[m := (ts ! m)\<lparr>phase := p\<rparr>])
      \<le> channel_limit config k"
    unfolding channel_ok_def by (meson le_trans)
qed

lemma channel_send:
  assumes "channel_ok config (messages s)" and "send_pending config m s = Some s'"
  shows "channel_ok config (messages s')"
  unfolding channel_ok_def
proof
  fix k
  from assms(2) show "count_if (\<lambda>t. owner t = k \<and> in_channel (phase t)) (messages s') \<le> channel_limit config k"
  proof (cases rule: send_pendingE)
    case (1 pm k')
    with assms(1) show ?thesis
      by (cases "k = Some k'")
        (simp_all add: state_defs channel_ok_def channel_limit_def count_if_def [symmetric] Suc_le_eq)
  qed
qed

lemma channel_owner:
  assumes "channel_ok config ts" and "m < length ts" and "in_channel (phase (ts ! m))"
  shows "owner (ts ! m) \<noteq> None"
proof
  assume "owner (ts ! m) = None"
  then have "0 < count_if (\<lambda>t. owner t = None \<and> in_channel (phase t)) ts"
    using assms(2,3) by (intro count_if_pos) simp_all
  moreover have "count_if (\<lambda>t. owner t = None \<and> in_channel (phase t)) ts \<le> 0"
    using assms(1) by (auto simp: channel_ok_def channel_limit_def dest: spec [of _ None])
  ultimately show False
    by simp
qed

lemma channel_grant: "channel_ok config ts \<Longrightarrow> channel_ok config (ts @ [\<lparr>owner = k, phase = Granted\<rparr>])"
  by (simp add: channel_ok_def)

lemma channel_step:
  assumes "channel_ok config (messages s)" and "sys_step config a s = Some s'"
  shows "channel_ok config (messages s')"
proof (cases a)
  case (Send_Pending m)
  with assms channel_send show ?thesis
    by simp
next
  case (Build_Message m pm)
  with assms show ?thesis
    by (auto simp: state_defs intro!: channel_keep elim!: build_messageE)
qed (use assms in \<open>auto simp: step_defs state_defs Let_def intro!: channel_keep channel_grant
      split: if_splits elim!: step_elims\<close>)

lemma count_if_at_most_one:
  "(\<And>i j. i < j \<Longrightarrow> j < length xs \<Longrightarrow> P (xs ! i) \<Longrightarrow> \<not> P (xs ! j)) \<Longrightarrow> count_if P xs \<le> 1"
proof (induction xs)
  case (Cons x xs)
  have tail: "count_if P xs \<le> 1"
    using Cons.prems [of "Suc i" "Suc j" for i j] by (intro Cons.IH) simp
  moreover have "\<not> P y" if "P x" "y \<in> set xs" for y
    using Cons.prems [of 0 "Suc j" for j] that by (auto simp: in_set_conv_nth)
  then have "P x \<Longrightarrow> count_if P xs = 0"
    by (simp add: count_if_def filter_empty_conv)
  ultimately show ?case
    by simp
qed simp

lemma count_if_disj: "count_if (\<lambda>x. P x \<or> Q x) xs \<le> count_if P xs + count_if Q xs"
  by (induction xs) auto

text \<open>At most one message in the reader's hand, a channel full, and one at the delivery task.\<close>

lemma under_way_bounded:
  assumes "order_ok ts" and "channel_ok config ts"
  shows "count_if (\<lambda>t. owner t = Some k \<and> \<not> gone (phase t)) ts \<le> max_pending_per_connection config + 2"
proof -
  let ?mine = "\<lambda>P t. owner t = Some k \<and> P (phase t)"
  have "count_if (?mine in_hand) ts \<le> 1"
    using assms(1) by (intro count_if_at_most_one) (fastforce simp: order_ok_def in_hand_rank)
  moreover have "count_if (?mine at_work) ts \<le> 1"
    using assms(1) by (intro count_if_at_most_one) (fastforce simp: order_ok_def at_work_rank)
  moreover have "count_if (?mine in_channel) ts \<le> channel_limit config (Some k)"
    using assms(2) unfolding channel_ok_def by blast
  then have "count_if (?mine in_channel) ts \<le> max_pending_per_connection config"
    by (simp add: channel_limit_def)
  moreover have "count_if (\<lambda>t. owner t = Some k \<and> \<not> gone (phase t)) ts
      \<le> count_if (\<lambda>t. ?mine in_hand t \<or> ?mine at_work t \<or> ?mine in_channel t) ts"
    by (intro count_if_mono) (auto elim: in_hand.elims at_work.elims in_channel.elims gone.elims)
  moreover have "\<dots> \<le> count_if (?mine in_hand) ts + (count_if (?mine at_work) ts + count_if (?mine in_channel) ts)"
    using count_if_disj [of "?mine in_hand" "\<lambda>t. ?mine at_work t \<or> ?mine in_channel t" ts]
      count_if_disj [of "?mine at_work" "?mine in_channel" ts] by linarith
  ultimately show ?thesis
    by linarith
qed

section \<open>The end of a connection\<close>

definition closed_ok :: "reader list \<Rightarrow> tracked list \<Rightarrow> bool" where
  "closed_ok rs ts \<longleftrightarrow>
     (\<forall>m < length ts. \<forall>k. owner (ts ! m) = Some k \<longrightarrow>
        k < length rs \<and> rs ! k \<noteq> InHeader \<and> (rs ! k = StreamClosed \<longrightarrow> gone (phase (ts ! m))))"

lemma closed_message:
  "closed_ok rs ts \<Longrightarrow> m < length ts \<Longrightarrow> \<not> gone (phase (ts ! m)) \<Longrightarrow> closed_ok rs (ts[m := (ts ! m)\<lparr>phase := p\<rparr>])"
  by (fastforce simp: closed_ok_def nth_list_update)

lemma closed_grant:
  "closed_ok rs ts \<Longrightarrow> (\<And>k. o' = Some k \<Longrightarrow> k < length rs \<and> rs ! k \<noteq> InHeader \<and> rs ! k \<noteq> StreamClosed) \<Longrightarrow>
   closed_ok rs (ts @ [\<lparr>owner = o', phase = Granted\<rparr>])"
  by (auto simp: closed_ok_def nth_append less_Suc_eq)

lemma closed_reader:
  "closed_ok rs ts \<Longrightarrow> r \<noteq> InHeader \<Longrightarrow>
   (r = StreamClosed \<Longrightarrow> \<forall>t \<in> set ts. owner t = Some k \<longrightarrow> gone (phase t)) \<Longrightarrow> closed_ok (rs[k := r]) ts"
  by (cases "k < length rs") (auto simp: closed_ok_def nth_list_update list_update_beyond split: if_splits)

lemma closed_header: "closed_ok rs ts \<Longrightarrow> rs ! k = InHeader \<Longrightarrow> t \<in> set ts \<Longrightarrow> owner t \<noteq> Some k"
  by (auto simp: closed_ok_def in_set_conv_nth)

lemma closed_spawn: "closed_ok rs ts \<Longrightarrow> closed_ok (rs @ [r]) ts"
  by (fastforce simp: closed_ok_def nth_append)

lemma closed_step:
  assumes "closed_ok (map reader (conns s)) (messages s)" and "sys_step config a s = Some s'"
  shows "closed_ok (map reader (conns s')) (messages s')"
proof (cases a)
  case (Build_Message m pm)
  with assms show ?thesis
    by (auto simp: state_defs intro!: closed_message elim!: build_messageE)
next
  case (Acquire_Permit k)
  with assms show ?thesis
    by (auto simp: state_defs map_update intro!: closed_grant closed_reader elim!: acquire_permitE)
next
  case (Header_Failed k failure)
  with assms(2) have k: "k < length (conns s)" "map reader (conns s) ! k = InHeader"
      "map reader (conns s') = (map reader (conns s))[k := StreamClosed]" "messages s' = messages s"
    by (auto simp: header_failed_def state_defs map_update Let_def split: if_splits)
  show ?thesis
    unfolding k(3,4) using assms(1) closed_header [OF assms(1) k(2)] by (intro closed_reader) auto
next
  case (Finish_Stream k)
  with assms show ?thesis
    by (auto simp: finish_stream_def state_defs map_update list_all_iff intro!: closed_reader split: if_splits)
qed (use assms in \<open>auto simp: step_defs state_defs map_update Let_def intro!: closed_message closed_grant closed_reader
      closed_spawn split: if_splits elim!: step_elims\<close>)

end
