(* ===== verification/System_Safety.thy ===== *)
theory System_Safety
  imports System_Order
begin

text \<open>
  The invariants of the syslog listeners put together, and what they say of every state that a
  run reaches from \<open>system_init\<close>: limits, accounting, identities and order.
\<close>

definition sys_ok :: "SyslogConfig \<Rightarrow> u64 \<Rightarrow> system \<Rightarrow> bool" where
  "sys_ok config next_id s \<longleftrightarrow>
     max_pending config < 2 ^ 64 \<and> permits_ok config s \<and> gauge_ok s \<and> conns_ok config s \<and> fates_ok s
     \<and> ids_ok next_id s \<and> order_ok (messages s) \<and> channel_ok config (messages s)
     \<and> closed_ok (map reader (conns s)) (messages s)"

interpretation listeners: step_invariant "sys_step config" "sys_ok config next_id" for config next_id
proof
  fix s a s'
  assume "sys_ok config next_id s" and "sys_step config a s = Some s'"
  then show "sys_ok config next_id s'"
    unfolding sys_ok_def
    by (blast intro: permits_step gauge_step conns_step fates_step ids_step order_step channel_step closed_step)
qed

lemma system_init_ok:
  "max_pending config < 2 ^ 64 \<Longrightarrow> unat (max_connections config) + n < 2 ^ 64 \<Longrightarrow>
   sys_ok config next_id (system_init config n datagrams next_id)"
  by (simp add: sys_ok_def system_init_def permits_ok_def gauge_ok_def gauge_def waiting_def conns_ok_def
      open_connections_def admitting_def fates_ok_def ids_ok_def order_ok_def channel_ok_def closed_ok_def
      contents_def SyslogCounters_default_def count_if_def in_admission_def)

lemma run_ok:
  "run config as (system_init config n datagrams next_id) = Some s \<Longrightarrow> max_pending config < 2 ^ 64 \<Longrightarrow>
   unat (max_connections config) + n < 2 ^ 64 \<Longrightarrow> sys_ok config next_id s"
  unfolding run_def by (rule listeners.runs_keep [OF system_init_ok])

section \<open>A run\<close>

definition sample_message :: PendingMessage where
  "sample_message = to_pending sample_datagram"

definition sample_actions :: "action list" where
  "sample_actions =
     [Accept_Stream 0, Spawn_Stream 0, Read_More 0 2, Acquire_Permit 0, Build_Message 0 sample_message,
      Count_Pending 0, Send_Pending 0, Receive_Pending 0, Try_Acquire, Build_Message 1 sample_message,
      Attempt_Delivery 0 accept_env, Count_Pending 1, Spawn_Delivery 1, Drop_Permit 0,
      Acquire_Permit 0, Build_Message 2 sample_message, Count_Pending 2, Send_Pending 2, Receive_Pending 2]"

lemma sample_runs:
  "\<exists>s. run SyslogConfig_new sample_actions (system_init SyslogConfig_new 2 True 1) = Some s
    \<and> length (messages s) = 3 \<and> owner (messages s ! 0) = Some 0 \<and> owner (messages s ! 2) = Some 0
    \<and> at_work (phase (messages s ! 2)) \<and> was_taken (messages s ! 0)"
  by (simp add: was_taken_def run_def sample_actions_def system_init_def SyslogConfig_new_def accept_env_def at_def
      accept_stream_def spawn_stream_def read_more_def acquire_permit_def build_message_def count_pending_def
      send_pending_def receive_pending_def try_acquire_def attempt_delivery_def spawn_delivery_def drop_permit_def
      stream_outcome_def state_defs reader_at_def phase_at_def framing_free_def deliver_def Let_def
      del: reader_at_Some phase_at_Some at_Some)

section \<open>Properties of the running listeners\<close>

text \<open>
  C3. The limit on connections holds in every interleaving of the accept loops, the connections and the
  shutdown: never more than \<open>max_connections\<close> are open, although two loops raise the shared gauge
  before they compare it. The gauge is the number of open connections and of those being
  admitted or refused, and those opened and closed differ by the open ones.
\<close>

theorem connection_limit:
  assumes "run config as (system_init config n datagrams next_id) = Some s"
    and "max_pending config < 2 ^ 64" and "unat (max_connections config) + n < 2 ^ 64"
  shows "open_connections s \<le> unat (max_connections config)
    \<and> unat (connections (shared s)) = open_connections s + count_if in_admission (acceptors s)
    \<and> connections_opened (counters (shared s))
        = connections_closed (counters (shared s)) + of_nat (open_connections s)"
  using run_ok [OF assms] by (simp add: sys_ok_def conns_ok_def)

theorem connection_limit_witness:
  "\<exists>s. run SyslogConfig_new sample_actions (system_init SyslogConfig_new 2 True 1) = Some s
    \<and> open_connections s \<le> 10000"
proof -
  obtain s where s: "run SyslogConfig_new sample_actions (system_init SyslogConfig_new 2 True 1) = Some s"
    using sample_runs by blast
  with connection_limit [OF s] show ?thesis
    by (simp add: SyslogConfig_new_def)
qed

text \<open>
  C4. What is undelivered is bounded. In every reachable state the free permits and the messages
  that hold one add up to \<open>max_pending\<close>, so at most that many are under way, from streams and
  datagrams together, and one connection has at most \<open>max_pending_per_connection + 2\<close> of them: one
  at the reader, those in the channel, one at the delivery task. The gauge \<open>pending\<close> never
  exceeds the messages between framing and a handler, and is exactly their number until a drain times out.
\<close>

theorem undelivered_bounded:
  assumes "run config as (system_init config n datagrams next_id) = Some s"
    and "max_pending config < 2 ^ 64" and "unat (max_connections config) + n < 2 ^ 64"
  shows "credits s + count_if (\<lambda>t. \<not> gone (phase t)) (messages s) = max_pending config
    \<and> count_if (\<lambda>t. owner t = Some k \<and> \<not> gone (phase t)) (messages s) \<le> max_pending_per_connection config + 2
    \<and> unat (pending (counters (shared s))) \<le> count_if (\<lambda>t. counted (phase t)) (messages s)
    \<and> (swept s = 0 \<longrightarrow> unat (pending (counters (shared s))) = count_if (\<lambda>t. counted (phase t)) (messages s))"
proof -
  have "permits_ok config s" "gauge_ok s" "order_ok (messages s)" "channel_ok config (messages s)"
    using run_ok [OF assms] by (simp_all add: sys_ok_def)
  with under_way_bounded [of "messages s" config k] show ?thesis
    by (simp add: permits_ok_def gauge_ok_def gauge_def waiting_def)
qed

theorem undelivered_bounded_witness:
  "\<exists>s. run SyslogConfig_new sample_actions (system_init SyslogConfig_new 2 True 1) = Some s
    \<and> credits s + count_if (\<lambda>t. \<not> gone (phase t)) (messages s) = 1000"
proof -
  obtain s where s: "run SyslogConfig_new sample_actions (system_init SyslogConfig_new 2 True 1) = Some s"
    using sample_runs by blast
  with undelivered_bounded [OF s] show ?thesis
    by (simp add: SyslogConfig_new_def)
qed

text \<open>
  C13. The statistics tell how messages ended, in every reachable state: \<open>messages_delivered\<close> is
  the number a handler accepted, \<open>abandoned_at_shutdown\<close> that of the stream messages given up and
  what drain timeouts swept, \<open>udp_dropped\<close> that of the datagrams not accepted and of those
  without a permit. No message is settled twice, and as long as the counter of identities has
  not come round no two messages have the same one.
\<close>

theorem messages_accounted:
  assumes "run config as (system_init config n datagrams next_id) = Some s"
    and "max_pending config < 2 ^ 64" and "unat (max_connections config) + n < 2 ^ 64"
  shows "messages_delivered (counters (shared s)) = of_nat (count_if was_taken (messages s))
    \<and> abandoned_at_shutdown (counters (shared s))
        = of_nat (count_if (\<lambda>t. owner t \<noteq> None \<and> lost t) (messages s) + swept s)
    \<and> udp_dropped (counters (shared s))
        = of_nat (count_if (\<lambda>t. owner t = None \<and> lost t) (messages s) + denied s)
    \<and> (unat next_id + length (messages s) < 2 ^ 64 \<longrightarrow>
        (\<forall>i < length (messages s). \<forall>j < length (messages s). \<forall>pm pm'. i \<noteq> j \<longrightarrow>
           carried (phase (messages s ! i)) = Some pm \<longrightarrow> carried (phase (messages s ! j)) = Some pm' \<longrightarrow>
           pm_message_id pm \<noteq> pm_message_id pm'))"
  using run_ok [OF assms] by (simp add: sys_ok_def fates_ok_def ids_ok_def)

theorem messages_accounted_witness:
  "\<exists>s. run SyslogConfig_new sample_actions (system_init SyslogConfig_new 2 True 1) = Some s
    \<and> messages_delivered (counters (shared s)) = of_nat (count_if was_taken (messages s))"
proof -
  obtain s where s: "run SyslogConfig_new sample_actions (system_init SyslogConfig_new 2 True 1) = Some s"
    using sample_runs by blast
  with messages_accounted [OF s] show ?thesis
    by (simp add: SyslogConfig_new_def)
qed

text \<open>
  C14. The messages of a connection keep the order of their frames whatever the other tasks do: when a
  message is attempted, every earlier one of its connection is settled and has given its
  permit back; and a connection counts as closed only when all its messages have.
\<close>

theorem connection_order:
  assumes "run config as (system_init config n datagrams next_id) = Some s"
    and "max_pending config < 2 ^ 64" and "unat (max_connections config) + n < 2 ^ 64"
    and "j < length (messages s)" and "owner (messages s ! j) = Some k"
  shows "(i < j \<longrightarrow> owner (messages s ! i) = Some k \<longrightarrow> at_work (phase (messages s ! j)) \<longrightarrow> gone (phase (messages s ! i)))
    \<and> (reader (conns s ! k) = StreamClosed \<longrightarrow> gone (phase (messages s ! j)))"
proof -
  have "order_ok (messages s)" "closed_ok (map reader (conns s)) (messages s)"
    using run_ok [OF assms(1-3)] by (simp_all add: sys_ok_def)
  with assms(4,5) show ?thesis
    by (fastforce simp: order_ok_def closed_ok_def at_work_rank gone_rank)
qed

theorem connection_order_witness:
  "\<exists>s. run SyslogConfig_new sample_actions (system_init SyslogConfig_new 2 True 1) = Some s
    \<and> at_work (phase (messages s ! 2)) \<and> gone (phase (messages s ! 0))"
proof -
  obtain s where s: "run SyslogConfig_new sample_actions (system_init SyslogConfig_new 2 True 1) = Some s"
      "length (messages s) = 3" "owner (messages s ! 0) = Some 0" "owner (messages s ! 2) = Some 0"
      "at_work (phase (messages s ! 2))"
    using sample_runs by blast
  with connection_order [OF s(1), of 2 0 0] show ?thesis
    by (simp add: SyslogConfig_new_def)
qed

section \<open>A drain that times out\<close>

lemma swept_step: "sys_step config a s = Some s' \<Longrightarrow> a \<noteq> Time_Out_Drain \<Longrightarrow> swept s' = swept s"
  by (cases a) (auto simp: step_defs state_defs Let_def split: if_splits elim!: step_elims)

lemma swept_run:
  "runs (sys_step config) as s = Some s' \<Longrightarrow> Time_Out_Drain \<notin> set as \<Longrightarrow> swept s' = swept s"
  by (induction as arbitrary: s) (auto split: option.splits dest: swept_step)

text \<open>
  C36. When the drain times out, the messages then pending are added to \<open>abandoned_at_shutdown\<close> at
  once, and their tasks run on. If no drain timed out before, then after any further steps the
  counter is the number of stream messages really given up plus the number pending at
  the timeout: one of these that is given up afterwards counts twice, and one delivered
  afterwards counts both as delivered and as abandoned.
\<close>

theorem drain_timeout_counts_twice:
  assumes "run config as (system_init config n datagrams next_id) = Some s" and "swept s = 0"
    and "run config (Time_Out_Drain # bs) s = Some s'" and "Time_Out_Drain \<notin> set bs"
    and "max_pending config < 2 ^ 64" and "unat (max_connections config) + n < 2 ^ 64"
  shows "abandoned_at_shutdown (counters (shared s'))
    = of_nat (count_if (\<lambda>t. owner t \<noteq> None \<and> lost t) (messages s') + count_if (\<lambda>t. counted (phase t)) (messages s))"
proof -
  from assms(3) obtain s1 where s1: "time_out_drain s = Some s1" "runs (sys_step config) bs s1 = Some s'"
    by (auto simp: run_def split: option.splits)
  have ok: "sys_ok config next_id s"
    using run_ok assms(1,5,6) by blast
  then have "gauge s = waiting s"
    using assms(2) by (simp add: sys_ok_def gauge_ok_def)
  moreover have "swept s1 = gauge s"
    using s1(1) assms(2) by (auto simp: time_out_drain_def state_defs gauge_def split: if_splits)
  ultimately have "swept s' = waiting s"
    using swept_run [OF s1(2) assms(4)] by simp
  moreover have "sys_ok config next_id s'"
    using listeners.runs_keep [OF ok] assms(3) unfolding run_def by blast
  ultimately show ?thesis
    by (simp add: sys_ok_def fates_ok_def waiting_def)
qed

definition refuse_env :: attempt_env where
  "refuse_env = \<lparr>sends = [Sent], answer = Answer Refused, is_cancelled = True\<rparr>"

lemma late_runs:
  "\<exists>s s'. run SyslogConfig_new (take 8 sample_actions @ [Stop_Accepting]) (system_init SyslogConfig_new 2 True 1) = Some s
    \<and> run SyslogConfig_new [Time_Out_Drain, Attempt_Delivery 0 refuse_env] s = Some s' \<and> swept s = 0
    \<and> count_if (\<lambda>t. owner t \<noteq> None \<and> lost t) (messages s') = 1 \<and> count_if (\<lambda>t. counted (phase t)) (messages s) = 1"
  by (simp add: run_def sample_actions_def system_init_def SyslogConfig_new_def refuse_env_def at_def
      accept_stream_def spawn_stream_def read_more_def acquire_permit_def build_message_def count_pending_def
      send_pending_def receive_pending_def attempt_delivery_def time_out_drain_def lost_def
      stream_outcome_def state_defs reader_at_def phase_at_def framing_free_def deliver_def Let_def
      del: reader_at_Some phase_at_Some at_Some)

theorem drain_timeout_counts_twice_witness:
  "\<exists>s s'. run SyslogConfig_new (take 8 sample_actions @ [Stop_Accepting]) (system_init SyslogConfig_new 2 True 1) = Some s
    \<and> run SyslogConfig_new [Time_Out_Drain, Attempt_Delivery 0 refuse_env] s = Some s'
    \<and> count_if (\<lambda>t. owner t \<noteq> None \<and> lost t) (messages s') = 1
    \<and> abandoned_at_shutdown (counters (shared s')) = 2"
proof -
  obtain s s' where
      "run SyslogConfig_new (take 8 sample_actions @ [Stop_Accepting]) (system_init SyslogConfig_new 2 True 1) = Some s"
      "run SyslogConfig_new [Time_Out_Drain, Attempt_Delivery 0 refuse_env] s = Some s'" "swept s = 0"
      "count_if (\<lambda>t. owner t \<noteq> None \<and> lost t) (messages s') = 1" "count_if (\<lambda>t. counted (phase t)) (messages s) = 1"
    using late_runs by blast
  with drain_timeout_counts_twice [of SyslogConfig_new _ 2 True 1 s "[Attempt_Delivery 0 refuse_env]" s'] show ?thesis
    by (auto simp: SyslogConfig_new_def)
qed

section \<open>Connections that panic\<close>

definition unwound :: "system \<Rightarrow> nat" where
  "unwound s = count_if (\<lambda>c. reader c = StreamUnwound) (conns s)"

lemma unwound_readers: "map reader cs = map reader (conns s) \<Longrightarrow> count_if (\<lambda>c. reader c = StreamUnwound) cs = unwound s"
  using count_if_map [of "\<lambda>r. r = StreamUnwound" reader cs] count_if_map [of "\<lambda>r. r = StreamUnwound" reader "conns s"]
  by (simp add: unwound_def)

lemma unwound_step:
  assumes "sys_step config a s = Some s'"
  shows "unwound s \<le> unwound s'"
proof (cases a)
  case (Attempt_Delivery m env)
  with assms have "attempt_delivery m env s = Some s'"
    by simp
  then have "map reader (conns s') = map reader (conns s)"
    by (cases rule: attempt_deliveryE) (simp_all add: state_defs)
  from unwound_readers [OF this] show ?thesis
    by (simp add: unwound_def)
qed (use assms in \<open>auto simp: unwound_def step_defs state_defs Let_def split: if_splits elim!: step_elims\<close>)

lemma unwound_le_open: "unwound s \<le> open_connections s"
  unfolding unwound_def open_connections_def by (rule count_if_mono) simp

text \<open>The state in which the connections that panicked fill the limit.\<close>

definition all_leaked :: "SyslogConfig \<Rightarrow> nat \<Rightarrow> system \<Rightarrow> bool" where
  "all_leaked config n s \<longleftrightarrow> unwound s = unat (max_connections config) \<and> length (conns s) = n"

lemma leaked_full:
  assumes "sys_ok config next_id s" and "unat (max_connections config) \<le> unwound s"
  shows "unwound s = unat (max_connections config)" and "open_connections s = unat (max_connections config)"
    and "admitting s = 0"
  using assms unwound_le_open [of s] by (auto simp: sys_ok_def conns_ok_def)

lemma leaked_no_spawn:
  assumes "sys_ok config next_id s" and "unwound s = unat (max_connections config)"
  shows "spawn_stream config i s = None"
proof (rule ccontr)
  assume "spawn_stream config i s \<noteq> None"
  then have "i < length (acceptors s)" "acceptors s ! i = Admitting"
    by (auto simp: spawn_stream_def split: if_splits)
  then have "0 < admitting s"
    unfolding admitting_def by (intro count_if_pos) simp_all
  with leaked_full(3) [OF assms(1)] assms(2) show False
    by simp
qed

lemma conns_length_step:
  "sys_step config a s = Some s' \<Longrightarrow> (\<And>i. a \<noteq> Spawn_Stream i) \<Longrightarrow> length (conns s') = length (conns s)"
  by (cases a) (auto simp: step_defs state_defs Let_def split: if_splits elim!: step_elims dest: map_eq_imp_length_eq)

interpretation leaked: step_invariant "sys_step config" "\<lambda>s. sys_ok config next_id s \<and> all_leaked config n s"
  for config next_id n
proof
  fix s a s'
  assume s: "sys_ok config next_id s \<and> all_leaked config n s" and step: "sys_step config a s = Some s'"
  then have ok: "sys_ok config next_id s'"
    using listeners.step_keeps by blast
  have "a \<noteq> Spawn_Stream i" for i
    using leaked_no_spawn [of config next_id s i] s step by (auto simp: all_leaked_def)
  then have "length (conns s') = n"
    using conns_length_step [OF step] s by (simp add: all_leaked_def)
  moreover have "unwound s' = unat (max_connections config)"
    using leaked_full(1) [OF ok] unwound_step [OF step] s by (simp add: all_leaked_def)
  ultimately show "sys_ok config next_id s' \<and> all_leaked config n s'"
    using ok by (simp add: all_leaked_def)
qed

text \<open>
  C33. A panic loses a connection slot for good. With a per-connection limit above the largest channel
  capacity, which configuration allows, every connection that is not already refused for its PROXY header
  panics where it makes its channel: it is neither closed nor uncounted and hands over nothing. Such connections
  stay among the open ones, and once they fill the limit no connection is served any more,
  whatever happens: the listeners refuse every client.
\<close>

theorem oversized_channel_leaks_connections:
  assumes "MAX_PERMITS < max_pending_per_connection config"
    and "run config as (system_init config n datagrams next_id) = Some s"
    and "max_pending config < 2 ^ 64" and "unat (max_connections config) + n < 2 ^ 64"
    and "count_if (\<lambda>c. reader c = StreamUnwound) (conns s) = unat (max_connections config)"
    and "run config bs s = Some s'"
  shows "(\<exists>r. serve_stream chk L MAX_PERMITS config frames envs client reads events d = Some r
      \<and> (if proxy_protocol config \<and> (\<exists>failure buffer later. read_proxy_header [] reads = Some (Inl failure, buffer, later))
         then task r = Finished \<and> connections (dispatcher r) = connections d - 1
         else task r = Unwound \<and> dispatcher r = d \<and> handed r = []))
    \<and> length (conns s') = length (conns s) \<and> open_connections s' = unat (max_connections config)
    \<and> sys_step config (Spawn_Stream i) s' = None"
proof -
  have "sys_ok config next_id s \<and> all_leaked config (length (conns s)) s"
    using run_ok [OF assms(2-4)] assms(5) by (simp add: all_leaked_def unwound_def)
  then have "sys_ok config next_id s'" "all_leaked config (length (conns s)) s'"
    using leaked.runs_keep [where as = bs and s' = s'] assms(6) unfolding run_def by blast+
  then have "length (conns s') = length (conns s) \<and> open_connections s' = unat (max_connections config)
      \<and> sys_step config (Spawn_Stream i) s' = None"
    using leaked_full(2) [of config next_id s'] leaked_no_spawn [of config next_id s' i] by (simp add: all_leaked_def)
  with oversized_channel_unwinds [OF assms(1)] show ?thesis
    by blast
qed

definition leaky_config :: SyslogConfig where
  "leaky_config = fst (SyslogConfig_apply \<lparr>to_String = Inl, to_bool = (\<lambda>_. Inr False), to_u64 = (\<lambda>_. Inr 1),
      to_usize = (\<lambda>_. Inr 1001), to_u32 = (\<lambda>_. Inr 0)\<rparr> 1000
    [''syslog_max_pending_per_connection'' \<mapsto> ''1001'', ''syslog_max_connections'' \<mapsto> ''1''] SyslogConfig_new)"

lemma leaky_config_eq: "leaky_config = SyslogConfig_new\<lparr>max_pending_per_connection := 1001, max_connections := 1\<rparr>"
  by (simp add: leaky_config_def SyslogConfig_apply_def set_key_def)

theorem oversized_channel_leaks_connections_witness:
  "\<exists>s s'. run leaky_config [Accept_Stream 0, Spawn_Stream 0, Unwind_Stream 0] (system_init leaky_config 1 False 1) = Some s
    \<and> run leaky_config [Accept_Stream 0, Refuse_Stream 0] s = Some s'
    \<and> open_connections s' = 1 \<and> sys_step leaky_config (Spawn_Stream 0) s' = None"
proof -
  have "\<exists>s s'. run leaky_config [Accept_Stream 0, Spawn_Stream 0, Unwind_Stream 0] (system_init leaky_config 1 False 1) = Some s
      \<and> run leaky_config [Accept_Stream 0, Refuse_Stream 0] s = Some s'
      \<and> count_if (\<lambda>c. reader c = StreamUnwound) (conns s) = 1"
    by (simp add: leaky_config_eq run_def system_init_def SyslogConfig_new_def at_def accept_stream_def spawn_stream_def
        unwind_stream_def refuse_stream_def state_defs reader_at_def framing_free_def Let_def
        del: reader_at_Some phase_at_Some at_Some)
  then obtain s s' where s: "run leaky_config [Accept_Stream 0, Spawn_Stream 0, Unwind_Stream 0] (system_init leaky_config 1 False 1) = Some s"
      "run leaky_config [Accept_Stream 0, Refuse_Stream 0] s = Some s'"
      "count_if (\<lambda>c. reader c = StreamUnwound) (conns s) = 1"
    by blast
  moreover have "1000 < max_pending_per_connection leaky_config" "max_pending leaky_config < 2 ^ 64"
      "unat (max_connections leaky_config) + 1 < 2 ^ 64" "unat (max_connections leaky_config) = 1"
    by (simp_all add: leaky_config_eq SyslogConfig_new_def)
  ultimately show ?thesis
    using oversized_channel_leaks_connections [of 1000 leaky_config _ 1 False 1 s _ s'] by metis
qed

end
