(* ===== verification/Service.thy ===== *)
theory Service
  imports System_Safety
begin

text \<open>
  What the syslog listeners promise to clients and workers, as a specification over events that
  can be seen from outside: connections open and end, messages are admitted, get their content
  and identity, are handed to a worker, and finish. It knows nothing of counters, permits,
  channels and tasks. The concurrent system refines it event by event.
\<close>

section \<open>The specification\<close>

text \<open>
  A message: admitted but not read yet, held with the number of its next attempt, accepted by
  a handler, or over.
\<close>

datatype slot = Unread | Held PendingMessage u32 | Accepted_By_Handler PendingMessage | Over PendingMessage fate

fun over :: "slot \<Rightarrow> bool" where
  "over (Over _ _) = True"
| "over _ = False"

text \<open>Which connections are open, the messages with where they came from, and the next identity.\<close>

record service =
  spec_open :: "bool list"
  spec_slots :: "(nat option \<times> slot) list"
  spec_next_id :: u64

datatype service_event =
    Opened
  | Ended nat
  | Admitted "nat option"
  | Announced nat PendingMessage
  | Handed nat SyslogMessage worker_answer
  | Finished_As nat fate

definition under_way :: "(nat option \<Rightarrow> bool) \<Rightarrow> service \<Rightarrow> nat" where
  "under_way from v = count_if (\<lambda>(k, sl). from k \<and> \<not> over sl) (spec_slots v)"

definition all_over :: "nat option \<Rightarrow> (nat option \<times> slot) list \<Rightarrow> bool" where
  "all_over k slots = list_all (\<lambda>(k', sl). k' = k \<longrightarrow> over sl) slots"

definition set_slot :: "nat \<Rightarrow> nat option \<times> slot \<Rightarrow> service \<Rightarrow> service" where
  "set_slot m sl v = v\<lparr>spec_slots := (spec_slots v)[m := sl]\<rparr>"

fun service_step :: "SyslogConfig \<Rightarrow> service_event \<Rightarrow> service \<Rightarrow> service option" where
  "service_step config Opened v =
     (if count_if (\<lambda>b. b) (spec_open v) < unat (max_connections config)
      then Some (v\<lparr>spec_open := spec_open v @ [True]\<rparr>) else None)"
| "service_step config (Ended k) v =
     (if at (spec_open v) k = Some True \<and> all_over (Some k) (spec_slots v)
      then Some (v\<lparr>spec_open := (spec_open v)[k := False]\<rparr>) else None)"
| "service_step config (Admitted from) v =
     (if under_way (\<lambda>_. True) v < max_pending config
       \<and> (case from of
            None \<Rightarrow> True
          | Some k \<Rightarrow> at (spec_open v) k = Some True
              \<and> under_way (\<lambda>k'. k' = Some k) v < max_pending_per_connection config + 2)
      then Some (v\<lparr>spec_slots := spec_slots v @ [(from, Unread)]\<rparr>) else None)"
| "service_step config (Announced m pm) v =
     (case at (spec_slots v) m of
        Some (from, Unread) \<Rightarrow>
          if pm_message_id pm = spec_next_id v \<and> pm_utf8 pm = (from \<noteq> None)
           \<and> pm_transport pm = (if from = None then Datagram else Stream)
          then Some (set_slot m (from, Held pm 1) (v\<lparr>spec_next_id := spec_next_id v + 1\<rparr>)) else None
      | _ \<Rightarrow> None)"
| "service_step config (Handed m msg verdict) v =
     (case at (spec_slots v) m of
        Some (from, Held pm att) \<Rightarrow>
          if msg = to_message pm att
           \<and> (if from = None then att = 1 else all_over from (take m (spec_slots v)))
          then Some (set_slot m (from, if verdict = Answer Accepted then Accepted_By_Handler pm else Held pm (att + 1)) v)
          else None
      | _ \<Rightarrow> None)"
| "service_step config (Finished_As m f) v =
     (case at (spec_slots v) m of
        Some (from, Held pm att) \<Rightarrow> if f \<noteq> Taken then Some (set_slot m (from, Over pm f) v) else None
      | Some (from, Accepted_By_Handler pm) \<Rightarrow> if f = Taken then Some (set_slot m (from, Over pm f) v) else None
      | _ \<Rightarrow> None)"

definition service_init :: "u64 \<Rightarrow> service" where
  "service_init next_id = \<lparr>spec_open = [], spec_slots = [], spec_next_id = next_id\<rparr>"

section \<open>A message is accepted once\<close>

definition accepted_events :: "nat \<Rightarrow> service_event list \<Rightarrow> nat" where
  "accepted_events m = count_if (\<lambda>b. case b of Handed m' _ verdict \<Rightarrow> m' = m \<and> verdict = Answer Accepted | _ \<Rightarrow> False)"

fun slot_accepted :: "(nat option \<times> slot) option \<Rightarrow> bool" where
  "slot_accepted (Some (_, Accepted_By_Handler _)) = True"
| "slot_accepted (Some (_, Over _ f)) = (f = Taken)"
| "slot_accepted _ = False"

lemma at_append [simp]: "at (xs @ [x]) i = (if i = length xs then Some x else at xs i)"
  by (auto simp: at_def nth_append)

lemma at_length [simp]: "at xs (length xs) = None"
  by (simp add: at_def)

lemma at_update: "at (xs[m := x]) i = (if i = m then map_option (\<lambda>_. x) (at xs m) else at xs i)"
  by (auto simp: at_def)

lemma accepted_events_step:
  assumes "service_step config b v = Some v'"
  shows "of_bool (slot_accepted (at (spec_slots v') m))
    = of_bool (slot_accepted (at (spec_slots v) m)) + accepted_events m [b]"
  using assms
  by (cases b) (auto simp: accepted_events_def set_slot_def at_update simp del: at_Some
      split: if_splits option.splits slot.splits prod.splits)

lemma accepted_events_runs:
  "runs (service_step config) bs v = Some v' \<Longrightarrow>
   of_bool (slot_accepted (at (spec_slots v') m))
     = of_bool (slot_accepted (at (spec_slots v) m)) + accepted_events m bs"
proof (induction bs arbitrary: v)
  case (Cons b bs)
  then obtain v1 where v1: "service_step config b v = Some v1" "runs (service_step config) bs v1 = Some v'"
    by (auto split: option.splits)
  have "accepted_events m (b # bs) = accepted_events m [b] + accepted_events m bs"
    by (simp add: accepted_events_def)
  with Cons.IH [OF v1(2)] accepted_events_step [OF v1(1), of m] show ?case
    by simp
qed (simp add: accepted_events_def)

section \<open>The abstraction\<close>

fun slot_of :: "phase \<Rightarrow> slot" where
  "slot_of Granted = Unread"
| "slot_of (Numbered pm) = Held pm 1"
| "slot_of (Sending pm) = Held pm 1"
| "slot_of (InChannel pm) = Held pm 1"
| "slot_of (Delivering pm att) = Held pm att"
| "slot_of (Settled pm f) = Over pm f"
| "slot_of (Dropped pm f) = Over pm f"

definition to_slot :: "tracked \<Rightarrow> nat option \<times> slot" where
  "to_slot t = (owner t, slot_of (phase t))"

definition to_service :: "system \<Rightarrow> service" where
  "to_service s =
     \<lparr>spec_open = map (\<lambda>c. reader c \<noteq> StreamClosed) (conns s), spec_slots = map to_slot (messages s),
      spec_next_id = NEXT_MESSAGE_ID s\<rparr>"

text \<open>
  The events of a step. What was handed over is what \<open>deliver\<close> put on the queue, and how a message
  finished is read off the state it is left in.
\<close>

definition finished_as :: "nat \<Rightarrow> system \<Rightarrow> service_event list" where
  "finished_as m s' = (case phase_at s' m of Some (Settled _ f) \<Rightarrow> [Finished_As m f] | _ \<Rightarrow> [])"

definition handed_over :: "nat \<Rightarrow> attempt_env \<Rightarrow> system \<Rightarrow> service_event list" where
  "handed_over m env s =
     (case phase_at s m of
        Some (Delivering pm att) \<Rightarrow>
          (case deliver env pm att (counters (shared s)) of
             Some (_, _, msgs) \<Rightarrow> map (\<lambda>msg. Handed m msg (answer env)) msgs
           | None \<Rightarrow> [])
      | _ \<Rightarrow> [])"

fun shown :: "action \<Rightarrow> system \<Rightarrow> system \<Rightarrow> service_event list" where
  "shown (Spawn_Stream i) s s' = [Opened]"
| "shown (Header_Failed k failure) s s' = [Ended k]"
| "shown (Finish_Stream k) s s' = [Ended k]"
| "shown (Acquire_Permit k) s s' = [Admitted (Some k)]"
| "shown Try_Acquire s s' = (if 0 < credits s then [Admitted None] else [])"
| "shown (Build_Message m pm) s s' = (case phase_at s' m of Some (Numbered built) \<Rightarrow> [Announced m built] | _ \<Rightarrow> [])"
| "shown (Receive_Pending m) s s' = finished_as m s'"
| "shown (Attempt_Delivery m env) s s' = handed_over m env s @ finished_as m s'"
| "shown _ s s' = []"

lemma over_slot_of [simp]: "gone p \<Longrightarrow> over (slot_of p)"
  by (cases p) simp_all

lemma under_way_le: "under_way from (to_service s) \<le> count_if (\<lambda>t. from (owner t) \<and> \<not> gone (phase t)) (messages s)"
  unfolding under_way_def to_service_def
  by (simp add: count_if_map to_slot_def) (rule count_if_mono, auto)

lemma to_service_phase:
  assumes "m < length (messages s)" and "messages s' = (messages s)[m := (messages s ! m)\<lparr>phase := p\<rparr>]"
    and "map reader (conns s') = map reader (conns s)" and "NEXT_MESSAGE_ID s' = NEXT_MESSAGE_ID s"
  shows "to_service s' = set_slot m (owner (messages s ! m), slot_of p) (to_service s)"
proof -
  have "map (\<lambda>c. reader c \<noteq> StreamClosed) (conns s') = map (\<lambda>c. reader c \<noteq> StreamClosed) (conns s)"
    using arg_cong [OF assms(3), of "map (\<lambda>r. r \<noteq> StreamClosed)"] by (simp add: comp_def)
  with assms show ?thesis
    by (simp add: to_service_def set_slot_def map_update to_slot_def)
qed

lemma at_slots: "m < length (messages s) \<Longrightarrow>
  at (spec_slots (to_service s)) m = Some (owner (messages s ! m), slot_of (phase (messages s ! m)))"
  by (simp add: to_service_def to_slot_def)

lemma set_slot_twice [simp]: "set_slot m sl (set_slot m sl' v) = set_slot m sl v"
  by (simp add: set_slot_def)

lemma set_slot_same: "m < length (messages s) \<Longrightarrow>
  set_slot m (owner (messages s ! m), slot_of (phase (messages s ! m))) (to_service s) = to_service s"
  by (simp add: set_slot_def to_service_def list_update_same_conv to_slot_def)

section \<open>Refinement\<close>

text \<open>A datagram is attempted once.\<close>

definition first_attempt :: "tracked \<Rightarrow> bool" where
  "first_attempt t \<longleftrightarrow> (\<forall>pm att. owner t = None \<longrightarrow> phase t = Delivering pm att \<longrightarrow> att = 1)"

definition once_ok :: "system \<Rightarrow> bool" where
  "once_ok s \<longleftrightarrow> list_all first_attempt (messages s)"

lemma once_phase:
  "once_ok s \<Longrightarrow> first_attempt ((messages s ! m)\<lparr>phase := p\<rparr>) \<Longrightarrow>
   list_all first_attempt ((messages s)[m := (messages s ! m)\<lparr>phase := p\<rparr>])"
  by (auto simp: once_ok_def list_all_iff dest: set_update_subset_insert [THEN subsetD])

lemma once_step:
  assumes "once_ok s" and "sys_step config a s = Some s'"
  shows "once_ok s'"
proof (cases a)
  case (Build_Message m pm)
  with assms show ?thesis
    by (auto simp: once_ok_def [of s'] state_defs first_attempt_def intro!: once_phase elim!: build_messageE)
next
  case (Acquire_Permit k)
  with assms show ?thesis
    by (auto simp: once_ok_def state_defs first_attempt_def elim!: acquire_permitE)
next
  case Try_Acquire
  with assms show ?thesis
    by (auto simp: once_ok_def try_acquire_def state_defs first_attempt_def split: if_splits)
next
  case (Attempt_Delivery m env)
  with assms show ?thesis
    by (auto simp: once_ok_def [of s'] state_defs first_attempt_def intro!: once_phase elim!: attempt_deliveryE)
next
  case (Receive_Pending m)
  with assms show ?thesis
    by (auto simp: once_ok_def [of s'] state_defs first_attempt_def intro!: once_phase elim!: receive_pendingE)
qed (use assms in \<open>auto simp: once_ok_def step_defs state_defs Let_def split: if_splits elim!: step_elims
      intro!: once_phase [unfolded once_ok_def] simp: first_attempt_def\<close>)

definition listeners_ok :: "SyslogConfig \<Rightarrow> u64 \<Rightarrow> system \<Rightarrow> bool" where
  "listeners_ok config next_id s \<longleftrightarrow> sys_ok config next_id s \<and> once_ok s"

lemma listeners_ok_step:
  "listeners_ok config next_id s \<Longrightarrow> sys_step config a s = Some s' \<Longrightarrow> listeners_ok config next_id s'"
  unfolding listeners_ok_def by (blast intro: listeners.step_keeps once_step)

lemma open_count: "count_if (\<lambda>b. b) (spec_open (to_service s)) = open_connections s"
  by (simp add: to_service_def open_connections_def count_if_map)

lemma shows_opened:
  assumes "conns_ok config s" and "spawn_stream config i s = Some s'"
  shows "service_step config Opened (to_service s) = Some (to_service s')"
proof -
  have i: "i < length (acceptors s)" "acceptors s ! i = Admitting"
    using assms(2) by (auto simp: spawn_stream_def split: if_splits)
  then have "0 < admitting s"
    unfolding admitting_def by (intro count_if_pos) simp_all
  with assms(1) have "open_connections s < unat (max_connections config)"
    by (simp add: conns_ok_def)
  then show ?thesis
    using assms(2) by (auto simp: open_count) (auto simp: to_service_def spawn_stream_def state_defs split: if_splits)
qed

lemma shows_ended:
  assumes "k < length (conns s)" and "reader (conns s ! k) \<noteq> StreamClosed"
    and "\<forall>t \<in> set (messages s). owner t = Some k \<longrightarrow> gone (phase t)"
    and "conns s' = (conns s)[k := (conns s ! k)\<lparr>reader := StreamClosed\<rparr>]" and "messages s' = messages s"
    and "NEXT_MESSAGE_ID s' = NEXT_MESSAGE_ID s"
  shows "service_step config (Ended k) (to_service s) = Some (to_service s')"
  using assms by (auto simp: to_service_def all_over_def list_all_iff to_slot_def map_update)

lemma shows_admitted:
  assumes "permits_ok config s'" and "order_ok (messages s')" and "channel_ok config (messages s')"
    and "messages s' = messages s @ [\<lparr>owner = from, phase = Granted\<rparr>]"
    and "map (\<lambda>c. reader c \<noteq> StreamClosed) (conns s') = map (\<lambda>c. reader c \<noteq> StreamClosed) (conns s)"
    and "NEXT_MESSAGE_ID s' = NEXT_MESSAGE_ID s"
    and "\<And>k. from = Some k \<Longrightarrow> k < length (conns s) \<and> reader (conns s ! k) \<noteq> StreamClosed"
  shows "service_step config (Admitted from) (to_service s) = Some (to_service s')"
proof -
  have "under_way (\<lambda>_. True) (to_service s) < max_pending config"
    using under_way_le [of "\<lambda>_. True" s] assms(1,4) by (simp add: permits_ok_def)
  moreover have "under_way (\<lambda>k'. k' = Some k) (to_service s) < max_pending_per_connection config + 2" if "from = Some k" for k
    using under_way_le [of "\<lambda>k'. k' = Some k" s] under_way_bounded [OF assms(2,3), of k] assms(4) that by simp
  ultimately show ?thesis
    using assms(4-7) by (auto simp: to_service_def to_slot_def split: option.splits)
qed

lemma shows_announced:
  assumes "build_message m pm s = Some s'"
  shows "runs (service_step config) (shown (Build_Message m pm) s s') (to_service s) = Some (to_service s')"
proof -
  let ?stream = "owner (messages s ! m) \<noteq> None"
  define built where "built = pm\<lparr>pm_utf8 := ?stream, pm_transport := (if ?stream then Stream else Datagram),
    pm_message_id := NEXT_MESSAGE_ID s\<rparr>"
  have m: "m < length (messages s)" "phase (messages s ! m) = Granted"
      "s' = set_phase m (Numbered built) (s\<lparr>NEXT_MESSAGE_ID := NEXT_MESSAGE_ID s + 1\<rparr>)"
    using assms by (auto simp: build_message_def built_def Let_def split: if_splits)
  have "to_service s' = set_slot m (owner (messages s ! m), Held built 1)
      ((to_service s)\<lparr>spec_next_id := spec_next_id (to_service s) + 1\<rparr>)"
    using m by (simp add: to_service_def set_slot_def state_defs map_update to_slot_def)
  moreover have "shown (Build_Message m pm) s s' = [Announced m built]"
    using m by (simp add: state_defs phase_at_def at_def)
  moreover have "spec_next_id (to_service s) = NEXT_MESSAGE_ID s"
    by (simp add: to_service_def)
  ultimately show ?thesis
    using m(2) by (simp add: at_slots [OF m(1)] built_def)
qed

lemma finished_as_eq:
  "m < length (messages s') \<Longrightarrow>
   finished_as m s' = (case phase (messages s' ! m) of Settled _ f \<Rightarrow> [Finished_As m f] | _ \<Rightarrow> [])"
  by (simp add: finished_as_def phase_at_def at_def)

lemma shows_received:
  assumes "receive_pending m s = Some s'"
  shows "runs (service_step config) (shown (Receive_Pending m) s s') (to_service s) = Some (to_service s')"
  using assms
proof (cases rule: receive_pendingE)
  case (1 pm k)
  show ?thesis
  proof (cases "workers_gone (conns s ! k)")
    case True
    with 1 have "to_service s' = set_slot m (owner (messages s ! m), Over pm WorkersGone) (to_service s)"
      by (simp add: to_service_phase [where p = "Settled pm WorkersGone"] state_defs)
    with 1 True show ?thesis
      by (simp add: at_slots finished_as_eq state_defs)
  next
    case False
    with 1 have "to_service s' = to_service s"
      using set_slot_same [OF 1(1)] by (simp add: to_service_phase [where p = "Delivering pm 1"] state_defs)
    with 1 False show ?thesis
      by (simp add: finished_as_eq state_defs)
  qed
qed

lemma deliver_shown:
  assumes "deliver env pm att c = Some (out, c', msgs)"
  shows "(msgs = [] \<and> out = Unavailable) \<or> (msgs = [to_message pm att] \<and> (answer env = Answer Accepted \<longleftrightarrow> out = OutcomeAccepted))"
  using assms by (auto simp: deliver_def split: option.splits bool.splits worker_answer.splits HandlerResult.splits)

lemma earlier_over:
  assumes "order_ok (messages s)" and "m < length (messages s)" and "phase (messages s ! m) = Delivering pm att"
    and "owner (messages s ! m) \<noteq> None"
  shows "all_over (owner (messages s ! m)) (take m (spec_slots (to_service s)))"
  using assms
  by (fastforce simp: all_over_def list_all_length to_service_def to_slot_def order_ok_def gone_rank [symmetric])

lemma shows_handed:
  assumes "order_ok (messages s)" and "once_ok s" and "m < length (messages s)"
    and "phase (messages s ! m) = Delivering pm att"
    and "deliver env pm att (counters (shared s)) = Some (out, c, msgs)"
  shows "runs (service_step config) (handed_over m env s) (to_service s)
    = Some (set_slot m (owner (messages s ! m),
        if msgs = [] then Held pm att
        else if out = OutcomeAccepted then Accepted_By_Handler pm else Held pm (att + 1)) (to_service s))"
proof -
  have "att = 1" if "owner (messages s ! m) = None"
    using assms(2-4) that by (auto simp: once_ok_def list_all_length first_attempt_def)
  moreover have "handed_over m env s = map (\<lambda>msg. Handed m msg (answer env)) msgs"
    using assms(3-5) by (simp add: handed_over_def phase_at_def at_def)
  ultimately show ?thesis
    using deliver_shown [OF assms(5)] earlier_over [OF assms(1,3,4)] set_slot_same [OF assms(3)] assms(4)
    by (auto simp: at_slots [OF assms(3)])
qed

lemma shows_attempt:
  assumes "order_ok (messages s)" and "once_ok s" and "attempt_delivery m env s = Some s'"
  shows "runs (service_step config) (shown (Attempt_Delivery m env) s s') (to_service s) = Some (to_service s')"
  using assms(3)
proof (cases rule: attempt_deliveryE)
  case (again pm att c k)
  then obtain msgs where msgs: "deliver env pm att (counters (shared s)) = Some (OutcomeRefused, c, msgs)"
    by blast
  have "to_service s' = set_slot m (owner (messages s ! m), Held pm (att + 1)) (to_service s)"
    using again by (simp add: to_service_phase [where p = "Delivering pm (att + 1)"] state_defs)
  with again shows_handed [OF assms(1,2) again(1,2) msgs, of config] deliver_shown [OF msgs] show ?thesis
    by (simp add: runs_append finished_as_eq state_defs)
next
  case (settle pm att out c f cs c')
  then obtain msgs where msgs: "deliver env pm att (counters (shared s)) = Some (out, c, msgs)"
    by blast
  have "to_service s' = set_slot m (owner (messages s ! m), Over pm f) (to_service s)"
    using settle by (simp add: to_service_phase [where p = "Settled pm f"] state_defs)
  moreover have "finished_as m s' = [Finished_As m f]"
    using settle by (simp add: finished_as_eq state_defs)
  moreover have "at (spec_slots (set_slot m sl (to_service s))) m = Some sl" for sl
    using settle(1) by (simp add: set_slot_def to_service_def)
  ultimately show ?thesis
    using shows_handed [OF assms(1,2) settle(1,2) msgs, of config] deliver_shown [OF msgs] settle(5)
    by (auto simp: runs_append simp del: at_Some)
qed

text \<open>A step that shows nothing changes nothing the specification knows.\<close>

lemma unseen_phase:
  "m < length ts \<Longrightarrow> slot_of p = slot_of (phase (ts ! m)) \<Longrightarrow>
   map to_slot (ts[m := (ts ! m)\<lparr>phase := p\<rparr>]) = map to_slot ts"
  by (simp add: map_update list_update_same_conv to_slot_def)

lemma unseen_reader:
  assumes "k < length (conns s)" and "reader (conns s ! k) \<noteq> StreamClosed" and "r \<noteq> StreamClosed"
  shows "map (\<lambda>c. reader c \<noteq> StreamClosed) ((conns s)[k := (conns s ! k)\<lparr>reader := r\<rparr>])
    = map (\<lambda>c. reader c \<noteq> StreamClosed) (conns s)"
  using assms by (simp add: map_update list_update_same_conv)

lemma unseen_step:
  assumes "sys_step config a s = Some s'" and "shown a s s' = []" and "\<And>m pm. a \<noteq> Build_Message m pm"
    and "\<And>m. a \<noteq> Receive_Pending m" and "\<And>m env. a \<noteq> Attempt_Delivery m env"
  shows "to_service s' = to_service s"
  using assms
  by (cases a) (auto elim!: step_elims simp: step_defs state_defs to_service_def unseen_reader unseen_phase Let_def
      split: if_splits)

lemma shown_step:
  assumes "listeners_ok config next_id s" and step: "sys_step config a s = Some s'"
  shows "runs (service_step config) (shown a s s') (to_service s) = Some (to_service s')"
proof -
  have ok: "conns_ok config s" "order_ok (messages s)" "closed_ok (map reader (conns s)) (messages s)" "once_ok s"
      "permits_ok config s'" "order_ok (messages s')" "channel_ok config (messages s')"
    using assms(1) listeners.step_keeps [OF _ step, of next_id] by (auto simp: listeners_ok_def sys_ok_def)
  show ?thesis
  proof (cases a)
    case (Spawn_Stream i)
    with step shows_opened [OF ok(1)] show ?thesis
      by (simp del: service_step.simps)
  next
    case (Header_Failed k failure)
    with step closed_header [OF ok(3), of k] have "service_step config (Ended k) (to_service s) = Some (to_service s')"
      by (intro shows_ended) (auto simp: header_failed_def state_defs Let_def split: if_splits)
    with Header_Failed show ?thesis
      by (simp del: service_step.simps)
  next
    case (Finish_Stream k)
    with step have "service_step config (Ended k) (to_service s) = Some (to_service s')"
      by (intro shows_ended) (auto simp: finish_stream_def state_defs list_all_iff split: if_splits)
    with Finish_Stream show ?thesis
      by (simp del: service_step.simps)
  next
    case (Acquire_Permit k)
    with step have "service_step config (Admitted (Some k)) (to_service s) = Some (to_service s')"
      by (intro shows_admitted [OF ok(5-7)]) (auto simp: state_defs unseen_reader elim!: acquire_permitE)
    with Acquire_Permit show ?thesis
      by (simp del: service_step.simps)
  next
    case Try_Acquire
    show ?thesis
    proof (cases "0 < credits s")
      case True
      with Try_Acquire step have "service_step config (Admitted None) (to_service s) = Some (to_service s')"
        by (intro shows_admitted [OF ok(5-7)]) (auto simp: try_acquire_def split: if_splits)
      with Try_Acquire True show ?thesis
        by (simp del: service_step.simps)
    next
      case False
      with Try_Acquire step unseen_step [OF step] show ?thesis
        by simp
    qed
  next
    case (Build_Message m pm)
    with step shows_announced show ?thesis
      by simp
  next
    case (Receive_Pending m)
    with step shows_received show ?thesis
      by simp
  next
    case (Attempt_Delivery m env)
    with step shows_attempt [OF ok(2,4)] show ?thesis
      by simp
  qed (use unseen_step [OF step] in simp_all)
qed

interpretation refined: simulation "sys_step config" "listeners_ok config next_id" "service_step config" to_service shown
  for config next_id
  by unfold_locales (blast intro: listeners_ok_step shown_step)+

lemma to_service_init: "to_service (system_init config n datagrams next_id) = service_init next_id"
  by (simp add: to_service_def system_init_def service_init_def)

text \<open>
  C2. The running listeners keep their promises in every interleaving of accept loops, connections,
  delivery tasks, datagram tasks and shutdown: the events a run shows are a run of the
  specification, which ends where the system ends. So a connection opens within the limit and
  ends when its messages are over; a message is admitted within the limits, gets the next
  identity, is handed over with its own content and the number of the attempt, after the earlier ones
  of its connection and, for a datagram, once; and it finishes as accepted just when a
  handler has accepted it. Exactly the messages that finish so were accepted, each by one handler.
\<close>

theorem listeners_refine_service:
  assumes "run config as (system_init config n datagrams next_id) = Some s"
    and "max_pending config < 2 ^ 64" and "unat (max_connections config) + n < 2 ^ 64"
  shows "let events = observed (sys_step config) shown as (system_init config n datagrams next_id)
    in runs (service_step config) events (service_init next_id) = Some (to_service s)
      \<and> accepted_events m events = (if m < length (messages s) \<and> was_taken (messages s ! m) then 1 else 0)"
proof -
  let ?events = "observed (sys_step config) shown as (system_init config n datagrams next_id)"
  have "listeners_ok config next_id (system_init config n datagrams next_id)"
    using system_init_ok [OF assms(2,3)] by (simp add: listeners_ok_def once_ok_def system_init_def)
  from refined.runs_refine [OF this] assms(1)
  have run: "runs (service_step config) ?events (service_init next_id) = Some (to_service s)"
    by (simp add: run_def to_service_init)
  have "slot_accepted (at (map to_slot (messages s)) m) \<longleftrightarrow> m < length (messages s) \<and> was_taken (messages s ! m)"
    by (cases "phase (messages s ! m)") (auto simp: at_def to_slot_def was_taken_def)
  with run accepted_events_runs [OF run, of m] show ?thesis
    by (simp add: service_init_def to_service_def at_def [of "[]"] of_bool_def split: if_splits)
qed

theorem listeners_refine_service_witness:
  "\<exists>s. run SyslogConfig_new sample_actions (system_init SyslogConfig_new 2 True 1) = Some s
    \<and> runs (service_step SyslogConfig_new)
        (observed (sys_step SyslogConfig_new) shown sample_actions (system_init SyslogConfig_new 2 True 1)) (service_init 1)
      = Some (to_service s)
    \<and> accepted_events 0 (observed (sys_step SyslogConfig_new) shown sample_actions (system_init SyslogConfig_new 2 True 1)) = 1"
proof -
  obtain s where s: "run SyslogConfig_new sample_actions (system_init SyslogConfig_new 2 True 1) = Some s"
      "length (messages s) = 3" "was_taken (messages s ! 0)"
    using sample_runs by blast
  moreover have "max_pending SyslogConfig_new < 2 ^ 64" "unat (max_connections SyslogConfig_new) + 2 < 2 ^ 64"
    by (simp_all add: SyslogConfig_new_def)
  ultimately show ?thesis
    using listeners_refine_service [OF s(1), of 0] by (simp add: Let_def)
qed

end
