(* ===== verification/Drain.thy ===== *)
theory Drain
  imports System_Safety
begin

text \<open>
  The drain at shutdown: once the token is cancelled and no new input is taken, the tasks of
  the listeners come to an end. The actions that take new input or give up are left out: accepting,
  reading, receiving, unwinding and timing out.
\<close>

fun drains :: "action \<Rightarrow> bool" where
  "drains (Accept_Stream _) = False"
| "drains (Header_Read _ _) = False"
| "drains (Read_More _ _) = False"
| "drains (Unwind_Stream _) = False"
| "drains Truncated_Datagram = False"
| "drains Try_Acquire = False"
| "drains Stop_Accepting = False"
| "drains Time_Out_Drain = False"
| "drains _ = True"

definition at_rest :: "system \<Rightarrow> bool" where
  "at_rest s \<longleftrightarrow>
     list_all (\<lambda>a. a = AcceptorDone) (acceptors s) \<and> \<not> receiving s
     \<and> list_all (\<lambda>c. reader c = StreamClosed \<or> reader c = StreamUnwound) (conns s)
     \<and> list_all (\<lambda>t. gone (phase t)) (messages s)"

section \<open>The work left\<close>

fun acceptor_work :: "acceptor \<Rightarrow> nat" where
  "acceptor_work AcceptorDone = 0"
| "acceptor_work Selecting = 1"
| "acceptor_work Refusing = 2"
| "acceptor_work Admitting = 5"

text \<open>A frame in the buffer costs the steps of its message and one more.\<close>

fun reader_work :: "reader \<Rightarrow> nat" where
  "reader_work InHeader = 3"
| "reader_work (Reading n) = 2 + 7 * n"
| "reader_work ReadingDone = 1"
| "reader_work _ = 0"

definition message_work :: "tracked \<Rightarrow> nat" where
  "message_work t = 6 - rank (phase t)"

definition work :: "system \<Rightarrow> nat" where
  "work s = sum_list (map acceptor_work (acceptors s)) + of_bool (receiving s)
     + sum_list (map (\<lambda>c. reader_work (reader c)) (conns s)) + sum_list (map message_work (messages s))"

lemma sum_work_update:
  fixes f :: "'a \<Rightarrow> nat"
  assumes "i < length xs"
  shows "sum_list (map f (xs[i := y])) + f (xs ! i) = sum_list (map f xs) + f y"
proof -
  have "sum_list (map f xs) = sum_list (map f (take i xs @ xs ! i # drop (Suc i) xs))"
    using assms by (simp add: id_take_nth_drop [symmetric])
  with assms show ?thesis
    by (simp add: upd_conv_take_nth_drop)
qed

lemma sum_work_less:
  fixes f :: "'a \<Rightarrow> nat"
  shows "i < length xs \<Longrightarrow> f y < f (xs ! i) \<Longrightarrow> sum_list (map f (xs[i := y])) < sum_list (map f xs)"
  using sum_work_update [of i xs f y] by linarith

lemma work_message:
  assumes "m < length (messages s)" and "rank (phase (messages s ! m)) < rank p"
    and "messages s' = (messages s)[m := (messages s ! m)\<lparr>phase := p\<rparr>]"
    and "acceptors s' = acceptors s" and "receiving s' = receiving s" and "map reader (conns s') = map reader (conns s)"
  shows "work s' < work s"
proof -
  have "rank (phase (messages s ! m)) < 6"
    using assms(2) rank_le [of p] by linarith
  then have "sum_list (map message_work (messages s')) < sum_list (map message_work (messages s))"
    unfolding assms(3) using assms(1,2) by (intro sum_work_less) (simp_all add: message_work_def)
  moreover have "map (\<lambda>c. reader_work (reader c)) (conns s') = map (\<lambda>c. reader_work (reader c)) (conns s)"
    using arg_cong [OF assms(6), of "map reader_work"] by (simp add: comp_def)
  ultimately show ?thesis
    using assms(4,5) by (simp add: work_def)
qed

lemma work_reader:
  assumes "k < length (conns s)" and "reader_work r < reader_work (reader (conns s ! k))"
    and "conns s' = (conns s)[k := (conns s ! k)\<lparr>reader := r\<rparr>]"
    and "acceptors s' = acceptors s" and "receiving s' = receiving s" and "messages s' = messages s"
  shows "work s' < work s"
  using assms sum_work_less [of k "conns s" "\<lambda>c. reader_work (reader c)"] by (simp add: work_def)

lemma work_acceptor:
  assumes "i < length (acceptors s)" and "acceptor_work a < acceptor_work (acceptors s ! i)"
    and "acceptors s' = (acceptors s)[i := a]" and "conns s' = conns s" and "receiving s' = receiving s"
    and "messages s' = messages s"
  shows "work s' < work s"
  using assms sum_work_less [of i "acceptors s" acceptor_work] by (simp add: work_def)

lemma work_spawn:
  assumes "spawn_stream config i s = Some s'"
  shows "work s' < work s"
  using assms sum_work_update [of i "acceptors s" acceptor_work Selecting]
  by (auto simp: spawn_stream_def state_defs work_def split: if_splits)

lemma work_acquire:
  assumes "acquire_permit k s = Some s'"
  shows "work s' < work s"
  using assms
proof (cases rule: acquire_permitE)
  case (1 n)
  with sum_work_update [of k "conns s" "\<lambda>c. reader_work (reader c)" "(conns s ! k)\<lparr>reader := Reading n\<rparr>"]
  show ?thesis
    by (simp add: state_defs work_def message_work_def)
qed

lemma work_step:
  assumes "cancelled s" and "drains a" and "sys_step config a s = Some s'"
  shows "work s' < work s"
proof (cases a)
  case (Spawn_Stream i)
  with assms work_spawn show ?thesis
    by simp
next
  case (Acquire_Permit k)
  with assms work_acquire show ?thesis
    by simp
next
  case (Refuse_Stream i)
  with assms show ?thesis
    by (auto simp: refuse_stream_def state_defs intro!: work_acceptor [of i _ Selecting] split: if_splits)
next
  case (Stop_Acceptor i)
  with assms show ?thesis
    by (auto simp: stop_acceptor_def state_defs intro!: work_acceptor [of i _ AcceptorDone] split: if_splits)
next
  case (Header_Failed k failure)
  with assms show ?thesis
    by (auto simp: header_failed_def state_defs Let_def intro!: work_reader [of k _ StreamClosed] split: if_splits)
next
  case (Reject_Frame k error)
  with assms(3) have "reject_frame k error s = Some s'"
    by simp
  then show ?thesis
    by (cases rule: reject_frameE)
      (auto simp: state_defs intro!: work_reader [of k _ "if fatal error then ReadingDone else Reading n" for n])
next
  case (End_Reading k)
  with assms show ?thesis
    by (auto simp: end_reading_def state_defs intro!: work_reader [of k _ ReadingDone] split: if_splits)
next
  case (Finish_Stream k)
  with assms show ?thesis
    by (auto simp: finish_stream_def state_defs intro!: work_reader [of k _ StreamClosed] split: if_splits)
next
  case Stop_Datagrams
  with assms show ?thesis
    by (auto simp: stop_datagrams_def work_def split: if_splits)
next
  case (Build_Message m pm)
  with assms show ?thesis
    by (auto simp: state_defs intro!: work_message [of m] elim!: build_messageE)
next
  case (Attempt_Delivery m env)
  with assms show ?thesis
    by (auto simp: state_defs intro!: work_message [of m] elim!: attempt_deliveryE)
next
  case (Receive_Pending m)
  with assms(3) have "receive_pending m s = Some s'"
    by simp
  then show ?thesis
  proof (cases rule: receive_pendingE)
    case (1 pm k)
    then show ?thesis
      by (intro work_message [of m s "if workers_gone (conns s ! k) then Settled pm WorkersGone else Delivering pm 1"])
        (simp_all add: state_defs)
  qed
qed (use assms in \<open>auto simp: state_defs intro!: work_message elim!: step_elims\<close>)

section \<open>Something can go on\<close>

definition drain_ok :: "SyslogConfig \<Rightarrow> u64 \<Rightarrow> system \<Rightarrow> bool" where
  "drain_ok config next_id s \<longleftrightarrow>
     sys_ok config next_id s \<and> cancelled s \<and> 0 < max_pending config \<and> 0 < max_pending_per_connection config"

lemma cancelled_step: "sys_step config a s = Some s' \<Longrightarrow> cancelled s \<Longrightarrow> cancelled s'"
  by (cases a) (auto simp: step_defs state_defs Let_def split: if_splits elim!: step_elims)

definition goes_on :: "SyslogConfig \<Rightarrow> system \<Rightarrow> bool" where
  "goes_on config s \<longleftrightarrow> (\<exists>a s'. drains a \<and> sys_step config a s = Some s')"

lemma goes_onI: "sys_step config a s = Some s' \<Longrightarrow> drains a \<Longrightarrow> goes_on config s"
  unfolding goes_on_def by blast

lemma acceptor_goes_on:
  assumes "cancelled s" and "\<not> list_all (\<lambda>a. a = AcceptorDone) (acceptors s)"
  shows "goes_on config s"
proof -
  obtain i where i: "i < length (acceptors s)" "acceptors s ! i \<noteq> AcceptorDone"
    using assms(2) by (auto simp: list_all_length)
  show ?thesis
  proof (cases "acceptors s ! i")
    case Selecting
    with i assms(1) show ?thesis
      by (intro goes_onI [of config "Stop_Acceptor i"]) (simp_all add: stop_acceptor_def)
  next
    case Refusing
    with i show ?thesis
      by (intro goes_onI [of config "Refuse_Stream i"]) (simp_all add: refuse_stream_def)
  next
    case Admitting
    with i show ?thesis
      by (intro goes_onI [of config "Spawn_Stream i"]) (simp_all add: spawn_stream_def)
  qed (use i in simp)
qed

lemma at_work_goes_on:
  assumes "m < length (messages s)" and "at_work (phase (messages s ! m))"
  shows "goes_on config s"
proof (cases "phase (messages s ! m)")
  case (Delivering pm att)
  obtain out c msgs where "deliver accept_env pm att (counters (shared s)) = Some (out, c, msgs)"
    by (simp add: deliver_def accept_env_def)
  with Delivering assms(1) show ?thesis
    by (intro goes_onI [of config "Attempt_Delivery m accept_env"]) (simp_all add: attempt_delivery_def Let_def phase_at_def at_def)
next
  case (Settled pm f)
  with assms(1) show ?thesis
    by (intro goes_onI [of config "Drop_Permit m"]) (simp_all add: drop_permit_def phase_at_def at_def)
qed (use assms in simp_all)

text \<open>A channel that holds something: its task is at work on a message, or takes the oldest.\<close>

lemma channel_goes_on:
  assumes "m < length (messages s)" and "in_channel (phase (messages s ! m))" and "owner (messages s ! m) = Some k"
  shows "goes_on config s"
proof (cases "list_ex (\<lambda>t. owner t = Some k \<and> at_work (phase t)) (messages s)")
  case True
  then show ?thesis
    by (auto simp: list_ex_length intro: at_work_goes_on)
next
  case False
  define P where "P m \<longleftrightarrow> m < length (messages s) \<and> in_channel (phase (messages s ! m)) \<and> owner (messages s ! m) = Some k"
    for m
  have "\<exists>m. P m"
    using assms by (auto simp: P_def)
  then obtain j where first: "P j" "\<And>i. i < j \<Longrightarrow> \<not> P i"
    by (auto simp: exists_least_iff [of P])
  have "\<not> list_ex (\<lambda>t. owner t = Some k \<and> in_channel (phase t)) (take j (messages s))"
    using first by (auto simp: list_ex_length P_def)
  moreover obtain pm where "phase (messages s ! j) = InChannel pm"
    using first(1) by (auto simp: P_def elim: in_channel.elims)
  ultimately show ?thesis
    using first(1) False
    by (cases "workers_gone (conns s ! k)")
      (auto intro!: goes_onI [of config "Receive_Pending j"] simp: receive_pending_def phase_at_def at_def P_def)
qed

lemma message_goes_on:
  assumes "0 < max_pending_per_connection config" and "channel_ok config (messages s)" and m: "m < length (messages s)" and "\<not> gone (phase (messages s ! m))"
  shows "goes_on config s"
proof (cases "phase (messages s ! m)")
  case Granted
  with m show ?thesis
    by (intro goes_onI [of config "Build_Message m sample_message"]) (simp_all add: build_message_def Let_def)
next
  case (Numbered pm)
  with m show ?thesis
    by (intro goes_onI [of config "Count_Pending m"]) (simp_all add: count_pending_def phase_at_def at_def)
next
  case (Sending pm)
  show ?thesis
  proof (cases "owner (messages s ! m)")
    case None
    with Sending m show ?thesis
      by (intro goes_onI [of config "Spawn_Delivery m"]) (simp_all add: spawn_delivery_def phase_at_def at_def)
  next
    case (Some k)
    let ?channel = "filter (\<lambda>t. owner t = Some k \<and> in_channel (phase t)) (messages s)"
    show ?thesis
    proof (cases "length ?channel < max_pending_per_connection config")
      case True
      with Sending Some m show ?thesis
        by (intro goes_onI [of config "Send_Pending m"]) (simp_all add: send_pending_def phase_at_def at_def)
    next
      case False
      with assms(1) have "?channel \<noteq> []"
        by auto
      then show ?thesis
        by (auto simp: filter_empty_conv in_set_conv_nth intro: channel_goes_on)
    qed
  qed
next
  case (InChannel pm)
  then obtain k where "owner (messages s ! m) = Some k"
    using channel_owner [OF assms(2) m] by auto
  with channel_goes_on [OF m] InChannel show ?thesis
    by simp
next
  case (Delivering pm att)
  with at_work_goes_on [OF m] show ?thesis
    by simp
next
  case (Settled pm f)
  with at_work_goes_on [OF m] show ?thesis
    by simp
qed (use assms in simp)

text \<open>When all messages are gone the permits are free, and the readers and listeners can end.\<close>

lemma quiet_goes_on:
  assumes "drain_ok config next_id s" and quiet: "list_all (\<lambda>t. gone (phase t)) (messages s)"
    and "receiving s \<or> \<not> list_all (\<lambda>c. reader c = StreamClosed \<or> reader c = StreamUnwound) (conns s)"
  shows "goes_on config s"
proof -
  have free: "framing_free k s" for k
    using quiet by (fastforce simp: framing_free_def list_ex_iff list_all_iff elim: gone.elims)
  have "count_if (\<lambda>t. \<not> gone (phase t)) (messages s) = 0"
    using quiet by (simp add: count_if_def filter_empty_conv list_all_iff)
  then have credits: "0 < credits s"
    using assms(1) by (simp add: drain_ok_def sys_ok_def permits_ok_def)
  show ?thesis
  proof (cases "receiving s")
    case True
    with free assms(1) show ?thesis
      by (intro goes_onI [of config Stop_Datagrams]) (simp_all add: stop_datagrams_def drain_ok_def)
  next
    case False
    then obtain k where k: "k < length (conns s)" "reader (conns s ! k) \<noteq> StreamClosed" "reader (conns s ! k) \<noteq> StreamUnwound"
      using assms(3) by (auto simp: list_all_length)
    show ?thesis
    proof (cases "reader (conns s ! k)")
      case InHeader
      with k show ?thesis
        by (intro goes_onI [of config "Header_Failed k (Read ''timeout'')"]) (simp_all add: header_failed_def Let_def)
    next
      case (Reading n)
      show ?thesis
      proof (cases n)
        case 0
        with Reading k free show ?thesis
          by (intro goes_onI [of config "End_Reading k"]) (simp_all add: end_reading_def)
      next
        case (Suc n')
        with Reading k free credits show ?thesis
          by (intro goes_onI [of config "Acquire_Permit k"]) (simp_all add: acquire_permit_def reader_at_def at_def)
      qed
    next
      case ReadingDone
      with k quiet show ?thesis
        by (intro goes_onI [of config "Finish_Stream k"]) (simp_all add: finish_stream_def list_all_iff)
    qed (use k in simp_all)
  qed
qed

lemma drain_goes_on:
  assumes "drain_ok config next_id s" and "\<not> at_rest s"
  shows "goes_on config s"
proof -
  have ok: "cancelled s" "channel_ok config (messages s)" "0 < max_pending_per_connection config"
    using assms(1) by (simp_all add: drain_ok_def sys_ok_def)
  consider "\<not> list_all (\<lambda>a. a = AcceptorDone) (acceptors s)" | "\<not> list_all (\<lambda>t. gone (phase t)) (messages s)"
    | "list_all (\<lambda>t. gone (phase t)) (messages s)"
      "receiving s \<or> \<not> list_all (\<lambda>c. reader c = StreamClosed \<or> reader c = StreamUnwound) (conns s)"
    using assms(2) unfolding at_rest_def by blast
  then show ?thesis
  proof cases
    case 1
    with ok acceptor_goes_on show ?thesis
      by blast
  next
    case 2
    with ok message_goes_on show ?thesis
      by (auto simp: list_all_length)
  next
    case 3
    with assms(1) quiet_goes_on show ?thesis
      by blast
  qed
qed

interpretation drain: draining "sys_step config" "drain_ok config next_id" drains work at_rest for config next_id
proof
  fix s a s'
  assume "drain_ok config next_id s" and "sys_step config a s = Some s'"
  then show "drain_ok config next_id s'"
    using listeners.step_keeps [of config next_id s a s'] cancelled_step [of config a s s'] by (simp add: drain_ok_def)
next
  fix s a s'
  assume "drain_ok config next_id s" and "drains a" and "sys_step config a s = Some s'"
  then show "work s' < work s"
    using work_step [of s a config s'] by (simp add: drain_ok_def)
next
  fix s
  assume "drain_ok config next_id s" and "\<not> at_rest s"
  then show "\<exists>a s'. drains a \<and> sys_step config a s = Some s'"
    using drain_goes_on unfolding goes_on_def by blast
qed

section \<open>The drain ends\<close>

text \<open>
  C5. After \<open>stop_accepting\<close> the listeners drain. From any reachable state with the token
  cancelled, the steps that take no new input are at most \<open>work s\<close> in number, and whenever none
  of them is possible any more everything has ended: the accept loops and the datagram listener
  are done, every connection is closed unless it unwound, every message is settled, and all
  permits are back. No deadlock between full channels, permits and readers keeps the drain open.
\<close>

theorem drain_finishes:
  assumes "run config as (system_init config n datagrams next_id) = Some s" and "cancelled s"
    and "0 < max_pending config" and "0 < max_pending_per_connection config"
    and "max_pending config < 2 ^ 64" and "unat (max_connections config) + n < 2 ^ 64"
    and "list_all drains bs" and "run config bs s = Some s'"
  shows "length bs \<le> work s
    \<and> ((\<forall>a. drains a \<longrightarrow> sys_step config a s' = None) \<longrightarrow> at_rest s' \<and> credits s' = max_pending config)
    \<and> (\<exists>cs s''. list_all drains cs \<and> run config cs s' = Some s'' \<and> at_rest s'')"
proof -
  have ok: "drain_ok config next_id s"
    using run_ok assms(1-6) by (simp add: drain_ok_def)
  have r: "runs (sys_step config) bs s = Some s'"
    using assms(8) by (simp add: run_def)
  have ok': "drain_ok config next_id s'"
    using drain.runs_keep [OF ok r] .
  have "credits s' = max_pending config" if "at_rest s'"
  proof -
    have "count_if (\<lambda>t. \<not> gone (phase t)) (messages s') = 0"
      using that by (simp add: at_rest_def count_if_def filter_empty_conv list_all_iff)
    with ok' show ?thesis
      by (simp add: drain_ok_def sys_ok_def permits_ok_def)
  qed
  moreover have "length bs \<le> work s"
    using drain.runs_bounded [OF ok assms(7) r] by simp
  ultimately show ?thesis
    using drain.stuck_at_rest [OF ok r] drain.reaches_rest [OF ok'] unfolding run_def by blast
qed

theorem drain_finishes_witness:
  "\<exists>s bs s'. run SyslogConfig_new [Accept_Stream 0, Stop_Accepting] (system_init SyslogConfig_new 2 True 1) = Some s
    \<and> list_all drains bs \<and> run SyslogConfig_new bs s = Some s' \<and> at_rest s'"
proof -
  obtain s where s: "run SyslogConfig_new [Accept_Stream 0, Stop_Accepting] (system_init SyslogConfig_new 2 True 1) = Some s"
      "cancelled s"
    by (simp add: run_def accept_stream_def system_init_def set_acceptor_def)
  have "run SyslogConfig_new [] s = Some s"
    by (simp add: run_def)
  with drain_finishes [OF s, of "[]" s] s(1) show ?thesis
    by (auto simp: SyslogConfig_new_def)
qed

end
