(* ===== verification/Sockets.thy ===== *)
theory Sockets
  imports Http_Types
begin

text \<open>
  Unix socket files (\<open>bind_unix_listener\<close> and \<open>remove_socket_file\<close> of \<open>syslog.rs\<close>): a server
  binds a temporary path and renames it over its own, and removes the file at the end only if it is
  still the one it bound. The file system is a map from paths to the identity \<open>(dev, ino)\<close> of the file;
  what the kernel answers (the identity of a new socket, failures) is an argument.
\<close>

type_synonym ident = "u64 \<times> u64"
type_synonym files = "string \<rightharpoonup> ident"

section \<open>The file system\<close>

text \<open>\<open>UnixListener::bind\<close> makes a new file and fails on a path that is taken.\<close>

definition unix_bind :: "ident option \<Rightarrow> string \<Rightarrow> files \<Rightarrow> files option" where
  "unix_bind new path fs =
     (case new of None \<Rightarrow> None | Some i \<Rightarrow> if fs path = None then Some (fs(path \<mapsto> i)) else None)"

definition rename :: "bool \<Rightarrow> string \<Rightarrow> string \<Rightarrow> files \<Rightarrow> files option" where
  "rename works src dst fs =
     (case fs src of None \<Rightarrow> None | Some i \<Rightarrow> if works then Some ((fs(src := None))(dst \<mapsto> i)) else None)"

definition remove_file :: "bool \<Rightarrow> string \<Rightarrow> files \<Rightarrow> files" where
  "remove_file works path fs = (if works then fs(path := None) else fs)"

definition symlink_metadata :: "files \<Rightarrow> string \<Rightarrow> ident option" where
  "symlink_metadata fs path = fs path"

section \<open>Binding and removing\<close>

definition tmp_path :: "string \<Rightarrow> u32 \<Rightarrow> u64 \<Rightarrow> string" where
  "tmp_path path pid sq = path @ ''.'' @ to_string (unat pid) @ ''.'' @ to_string (unat sq) @ ''.tmp''"

text \<open>What the kernel answers while a server binds.\<close>

record bind_env =
  new_ident :: "ident option"
  stat_works :: bool
  rename_works :: bool
  cleanup_works :: bool

datatype bind_error = BindError string | RenameError string

text \<open>The identity bound or the error, the files, and the sequence number for the next bind.\<close>

definition bind_unix_listener ::
  "bind_env \<Rightarrow> u32 \<Rightarrow> string \<Rightarrow> files \<Rightarrow> u64 \<Rightarrow> (bind_error + ident option) \<times> files \<times> u64" where
  "bind_unix_listener env pid path fs SOCKET_TMP_SEQ =
     (let tmp = tmp_path path pid SOCKET_TMP_SEQ; next_seq = SOCKET_TMP_SEQ + 1 in
      case unix_bind (new_ident env) tmp fs of
        None \<Rightarrow> (Inl (BindError tmp), fs, next_seq)
      | Some fs1 \<Rightarrow>
          let bound = (if stat_works env then symlink_metadata fs1 tmp else None) in
          case rename (rename_works env) tmp path fs1 of
            None \<Rightarrow> (Inl (RenameError path), remove_file (cleanup_works env) tmp fs1, next_seq)
          | Some fs2 \<Rightarrow> (Inr bound, fs2, next_seq))"

definition remove_socket_file :: "bool \<Rightarrow> string option \<Rightarrow> ident option \<Rightarrow> files \<Rightarrow> files" where
  "remove_socket_file works path bound fs =
     (case (path, bound) of
        (Some p, Some i) \<Rightarrow>
          (case symlink_metadata fs p of
             Some meta \<Rightarrow> if meta = i then remove_file works p fs else fs
           | None \<Rightarrow> fs)
      | _ \<Rightarrow> fs)"

section \<open>What they do to the files\<close>

lemma tmp_path_other: "tmp_path path pid sq \<noteq> path"
  by (simp add: tmp_path_def)

lemma bind_success:
  assumes "new_ident env = Some i" and "stat_works env" and "rename_works env" and "fs (tmp_path path pid sq) = None"
  shows "bind_unix_listener env pid path fs sq = (Inr (Some i), fs(path \<mapsto> i), sq + 1)"
  using assms tmp_path_other [of path pid sq]
  by (auto simp: bind_unix_listener_def unix_bind_def rename_def symlink_metadata_def fun_upd_def Let_def)

lemma bind_failure:
  assumes "bind_unix_listener env pid path fs sq = (Inl e, fs', sq')" and "cleanup_works env"
  shows "fs' = fs"
  using assms
  by (auto simp: bind_unix_listener_def unix_bind_def rename_def remove_file_def Let_def fun_upd_idem_iff
      split: option.splits if_splits)

lemma bind_fails:
  assumes "\<not> (rename_works env \<and> new_ident env \<noteq> None)"
  shows "\<exists>e fs' sq'. bind_unix_listener env pid path fs sq = (Inl e, fs', sq')"
  using assms by (cases "new_ident env")
    (auto simp: bind_unix_listener_def unix_bind_def rename_def Let_def split: option.splits)

lemma bind_other:
  assumes "bind_unix_listener env pid path fs sq = (r, fs', sq')" and "p \<noteq> path" and "p \<noteq> tmp_path path pid sq"
  shows "fs' p = fs p"
  using assms
  by (auto simp: bind_unix_listener_def unix_bind_def rename_def remove_file_def Let_def
      split: option.splits if_splits)

lemma remove_other: "p \<noteq> path \<or> bound \<noteq> fs p \<Longrightarrow> remove_socket_file works (Some path) bound fs p = fs p"
  by (auto simp: remove_socket_file_def symlink_metadata_def remove_file_def split: option.splits)

lemma remove_own: "fs path = Some i \<Longrightarrow> remove_socket_file True (Some path) (Some i) fs = fs(path := None)"
  by (simp add: remove_socket_file_def symlink_metadata_def remove_file_def)

section \<open>Servers that take over a path\<close>

text \<open>
  Servers of one process come and go on a path. A generation that starts binds the path,
  whatever is there; one that stops removes the file if it is its own.
\<close>

datatype generation = Begin nat bind_env | Cease nat

record takeover =
  tk_files :: files
  tk_seq :: u64
  tk_idents :: "nat \<rightharpoonup> ident"

fun generation_step :: "u32 \<Rightarrow> string \<Rightarrow> generation \<Rightarrow> takeover \<Rightarrow> takeover" where
  "generation_step pid path (Begin g env) w =
     (case bind_unix_listener env pid path (tk_files w) (tk_seq w) of
        (Inr bound, fs, sq) \<Rightarrow> w\<lparr>tk_files := fs, tk_seq := sq, tk_idents := (tk_idents w)(g := bound)\<rparr>
      | (Inl _, fs, sq) \<Rightarrow> w\<lparr>tk_files := fs, tk_seq := sq\<rparr>)"
| "generation_step pid path (Cease g) w =
     w\<lparr>tk_files := remove_socket_file True (Some path) (tk_idents w g) (tk_files w),
       tk_idents := (tk_idents w)(g := None)\<rparr>"

text \<open>Who holds the path: the last generation to have started, until it stops.\<close>

fun holder_step :: "generation \<Rightarrow> nat option \<Rightarrow> nat option" where
  "holder_step (Begin g env) h = (if rename_works env \<and> new_ident env \<noteq> None then Some g else h)"
| "holder_step (Cease g) h = (if h = Some g then None else h)"

text \<open>
  What is assumed of the kernel and the callers: no failure to read or remove a file, no file
  in the way of a temporary path, a generation starts once, and a new socket has an identity that
  no server still running has.
\<close>

fun generation_fits :: "u32 \<Rightarrow> string \<Rightarrow> generation \<Rightarrow> takeover \<Rightarrow> bool" where
  "generation_fits pid path (Begin g env) w \<longleftrightarrow>
     stat_works env \<and> cleanup_works env \<and> tk_files w (tmp_path path pid (tk_seq w)) = None
     \<and> tk_idents w g = None \<and> (\<forall>i. new_ident env = Some i \<longrightarrow> i \<notin> ran (tk_idents w))"
| "generation_fits pid path (Cease g) w \<longleftrightarrow> True"

fun generations :: "u32 \<Rightarrow> string \<Rightarrow> generation list \<Rightarrow> takeover \<Rightarrow> nat option \<Rightarrow> (takeover \<times> nat option) option" where
  "generations pid path [] w h = Some (w, h)"
| "generations pid path (e # es) w h =
     (if generation_fits pid path e w
      then generations pid path es (generation_step pid path e w) (holder_step e h) else None)"

text \<open>The path leads to the holder's socket, and nowhere when no generation holds it.\<close>

definition takeover_ok :: "string \<Rightarrow> takeover \<times> nat option \<Rightarrow> bool" where
  "takeover_ok path = (\<lambda>(w, h).
     inj_on (tk_idents w) (dom (tk_idents w))
     \<and> (case h of
          Some g \<Rightarrow> tk_idents w g \<noteq> None \<and> tk_files w path = tk_idents w g
        | None \<Rightarrow> tk_files w path = None))"

lemma takeover_step:
  assumes "takeover_ok path (w, h)" and "generation_fits pid path e w"
  shows "takeover_ok path (generation_step pid path e w, holder_step e h)"
proof (cases e)
  case (Begin g env)
  show ?thesis
  proof (cases "rename_works env \<and> new_ident env \<noteq> None")
    case True
    then obtain i where i: "new_ident env = Some i"
      by blast
    then have "bind_unix_listener env pid path (tk_files w) (tk_seq w) = (Inr (Some i), (tk_files w)(path \<mapsto> i), tk_seq w + 1)"
      using True assms(2) Begin by (intro bind_success) simp_all
    moreover have "i \<notin> ran (tk_idents w)" "tk_idents w g = None"
      using assms(2) Begin i by simp_all
    ultimately show ?thesis
      using assms(1) Begin True
      by (auto simp: takeover_ok_def inj_on_def ran_def dom_def)
  next
    case False
    then obtain e' fs sq where b: "bind_unix_listener env pid path (tk_files w) (tk_seq w) = (Inl e', fs, sq)"
      using bind_fails by blast
    with bind_failure [OF b] assms Begin False show ?thesis
      by (auto simp: takeover_ok_def split: option.splits)
  qed
next
  case (Cease g)
  show ?thesis
  proof (cases "h = Some g")
    case True
    then obtain i where "tk_idents w g = Some i" "tk_files w path = Some i"
      using assms(1) by (auto simp: takeover_ok_def)
    with assms(1) True Cease show ?thesis
      by (auto simp: takeover_ok_def remove_own inj_on_def)
  next
    case False
    have "tk_files w path \<noteq> Some i" if "tk_idents w g = Some i" for i
    proof (cases h)
      case (Some g')
      with assms(1) have "inj_on (tk_idents w) (dom (tk_idents w))" "tk_idents w g' \<noteq> None"
          "tk_files w path = tk_idents w g'"
        by (simp_all add: takeover_ok_def)
      with that False Some show ?thesis
        by (auto dest!: inj_onD [of "tk_idents w" _ g g'])
    qed (use assms(1) in \<open>simp add: takeover_ok_def\<close>)
    then have "remove_socket_file True (Some path) (tk_idents w g) (tk_files w) path = tk_files w path"
      by (auto simp: remove_socket_file_def symlink_metadata_def split: option.splits)
    with assms(1) False Cease show ?thesis
      by (cases h) (auto simp: takeover_ok_def inj_on_def)
  qed
qed

lemma takeover_generations:
  "generations pid path es w h = Some r \<Longrightarrow> takeover_ok path (w, h) \<Longrightarrow> takeover_ok path r"
  by (induction es arbitrary: w h) (auto split: if_splits intro: takeover_step)

text \<open>
  C16. A replacement server takes over a socket path without a gap. Whatever generations
  start on the path and stop, in whatever order and with failed binds and renames in between: the
  path leads to the socket of the last generation that started until that one stops, no
  older generation that stops later removes it, and when the last one has stopped no file is left.
\<close>

theorem socket_takeover:
  assumes "generations pid path es \<lparr>tk_files = fs, tk_seq = sq, tk_idents = Map.empty\<rparr> None = Some (w, h)"
    and "fs path = None"
  shows "tk_files w path = (case h of Some g \<Rightarrow> tk_idents w g | None \<Rightarrow> None)
    \<and> (\<forall>g. h = Some g \<longrightarrow> tk_idents w g \<noteq> None)"
proof -
  have "takeover_ok path (\<lparr>tk_files = fs, tk_seq = sq, tk_idents = Map.empty\<rparr>, None)"
    using assms(2) by (simp add: takeover_ok_def)
  from takeover_generations [OF assms(1) this] show ?thesis
    by (auto simp: takeover_ok_def split: option.splits)
qed

definition sample_bind :: "u64 \<Rightarrow> bind_env" where
  "sample_bind ino = \<lparr>new_ident = Some (8, ino), stat_works = True, rename_works = True, cleanup_works = True\<rparr>"

lemma sample_generations:
  "\<exists>w. generations 7 ''/s'' [Begin 1 (sample_bind 10), Begin 2 (sample_bind 11), Cease 1]
     \<lparr>tk_files = Map.empty, tk_seq = 0, tk_idents = Map.empty\<rparr> None = Some (w, Some 2) \<and> tk_idents w 2 = Some (8, 11)"
  by (simp add: sample_bind_def bind_unix_listener_def unix_bind_def rename_def symlink_metadata_def
      remove_socket_file_def tmp_path_def Let_def ran_def)

theorem socket_takeover_witness:
  "\<exists>w. generations 7 ''/s'' [Begin 1 (sample_bind 10), Begin 2 (sample_bind 11), Cease 1]
     \<lparr>tk_files = Map.empty, tk_seq = 0, tk_idents = Map.empty\<rparr> None = Some (w, Some 2)
    \<and> tk_files w ''/s'' = Some (8, 11)"
proof -
  obtain w where w: "generations 7 ''/s'' [Begin 1 (sample_bind 10), Begin 2 (sample_bind 11), Cease 1]
     \<lparr>tk_files = Map.empty, tk_seq = 0, tk_idents = Map.empty\<rparr> None = Some (w, Some 2)" "tk_idents w 2 = Some (8, 11)"
    using sample_generations by blast
  with socket_takeover [OF w(1)] show ?thesis
    by simp
qed

end
