(* ===== verification/Server.thy ===== *)
theory Server
  imports System Sockets
begin

text \<open>
  A server as a whole (\<open>lib.rs\<close>, and the start of the listeners in \<open>syslog.rs\<close>):
  \<open>Server::new\<close>, \<open>start\<close>, \<open>stop\<close> and the small methods, \<open>syslog::start\<close> with
  \<open>start_listeners\<close>, and the \<open>SyslogRuntime\<close>.

  Handles, channels and the runtime are present or not; a channel is its capacity. \<open>spawned\<close> are the
  tasks put on the server's runtime; they end with it. What the kernel and tokio answer is an
  argument. What the tasks do once spawned is the subject of the theories System and Http_Handler.
\<close>

section \<open>The sockets of the syslog listeners\<close>

datatype socket_call =
    New_Stream | New_Dgram | Set_Reuse_Address | Set_Reuse_Port | Set_Recv_Buffer_Size nat
  | Set_Nonblocking | Bind_To SocketAddr | Listen_Backlog nat | From_Std

text \<open>Calls with \<open>?\<close> after each: the first error, or all done.\<close>

fun socket_calls :: "(socket_call \<Rightarrow> string option) \<Rightarrow> socket_call list \<Rightarrow> string + unit" where
  "socket_calls fails [] = Inr ()"
| "socket_calls fails (c # cs) = (case fails c of Some e \<Rightarrow> Inl e | None \<Rightarrow> socket_calls fails cs)"

definition bind_std_tcp :: "(socket_call \<Rightarrow> string option) \<Rightarrow> SocketAddr \<Rightarrow> string + unit" where
  "bind_std_tcp fails address =
     socket_calls fails [New_Stream, Set_Reuse_Address, Set_Nonblocking, Bind_To address, Listen_Backlog 1024]"

definition bind_std_udp :: "(socket_call \<Rightarrow> string option) \<Rightarrow> SocketAddr \<Rightarrow> SyslogConfig \<Rightarrow> string + unit" where
  "bind_std_udp fails address config =
     socket_calls fails
       ([New_Dgram, Set_Reuse_Address, Set_Reuse_Port]
        @ (case udp_so_rcvbuf config of Some n \<Rightarrow> [Set_Recv_Buffer_Size n] | None \<Rightarrow> [])
        @ [Set_Nonblocking, Bind_To address])"

section \<open>Starting the syslog listeners\<close>

datatype server_task = Http_Task | Unix_Task string | Tcp_Task SocketAddr | Udp_Task SocketAddr

record start_env =
  stream_fails :: "socket_call \<Rightarrow> string option"
  udp_fails :: "socket_call \<Rightarrow> string option"
  syslog_bind :: bind_env
  start_cleanup :: bool
  os_error :: string

record SyslogRuntime =
  token_cancelled :: bool
  listening :: bool
  sr_socket_path :: "string option"
  sr_socket_ident :: "ident option"

definition start_tcp :: "start_env \<Rightarrow> SyslogConfig \<Rightarrow> string + server_task list" where
  "start_tcp env config =
     (case stream_bind config of
        None \<Rightarrow> Inr []
      | Some a \<Rightarrow>
          (case SocketAddr_parse a of
             Inl e \<Rightarrow> Inl e
           | Inr address \<Rightarrow>
               (case bind_std_tcp (stream_fails env) address of
                  Inl e \<Rightarrow> Inl e
                | Inr _ \<Rightarrow> (case stream_fails env From_Std of Some e \<Rightarrow> Inl e | None \<Rightarrow> Inr [Tcp_Task address]))))"

definition start_udp :: "start_env \<Rightarrow> SyslogConfig \<Rightarrow> string + server_task list" where
  "start_udp env config =
     (case udp_bind config of
        None \<Rightarrow> Inr []
      | Some a \<Rightarrow>
          (case SocketAddr_parse a of
             Inl e \<Rightarrow> Inl e
           | Inr address \<Rightarrow>
               (case bind_std_udp (udp_fails env) address config of
                  Inl e \<Rightarrow> Inl e
                | Inr _ \<Rightarrow> (case udp_fails env From_Std of Some e \<Rightarrow> Inl e | None \<Rightarrow> Inr [Udp_Task address]))))"

text \<open>The result, the tasks spawned, the socket file bound, the files, and the sequence number.\<close>

definition start_listeners ::
  "start_env \<Rightarrow> u32 \<Rightarrow> SyslogConfig \<Rightarrow> files \<Rightarrow> u64
   \<Rightarrow> (string + SyslogRuntime) \<times> server_task list \<times> (string option \<times> ident option) \<times> files \<times> u64" where
  "start_listeners env pid config fs sq =
     (let others = (\<lambda>tasks socket fs' sq'.
        case start_tcp env config of
          Inl e \<Rightarrow> (Inl e, tasks, socket, fs', sq')
        | Inr tcp \<Rightarrow>
            (case start_udp env config of
               Inl e \<Rightarrow> (Inl e, tasks @ tcp, socket, fs', sq')
             | Inr udp \<Rightarrow>
                 (Inr \<lparr>token_cancelled = False, listening = True, sr_socket_path = fst socket,
                       sr_socket_ident = snd socket\<rparr>, tasks @ tcp @ udp, socket, fs', sq')))
      in case stream_path config of
           None \<Rightarrow> others [] (None, None) fs sq
         | Some path \<Rightarrow>
             (case bind_unix_listener (syslog_bind env) pid path fs sq of
                (Inl _, fs', sq') \<Rightarrow> (Inl (os_error env), [], (None, None), fs', sq')
              | (Inr bound, fs', sq') \<Rightarrow> others [Unix_Task path] (Some path, bound) fs' sq'))"

definition syslog_start ::
  "start_env \<Rightarrow> u32 \<Rightarrow> SyslogConfig \<Rightarrow> files \<Rightarrow> u64
   \<Rightarrow> (string + SyslogRuntime) \<times> server_task list \<times> files \<times> u64" where
  "syslog_start env pid config fs sq =
     (case start_listeners env pid config fs sq of
        (Inl e, tasks, socket, fs', sq') \<Rightarrow>
          (Inl e, tasks, remove_socket_file (start_cleanup env) (fst socket) (snd socket) fs', sq')
      | (Inr r, tasks, socket, fs', sq') \<Rightarrow> (Inr r, tasks, fs', sq'))"

section \<open>The runtime of the listeners\<close>

definition stop_accepting :: "SyslogRuntime \<Rightarrow> SyslogRuntime" where
  "stop_accepting self = self\<lparr>listening := False, token_cancelled := True\<rparr>"

text \<open>\<open>drain\<close>: what the counters are when the wait ends, by itself or by the timeout.\<close>

definition drain_runtime :: "bool \<Rightarrow> SyslogCounters \<Rightarrow> SyslogRuntime \<Rightarrow> SyslogRuntime \<times> SyslogCounters" where
  "drain_runtime timed_out c self = (stop_accepting self, if timed_out then drain_timeout c else c)"

definition runtime_remove_socket_file :: "bool \<Rightarrow> SyslogRuntime \<Rightarrow> files \<Rightarrow> files" where
  "runtime_remove_socket_file works self fs =
     remove_socket_file works (sr_socket_path self) (sr_socket_ident self) fs"

section \<open>The server\<close>

record Server =
  server_handle :: bool
  server_config :: ServerConfig
  work_rx :: "nat option"
  work_tx :: "nat option"
  server_runtime :: bool
  server_shutdown :: bool
  total_connections :: u64
  socket_ident :: "ident option"
  syslog_work_rx :: "nat option"
  syslog_work_tx :: "nat option"
  syslog_counters :: SyslogCounters
  syslog_runtime :: "SyslogRuntime option"
  spawned :: "server_task list"

definition Server_new :: Server where
  "Server_new =
     \<lparr>server_handle = False, server_config = ServerConfig_new, work_rx = None, work_tx = None,
      server_runtime = False, server_shutdown = False, total_connections = 0, socket_ident = None,
      syslog_work_rx = None, syslog_work_tx = None, syslog_counters = SyslogCounters_default,
      syslog_runtime = None, spawned = []\<rparr>"

text \<open>Files and the two counters of temporary names, of \<open>lib.rs\<close> and of \<open>syslog.rs\<close>.\<close>

record world =
  world_files :: files
  http_seq :: u64
  syslog_seq :: u64

datatype start_result = Started | Raised_Error string | Panicked_Start

record server_env =
  build_error :: "string option"
  http_bind :: bind_env
  http_listen :: "SocketAddr \<Rightarrow> string option"
  syslog_env :: start_env

text \<open>The channels and the shutdown signal are replaced before anything can fail.\<close>

definition start_channels :: "Server \<Rightarrow> Server" where
  "start_channels self =
     (let capacity = Some (channel_capacity (server_config self)) in
      self\<lparr>work_rx := capacity, work_tx := capacity, syslog_work_rx := capacity, syslog_work_tx := capacity,
           server_shutdown := True\<rparr>)"

definition start_http :: "server_env \<Rightarrow> u32 \<Rightarrow> Server \<Rightarrow> world \<Rightarrow> string option \<times> Server \<times> world" where
  "start_http env pid self w =
     (let address = bind_address (server_config self); e = os_error (syslog_env env) in
      if starts_with address ''unix:'' then
        let path = trim_start_matches address ''unix:'' in
        case bind_unix_listener (http_bind env) pid path (world_files w) (http_seq w) of
          (Inl (BindError tmp), fs, sq) \<Rightarrow>
            (Some (''Failed to bind to Unix socket '' @ tmp @ '': '' @ e), self, w\<lparr>world_files := fs, http_seq := sq\<rparr>)
        | (Inl (RenameError p), fs, sq) \<Rightarrow>
            (Some (''Failed to install Unix socket file '' @ p @ '': '' @ e), self, w\<lparr>world_files := fs, http_seq := sq\<rparr>)
        | (Inr bound, fs, sq) \<Rightarrow>
            (None, self\<lparr>socket_ident := bound, spawned := [Http_Task]\<rparr>, w\<lparr>world_files := fs, http_seq := sq\<rparr>)
      else
        case SocketAddr_parse address of
          Inl err \<Rightarrow> (Some (''Invalid address format '' @ address @ '': '' @ err), self, w)
        | Inr addr \<Rightarrow>
            (case http_listen env addr of
               Some err \<Rightarrow> (Some (''Failed to bind to address '' @ SocketAddr_to_string addr @ '': '' @ err), self, w)
             | None \<Rightarrow> (None, self\<lparr>spawned := [Http_Task]\<rparr>, w)))"

definition start_syslog :: "server_env \<Rightarrow> u32 \<Rightarrow> Server \<Rightarrow> world \<Rightarrow> string option \<times> Server \<times> world" where
  "start_syslog env pid self w =
     (if enabled (syslog (server_config self)) then
        case syslog_start (syslog_env env) pid (syslog (server_config self)) (world_files w) (syslog_seq w) of
          (Inr r, tasks, fs, sq) \<Rightarrow>
            (None, self\<lparr>syslog_runtime := Some r, spawned := spawned self @ tasks\<rparr>, w\<lparr>world_files := fs, syslog_seq := sq\<rparr>)
        | (Inl e, tasks, fs, sq) \<Rightarrow>
            (Some (''Failed to start syslog listeners: '' @ e), self\<lparr>spawned := spawned self @ tasks\<rparr>,
             w\<lparr>world_files := fs, syslog_seq := sq\<rparr>)
      else (None, self, w))"

text \<open>\<open>worker_threads(0)\<close> panics; storing the new runtime drops an old one, with its tasks.\<close>

definition Server_start :: "server_env \<Rightarrow> u32 \<Rightarrow> Server \<Rightarrow> world \<Rightarrow> start_result \<times> Server \<times> world" where
  "Server_start env pid self0 w0 =
     (let self = start_channels self0 in
      if tokio_threads (server_config self) = Some 0 then (Panicked_Start, self, w0)
      else case build_error env of
        Some e \<Rightarrow> (Raised_Error e, self, w0)
      | None \<Rightarrow>
          (case start_http env pid (self\<lparr>server_runtime := True, spawned := []\<rparr>) w0 of
             (Some e, self1, w1) \<Rightarrow> (Raised_Error e, self1, w1)
           | (None, self1, w1) \<Rightarrow>
               (case start_syslog env pid self1 w1 of
                  (Some e, self2, w2) \<Rightarrow> (Raised_Error e, self2, w2)
                | (None, self2, w2) \<Rightarrow> (Started, self2\<lparr>server_handle := True\<rparr>, w2))))"

definition syslog_listening :: "Server \<Rightarrow> bool" where
  "syslog_listening self = (case syslog_runtime self of Some r \<Rightarrow> listening r | None \<Rightarrow> False)"

definition syslog_stats :: "Server \<Rightarrow> (string \<times> stat) list" where
  "syslog_stats self = to_hash (syslog_counters self)"

text \<open>How the drain went, what the counters were then, and whether files could be removed.\<close>

record stop_env =
  drain_timed_out :: bool
  drained_counters :: SyslogCounters
  remove_works :: bool

definition remove_http_socket :: "bool \<Rightarrow> Server \<Rightarrow> files \<Rightarrow> Server \<times> files" where
  "remove_http_socket works self fs =
     (let address = bind_address (server_config self) in
      if starts_with address ''unix:'' then
        let path = trim_start_matches address ''unix:'' in
        (self\<lparr>socket_ident := None\<rparr>,
         case (socket_ident self, symlink_metadata fs path) of
           (Some own, Some meta) \<Rightarrow> if meta = own then remove_file works path fs else fs
         | _ \<Rightarrow> fs)
      else (self, fs))"

definition Server_stop :: "stop_env \<Rightarrow> Server \<Rightarrow> files \<Rightarrow> Server \<times> files" where
  "Server_stop env self fs =
     (let taken = syslog_runtime self;
          c = (case taken of
                 Some r \<Rightarrow>
                   if server_runtime self then snd (drain_runtime (drain_timed_out env) (drained_counters env) (stop_accepting r))
                   else syslog_counters self
               | None \<Rightarrow> syslog_counters self);
          fs' = (case taken of Some r \<Rightarrow> runtime_remove_socket_file (remove_works env) r fs | None \<Rightarrow> fs);
          self' = self\<lparr>syslog_runtime := None, syslog_counters := c,
                       server_handle := server_handle self \<and> \<not> server_runtime self,
                       work_tx := None, syslog_work_tx := None, server_runtime := False, server_shutdown := False,
                       spawned := (if server_runtime self then [] else spawned self)\<rparr>
      in remove_http_socket (remove_works env) self' fs')"

section \<open>Files and tasks of a server\<close>

definition http_paths :: "ServerConfig \<Rightarrow> string list" where
  "http_paths config =
     (if starts_with (bind_address config) ''unix:'' then [trim_start_matches (bind_address config) ''unix:''] else [])"

definition syslog_paths :: "ServerConfig \<Rightarrow> string list" where
  "syslog_paths config = (case stream_path (syslog config) of Some p \<Rightarrow> [p] | None \<Rightarrow> [])"

definition stopped :: "Server \<Rightarrow> bool" where
  "stopped self \<longleftrightarrow>
     syslog_runtime self = None \<and> \<not> server_runtime self \<and> \<not> server_handle self \<and> \<not> server_shutdown self
     \<and> work_tx self = None \<and> syslog_work_tx self = None \<and> spawned self = []"

lemma bind_inr:
  assumes "bind_unix_listener env pid path fs sq = (Inr bound, fs', sq')" and "stat_works env"
  obtains i where "bound = Some i" "fs' = fs(path \<mapsto> i)"
  using assms tmp_path_other [of path pid sq] that
  by (auto simp: bind_unix_listener_def unix_bind_def rename_def symlink_metadata_def Let_def fun_upd_idem
      split: option.splits if_splits)

lemma start_http_post:
  assumes "start_http env pid self w = (None, self1, w1)" and "stat_works (http_bind env)" and "spawned self = []"
  obtains i where "self1 = self\<lparr>socket_ident := (if http_paths (server_config self) = [] then socket_ident self else Some i),
      spawned := [Http_Task]\<rparr>"
    "world_files w1 = (\<lambda>p. if p \<in> set (http_paths (server_config self)) then Some i else world_files w p)"
    "syslog_seq w1 = syslog_seq w"
proof (cases "starts_with (bind_address (server_config self)) ''unix:''")
  case True
  let ?path = "trim_start_matches (bind_address (server_config self)) ''unix:''"
  from assms(1) True obtain bound fs sq where
      b: "bind_unix_listener (http_bind env) pid ?path (world_files w) (http_seq w) = (Inr bound, fs, sq)"
      "self1 = self\<lparr>socket_ident := bound, spawned := [Http_Task]\<rparr>" "w1 = w\<lparr>world_files := fs, http_seq := sq\<rparr>"
    by (auto simp: start_http_def Let_def split: prod.splits sum.splits bind_error.splits)
  obtain i where "bound = Some i" "fs = (world_files w)(?path \<mapsto> i)"
    using bind_inr [OF b(1) assms(2)] .
  with b(2,3) True show ?thesis
    by (intro that [of i]) (auto simp: http_paths_def)
next
  case False
  with assms show ?thesis
    by (intro that) (auto simp: start_http_def http_paths_def Let_def split: sum.splits option.splits)
qed

lemma start_listeners_post:
  assumes "start_listeners env pid config fs sq = (Inr r, tasks, socket, fs', sq')" and "stat_works (syslog_bind env)"
  obtains i where "listening r" "sr_socket_path r = stream_path config"
    "sr_socket_ident r = (if stream_path config = None then None else Some i)"
    "fs' = (\<lambda>p. if stream_path config = Some p then Some i else fs p)"
proof (cases "stream_path config")
  case None
  with assms(1) show ?thesis
    by (intro that) (auto simp: start_listeners_def Let_def split: sum.splits)
next
  case (Some path)
  with assms(1) obtain bound fs1 sq1 where
      b: "bind_unix_listener (syslog_bind env) pid path fs sq = (Inr bound, fs1, sq1)"
      "listening r" "sr_socket_path r = Some path" "sr_socket_ident r = bound" "fs' = fs1"
    by (auto simp: start_listeners_def Let_def split: sum.splits prod.splits)
  obtain i where "bound = Some i" "fs1 = fs(path \<mapsto> i)"
    using bind_inr [OF b(1) assms(2)] .
  with b Some show ?thesis
    by (intro that [of i]) auto
qed

lemma start_syslog_post:
  assumes "start_syslog env pid self w = (None, self1, w1)" and "stat_works (syslog_bind (syslog_env env))"
    and "syslog_runtime self = None"
  obtains i where "server_config self1 = server_config self" "socket_ident self1 = socket_ident self"
    "syslog_listening self1 = enabled (syslog (server_config self))"
    "\<forall>r. syslog_runtime self1 = Some r \<longrightarrow> sr_socket_path r = stream_path (syslog (server_config self))
        \<and> sr_socket_ident r = (if stream_path (syslog (server_config self)) = None then None else Some i)"
    "syslog_runtime self1 = None \<longrightarrow> syslog_paths (server_config self) = []"
    "world_files w1 = (\<lambda>p. if p \<in> set (syslog_paths (server_config self)) then Some i else world_files w p)"
    "set (spawned self) \<subseteq> set (spawned self1)" "server_runtime self1 = server_runtime self"
proof (cases "enabled (syslog (server_config self))")
  case True
  let ?config = "syslog (server_config self)"
  from assms(1) True obtain r tasks socket fs sq where
      l: "start_listeners (syslog_env env) pid ?config (world_files w) (syslog_seq w) = (Inr r, tasks, socket, fs, sq)"
      "self1 = self\<lparr>syslog_runtime := Some r, spawned := spawned self @ tasks\<rparr>" "w1 = w\<lparr>world_files := fs, syslog_seq := sq\<rparr>"
    by (auto simp: start_syslog_def syslog_start_def split: prod.splits sum.splits)
  from start_listeners_post [OF l(1) assms(2)] obtain i where "listening r" "sr_socket_path r = stream_path ?config"
      "sr_socket_ident r = (if stream_path ?config = None then None else Some i)"
      "fs = (\<lambda>p. if stream_path ?config = Some p then Some i else world_files w p)" .
  with l(2,3) True show ?thesis
    by (intro that [of i]) (auto simp: syslog_listening_def syslog_paths_def split: option.splits)
next
  case False
  with assms show ?thesis
    by (intro that) (auto simp: start_syslog_def enabled_def syslog_listening_def syslog_paths_def)
qed

text \<open>The handle of the server task is stored just when \<open>start\<close> succeeds.\<close>

lemma start_handle:
  assumes "Server_start env pid self w = (res, self1, w1)" and "stopped self"
  shows "server_handle self1 \<longleftrightarrow> res = Started"
proof -
  have http: "server_handle self' = server_handle s0" if "start_http env pid s0 w0 = (r, self', w')" for s0 w0 r self' w'
    using that by (auto simp: start_http_def Let_def split: if_splits sum.splits bind_error.splits option.splits prod.splits)
  have syslog: "server_handle self' = server_handle s0" if "start_syslog env pid s0 w0 = (r, self', w')" for s0 w0 r self' w'
    using that by (auto simp: start_syslog_def split: if_splits sum.splits prod.splits)
  have "\<not> server_handle ((start_channels self)\<lparr>server_runtime := True, spawned := []\<rparr>)" "\<not> server_handle (start_channels self)"
    using assms(2) by (simp_all add: start_channels_def stopped_def Let_def)
  with assms(1) show ?thesis
    by (auto simp: Server_start_def Let_def split: if_splits option.splits prod.splits dest!: http syslog)
qed

section \<open>Properties of a server\<close>

text \<open>
  C18. Starting a server and stopping it again leaves the file system as it was: the only paths
  that change are its own, where no file is left, even when both listeners are given the same
  path. In between the HTTP task runs and \<open>syslog_listening\<close> is true exactly when a syslog
  listener is configured; afterwards no task, channel sender or runtime is left.
\<close>

theorem server_start_stop:
  assumes "Server_start env pid self w = (Started, self1, w1)" and "stopped self"
    and "stat_works (http_bind env)" and "stat_works (syslog_bind (syslog_env env))"
    and "Server_stop env' self1 (world_files w1) = (self2, fs2)" and "remove_works env'"
  shows "fs2 p = (if p \<in> set (http_paths (server_config self) @ syslog_paths (server_config self)) then None
                  else world_files w p)
    \<and> Http_Task \<in> set (spawned self1) \<and> syslog_listening self1 = enabled (syslog (server_config self))
    \<and> stopped self2 \<and> \<not> syslog_listening self2"
proof -
  let ?self = "(start_channels self)\<lparr>server_runtime := True, spawned := []\<rparr>"
  from assms(1) obtain h wh s1 where h: "start_http env pid ?self w = (None, h, wh)"
      and s: "start_syslog env pid h wh = (None, s1, w1)" and self1: "self1 = s1\<lparr>server_handle := True\<rparr>"
    by (auto simp: Server_start_def Let_def split: if_splits option.splits prod.splits)
  have config: "server_config ?self = server_config self" "syslog_runtime ?self = None"
    using assms(2) by (simp_all add: start_channels_def stopped_def Let_def)
  obtain i where h0:
      "h = ?self\<lparr>socket_ident := (if http_paths (server_config ?self) = [] then socket_ident ?self else Some i),
        spawned := [Http_Task]\<rparr>"
      "world_files wh = (\<lambda>p. if p \<in> set (http_paths (server_config ?self)) then Some i else world_files w p)"
    by (rule start_http_post [OF h assms(3)]) simp
  note h' = h0 [unfolded config]
  have hs: "syslog_runtime h = None" "server_config h = server_config self" "server_runtime h"
    using h'(1) config by simp_all
  obtain j where s0: "server_config s1 = server_config h" "socket_ident s1 = socket_ident h"
      "syslog_listening s1 = enabled (syslog (server_config h))"
      "\<forall>r. syslog_runtime s1 = Some r \<longrightarrow> sr_socket_path r = stream_path (syslog (server_config h))
        \<and> sr_socket_ident r = (if stream_path (syslog (server_config h)) = None then None else Some j)"
      "syslog_runtime s1 = None \<longrightarrow> syslog_paths (server_config h) = []"
      "world_files w1 = (\<lambda>p. if p \<in> set (syslog_paths (server_config h)) then Some j else world_files wh p)"
      "set (spawned h) \<subseteq> set (spawned s1)" "server_runtime s1 = server_runtime h"
    by (rule start_syslog_post [OF s assms(4) hs(1)])
  note s' = s0 [unfolded hs(2)]
  have "fs2 p = (if p \<in> set (http_paths (server_config self) @ syslog_paths (server_config self)) then None
      else world_files w p)"
    using assms(5,6) s' h' self1
    by (auto simp: Server_stop_def remove_http_socket_def runtime_remove_socket_file_def remove_socket_file_def
        symlink_metadata_def remove_file_def http_paths_def syslog_paths_def Let_def
        split: option.splits if_splits)
  moreover have "stopped self2" "\<not> syslog_listening self2"
    using assms(5) s'(8) hs(3) self1
    by (auto simp: Server_stop_def remove_http_socket_def stopped_def syslog_listening_def Let_def split: if_splits)
  moreover have "Http_Task \<in> set (spawned self1)" "syslog_listening self1 = enabled (syslog (server_config self))"
    using s'(3,7) h'(1) self1 by (auto simp: syslog_listening_def)
  ultimately show ?thesis
    by simp
qed

definition sample_start_env :: start_env where
  "sample_start_env =
     \<lparr>stream_fails = (\<lambda>_. None),
      udp_fails = (\<lambda>c. if c = Set_Reuse_Port then Some ''Protocol not available'' else None),
      syslog_bind = sample_bind 21, start_cleanup = True, os_error = ''Address in use''\<rparr>"

definition sample_server_env :: server_env where
  "sample_server_env =
     \<lparr>build_error = None, http_bind = sample_bind 20, http_listen = (\<lambda>_. None), syslog_env = sample_start_env\<rparr>"

definition sample_server :: Server where
  "sample_server = Server_new\<lparr>server_config := ServerConfig_new\<lparr>bind_address := ''unix:/h'',
     syslog := SyslogConfig_new\<lparr>stream_path := Some ''/s''\<rparr>\<rparr>\<rparr>"

definition sample_world :: world where
  "sample_world = \<lparr>world_files = [''/etc'' \<mapsto> (8, 1)], http_seq = 0, syslog_seq = 0\<rparr>"

definition sample_stop_env :: stop_env where
  "sample_stop_env = \<lparr>drain_timed_out = False, drained_counters = SyslogCounters_default, remove_works = True\<rparr>"

lemma trim_unix_prefix: "\<not> starts_with path ''unix:'' \<Longrightarrow> trim_start_matches (''unix:'' @ path) ''unix:'' = path"
proof -
  assume "\<not> starts_with path ''unix:''"
  then have "trim_start_matches path ''unix:'' = path"
    by (subst trim_start_matches.simps) simp
  then show ?thesis
    by (subst trim_start_matches.simps) (simp add: starts_with_def)
qed

lemma sample_server_paths:
  "http_paths (server_config sample_server) = [''/h'']" "syslog_paths (server_config sample_server) = [''/s'']"
  "stopped sample_server"
  using trim_unix_prefix [of "''/h''"]
  by (simp_all add: sample_server_def Server_new_def ServerConfig_new_def SyslogConfig_new_def http_paths_def
      syslog_paths_def starts_with_def stopped_def)

lemma sample_server_starts: "\<exists>self1 w1. Server_start sample_server_env 7 sample_server sample_world = (Started, self1, w1)"
  using trim_unix_prefix [of "''/h''"]
  by (simp add: Server_start_def start_channels_def start_http_def start_syslog_def syslog_start_def start_listeners_def
      start_tcp_def start_udp_def enabled_def sample_server_def sample_server_env_def sample_start_env_def sample_bind_def
      sample_world_def Server_new_def ServerConfig_new_def SyslogConfig_new_def starts_with_def
      bind_unix_listener_def unix_bind_def rename_def symlink_metadata_def tmp_path_def Let_def)

theorem server_start_stop_witness:
  "\<exists>self1 w1 self2 fs2. Server_start sample_server_env 7 sample_server sample_world = (Started, self1, w1)
    \<and> Server_stop sample_stop_env self1 (world_files w1) = (self2, fs2)
    \<and> fs2 ''/s'' = None \<and> fs2 ''/etc'' = Some (8, 1) \<and> stopped self2"
proof -
  obtain self1 w1 where s: "Server_start sample_server_env 7 sample_server sample_world = (Started, self1, w1)"
    using sample_server_starts by blast
  obtain self2 fs2 where t: "Server_stop sample_stop_env self1 (world_files w1) = (self2, fs2)"
    by fastforce
  have env: "stat_works (http_bind sample_server_env)" "stat_works (syslog_bind (syslog_env sample_server_env))"
      "remove_works sample_stop_env"
    by (simp_all add: sample_server_env_def sample_start_env_def sample_bind_def sample_stop_env_def)
  note post = server_start_stop [OF s sample_server_paths(3) env(1,2) t env(3), unfolded sample_server_paths]
  from post [of "''/s''"] post [of "''/etc''"] have "fs2 ''/s'' = None \<and> fs2 ''/etc'' = Some (8, 1) \<and> stopped self2"
    by (simp add: sample_world_def)
  with s t show ?thesis
    by blast
qed

lemma remove_http_socket_files:
  "snd (remove_http_socket works self fs) p \<noteq> fs p \<Longrightarrow>
   p \<in> set (http_paths (server_config self)) \<and> fs p = socket_ident self"
  by (auto simp: remove_http_socket_def symlink_metadata_def remove_file_def http_paths_def Let_def
      split: option.splits if_splits)

lemma runtime_remove_files:
  "runtime_remove_socket_file works r fs p \<noteq> fs p \<Longrightarrow> sr_socket_path r = Some p \<and> fs p = sr_socket_ident r"
  by (auto simp: runtime_remove_socket_file_def remove_socket_file_def symlink_metadata_def remove_file_def
      split: option.splits if_splits)

lemma stop_files:
  assumes "snd (Server_stop env self fs) p \<noteq> fs p"
  shows "(p \<in> set (http_paths (server_config self)) \<and> fs p = socket_ident self)
    \<or> (\<exists>r. syslog_runtime self = Some r \<and> sr_socket_path r = Some p \<and> fs p = sr_socket_ident r)"
proof -
  let ?fs = "case syslog_runtime self of Some r \<Rightarrow> runtime_remove_socket_file (remove_works env) r fs | None \<Rightarrow> fs"
  have "\<exists>s0. Server_stop env self fs = remove_http_socket (remove_works env) s0 ?fs
      \<and> server_config s0 = server_config self \<and> socket_ident s0 = socket_ident self"
    unfolding Server_stop_def Let_def by (intro exI conjI, rule refl) simp_all
  then obtain s0 where stop: "Server_stop env self fs = remove_http_socket (remove_works env) s0 ?fs"
      "server_config s0 = server_config self" "socket_ident s0 = socket_ident self"
    by blast
  show ?thesis
  proof (cases "?fs p = fs p")
    case True
    with assms stop(1) have "snd (remove_http_socket (remove_works env) s0 ?fs) p \<noteq> ?fs p"
      by simp
    from remove_http_socket_files [OF this] True stop(2,3) show ?thesis
      by simp
  next
    case False
    then show ?thesis
      by (auto split: option.splits dest: runtime_remove_files)
  qed
qed

lemma stop_handles:
  "\<not> server_runtime (fst (Server_stop env self fs))" "syslog_runtime (fst (Server_stop env self fs)) = None"
  "work_tx (fst (Server_stop env self fs)) = None" "syslog_work_tx (fst (Server_stop env self fs)) = None"
  "server_runtime self \<Longrightarrow> spawned (fst (Server_stop env self fs)) = []"
  by (simp_all add: Server_stop_def remove_http_socket_def Let_def)

lemma stop_again:
  "Server_stop env' (fst (Server_stop env self fs)) fs' = (fst (Server_stop env self fs), fs')"
  by (simp add: Server_stop_def remove_http_socket_def Let_def)

text \<open>
  C19. \<open>stop\<close> never touches a file of another server: a path that changes was this server's
  and held the file it had bound. It can be called at any time, on a server that runs, that
  failed to start or that was never started: no runtime, task, channel sender or syslog listener is
  left, and a second call changes nothing, whatever files there are by then.
\<close>

theorem server_stop_own_files:
  assumes "Server_stop env self fs = (self', fs')"
  shows "(fs' p \<noteq> fs p \<longrightarrow>
        (p \<in> set (http_paths (server_config self)) \<and> fs p = socket_ident self)
        \<or> (\<exists>r. syslog_runtime self = Some r \<and> sr_socket_path r = Some p \<and> fs p = sr_socket_ident r))
    \<and> \<not> server_runtime self' \<and> syslog_runtime self' = None \<and> work_tx self' = None \<and> syslog_work_tx self' = None
    \<and> (server_runtime self \<longrightarrow> spawned self' = [])
    \<and> Server_stop env' self' fs'' = (self', fs'')"
proof (intro conjI)
  show "fs' p \<noteq> fs p \<longrightarrow>
        (p \<in> set (http_paths (server_config self)) \<and> fs p = socket_ident self)
        \<or> (\<exists>r. syslog_runtime self = Some r \<and> sr_socket_path r = Some p \<and> fs p = sr_socket_ident r)"
    using stop_files [of env self fs p] assms by simp
  show "\<not> server_runtime self'" "syslog_runtime self' = None" "work_tx self' = None" "syslog_work_tx self' = None"
      "server_runtime self \<longrightarrow> spawned self' = []"
    using assms stop_handles [where env = env and self = self and fs = fs] by simp_all
  show "Server_stop env' self' fs'' = (self', fs'')"
    using assms stop_again [of env' env self fs fs''] by simp
qed

theorem server_stop_own_files_witness:
  "\<exists>self' fs'. Server_stop sample_stop_env sample_server [''/h'' \<mapsto> (8, 99)] = (self', fs') \<and> \<not> server_runtime self'
    \<and> Server_stop sample_stop_env self' fs' = (self', fs')"
proof -
  obtain self' fs' where t: "Server_stop sample_stop_env sample_server [''/h'' \<mapsto> (8, 99)] = (self', fs')"
    by fastforce
  with server_stop_own_files [OF t] show ?thesis
    by blast
qed

text \<open>
  C35. When the UDP socket of the syslog listeners cannot be bound, \<open>start\<close> raises, but what came
  up before it keeps running: the HTTP server, the Unix stream listener whose socket file has
  been removed, and the TCP listener. None of them can be seen from the server, which has no
  handle and reports no syslog listener; only \<open>stop\<close> ends them.
\<close>

theorem syslog_start_failure:
  assumes "start_http env pid ((start_channels self)\<lparr>server_runtime := True, spawned := []\<rparr>) w = (None, self1, w1)"
    and "build_error env = None" and "tokio_threads (server_config self) \<noteq> Some 0" and "stopped self"
    and "stat_works (http_bind env)" and "stat_works (syslog_bind (syslog_env env))" and "start_cleanup (syslog_env env)"
    and "stream_path (syslog (server_config self)) = Some path"
    and "bind_unix_listener (syslog_bind (syslog_env env)) pid path (world_files w1) (syslog_seq w1) = (Inr bound, fs', sq')"
    and "start_tcp (syslog_env env) (syslog (server_config self)) = Inr tcp"
    and "start_udp (syslog_env env) (syslog (server_config self)) = Inl e"
  shows "\<exists>self2 w2. Server_start env pid self w = (Raised_Error (''Failed to start syslog listeners: '' @ e), self2, w2)
    \<and> spawned self2 = Http_Task # Unix_Task path # tcp \<and> world_files w2 path = None
    \<and> \<not> server_handle self2 \<and> \<not> syslog_listening self2
    \<and> spawned (fst (Server_stop env' self2 fs)) = []"
proof -
  let ?self = "(start_channels self)\<lparr>server_runtime := True, spawned := []\<rparr>"
  let ?tasks = "Unix_Task path # tcp"
  have config: "server_config ?self = server_config self"
    by (simp add: start_channels_def Let_def)
  obtain i where self1: "self1 = ?self\<lparr>socket_ident := (if http_paths (server_config ?self) = [] then socket_ident ?self else Some i),
      spawned := [Http_Task]\<rparr>"
    by (rule start_http_post [OF assms(1,5)]) simp
  obtain j where j: "bound = Some j" "fs' = (world_files w1)(path \<mapsto> j)"
    using bind_inr [OF assms(9,6)] .
  have "start_listeners (syslog_env env) pid (syslog (server_config self)) (world_files w1) (syslog_seq w1)
      = (Inl e, ?tasks, (Some path, bound), fs', sq')"
    using assms(8-11) by (simp add: start_listeners_def)
  then have start: "syslog_start (syslog_env env) pid (syslog (server_config self)) (world_files w1) (syslog_seq w1)
      = (Inl e, ?tasks, fs'(path := None), sq')"
    using j assms(7) by (simp add: syslog_start_def remove_own)
  have "enabled (syslog (server_config self))" "server_config self1 = server_config self"
    using assms(8) self1 config by (simp_all add: enabled_def)
  then have "start_syslog env pid self1 w1 = (Some (''Failed to start syslog listeners: '' @ e),
      self1\<lparr>spawned := Http_Task # ?tasks\<rparr>, w1\<lparr>world_files := fs'(path := None), syslog_seq := sq'\<rparr>)"
    using start self1 by (simp add: start_syslog_def)
  then have "Server_start env pid self w = (Raised_Error (''Failed to start syslog listeners: '' @ e),
      self1\<lparr>spawned := Http_Task # ?tasks\<rparr>, w1\<lparr>world_files := fs'(path := None), syslog_seq := sq'\<rparr>)"
    using assms(1-3) config by (simp add: Server_start_def Let_def)
  moreover have "\<not> server_handle self1" "syslog_runtime self1 = None" "server_runtime self1"
    using assms(4) self1 by (simp_all add: start_channels_def stopped_def Let_def)
  ultimately show ?thesis
    using stop_handles(5) [of "self1\<lparr>spawned := Http_Task # ?tasks\<rparr>" env' fs] by (simp add: syslog_listening_def)
qed

definition sample_failing :: Server where
  "sample_failing = sample_server\<lparr>server_config := (server_config sample_server)\<lparr>
     syslog := SyslogConfig_new\<lparr>stream_path := Some ''/s'', udp_bind := Some ''127.0.0.1:514''\<rparr>\<rparr>\<rparr>"

lemma sample_address: "SocketAddr_parse ''127.0.0.1:514'' = Inr (SocketAddrV4 [127, 0, 0, 1] 514)"
proof -
  have "SocketAddr_to_string (SocketAddrV4 [127, 0, 0, 1] 514) = ''127.0.0.1:514''"
    by (simp add: to_string_radix radix_text.simps digit_char_def) code_simp
  then show ?thesis
    using SocketAddr_parse_to_string [of "SocketAddrV4 [127, 0, 0, 1] 514"] by simp
qed

lemma sample_failing_http:
  "\<exists>self1 w1 bound fs' sq'.
     start_http sample_server_env 7 ((start_channels sample_failing)\<lparr>server_runtime := True, spawned := []\<rparr>) sample_world
       = (None, self1, w1)
     \<and> bind_unix_listener (syslog_bind (syslog_env sample_server_env)) 7 ''/s'' (world_files w1) (syslog_seq w1) = (Inr bound, fs', sq')"
  using trim_unix_prefix [of "''/h''"]
  by (simp add: start_channels_def start_http_def sample_failing_def sample_server_def sample_server_env_def
      sample_start_env_def sample_bind_def sample_world_def Server_new_def ServerConfig_new_def starts_with_def
      bind_unix_listener_def unix_bind_def rename_def symlink_metadata_def tmp_path_def Let_def)

lemma sample_failing_starts:
  "\<exists>e self1 w1. Server_start sample_server_env 7 sample_failing sample_world = (Raised_Error e, self1, w1)
    \<and> Http_Task \<in> set (spawned self1)"
  using trim_unix_prefix [of "''/h''"] sample_address
  by (simp add: Server_start_def start_channels_def start_http_def start_syslog_def syslog_start_def start_listeners_def
      start_tcp_def start_udp_def bind_std_udp_def enabled_def sample_failing_def sample_server_def sample_server_env_def
      sample_start_env_def sample_bind_def sample_world_def Server_new_def ServerConfig_new_def SyslogConfig_new_def
      starts_with_def bind_unix_listener_def unix_bind_def rename_def symlink_metadata_def tmp_path_def
      remove_socket_file_def Let_def)

theorem syslog_start_failure_witness:
  "\<exists>self2 w2. Server_start sample_server_env 7 sample_failing sample_world
      = (Raised_Error ''Failed to start syslog listeners: Protocol not available'', self2, w2)
    \<and> spawned self2 = [Http_Task, Unix_Task ''/s''] \<and> world_files w2 ''/s'' = None"
proof -
  obtain self1 w1 bound fs' sq' where
      h: "start_http sample_server_env 7 ((start_channels sample_failing)\<lparr>server_runtime := True, spawned := []\<rparr>) sample_world
        = (None, self1, w1)"
      and b: "bind_unix_listener (syslog_bind (syslog_env sample_server_env)) 7 ''/s'' (world_files w1) (syslog_seq w1)
        = (Inr bound, fs', sq')"
    using sample_failing_http by blast
  have env: "build_error sample_server_env = None" "tokio_threads (server_config sample_failing) \<noteq> Some 0"
      "stopped sample_failing" "stat_works (http_bind sample_server_env)" "stat_works (syslog_bind (syslog_env sample_server_env))"
      "start_cleanup (syslog_env sample_server_env)" "stream_path (syslog (server_config sample_failing)) = Some ''/s''"
    by (simp_all add: sample_failing_def sample_server_def sample_server_env_def sample_start_env_def sample_bind_def
        Server_new_def ServerConfig_new_def stopped_def)
  have tcp_udp: "start_tcp (syslog_env sample_server_env) (syslog (server_config sample_failing)) = Inr []"
      "start_udp (syslog_env sample_server_env) (syslog (server_config sample_failing)) = Inl ''Protocol not available''"
    using sample_address
    by (simp_all add: start_tcp_def start_udp_def bind_std_udp_def sample_failing_def sample_server_env_def
        sample_start_env_def SyslogConfig_new_def)
  from syslog_start_failure [OF h env b tcp_udp] show ?thesis
    by fastforce
qed

text \<open>
  C28. Addresses survive their text: an address configured the way it is printed, IPv4 or IPv6 with
  its zeros left out, is the one that the TCP and UDP listeners bind; and the peer that a TCP
  listener gives its messages is the same text exactly for the same IP address.
\<close>

theorem addresses_roundtrip:
  assumes "readable a" and "readable b"
  shows "start_tcp (env\<lparr>stream_fails := (\<lambda>_. None)\<rparr>) (config\<lparr>stream_bind := Some (SocketAddr_to_string a)\<rparr>)
      = Inr [Tcp_Task a]
    \<and> start_udp (env\<lparr>udp_fails := (\<lambda>_. None)\<rparr>) (config\<lparr>udp_bind := Some (SocketAddr_to_string a)\<rparr>)
      = Inr [Udp_Task a]
    \<and> (StreamListener_accept Tcp_Stream (Inr a) = StreamListener_accept Tcp_Stream (Inr b)
        \<longleftrightarrow> SocketAddr_ip a = SocketAddr_ip b)"
proof -
  have "ip_wf (SocketAddr_ip a)" "ip_wf (SocketAddr_ip b)"
    using assms by (cases a; cases b; simp)+
  then have "IpAddr_to_string (SocketAddr_ip a) = IpAddr_to_string (SocketAddr_ip b) \<longleftrightarrow> SocketAddr_ip a = SocketAddr_ip b"
    using IpAddr_to_string_inj by metis
  with SocketAddr_parse_to_string [OF assms(1)] show ?thesis
    by (simp add: start_tcp_def start_udp_def bind_std_tcp_def bind_std_udp_def split: option.splits)
qed

theorem addresses_roundtrip_witness:
  "start_tcp (sample_start_env\<lparr>stream_fails := (\<lambda>_. None)\<rparr>)
      (SyslogConfig_new\<lparr>stream_bind := Some (SocketAddr_to_string (SocketAddrV6 ([0x20, 1] @ replicate 13 0 @ [1]) 514 0 0))\<rparr>)
    = Inr [Tcp_Task (SocketAddrV6 ([0x20, 1] @ replicate 13 0 @ [1]) 514 0 0)]"
proof -
  have "readable (SocketAddrV6 ([0x20, 1] @ replicate 13 0 @ [1]) 514 0 0)" "readable (SocketAddrV4 [127, 0, 0, 1] 514)"
    by simp_all
  from addresses_roundtrip [OF this, of sample_start_env SyslogConfig_new] show ?thesis
    by simp
qed

end
