(* ===== verification/Gvl.thy ===== *)
theory Gvl
  imports Transitions
begin

text \<open>
  The lock of the Ruby interpreter (the GVL) and the cells of a server. A method of \<open>Server\<close>
  runs with the lock; other Ruby threads run only where it lets go of it: in \<open>nogvl\<close>
  (\<open>gvl_helpers.rs\<close>), in a call of a block, and in a conversion that calls Ruby code. The fields
  of \<open>Server\<close> are \<open>RefCell\<close>s (\<open>lib.rs\<close>): a borrow that conflicts with one still held panics.
\<close>

section \<open>Calling without the lock\<close>

text \<open>
  \<open>nogvl\<close> hands C a pointer to the closure and to a place for its result, which is not
  initialised; the callback runs the closure and writes the place. \<open>rb_thread_call_without_gvl\<close> is
  a parameter: it takes the callback and what it points to, the state of the closure and the place.
  Reading a place that was not written is undefined behaviour, here \<open>None\<close>.
\<close>

type_synonym ('s, 'r) c_call = "('s \<times> 'r option \<Rightarrow> 's \<times> 'r option) \<Rightarrow> 's \<times> 'r option \<Rightarrow> 's \<times> 'r option"

definition call_without_gvl :: "('s \<Rightarrow> 's \<times> 'r) \<Rightarrow> 's \<times> 'r option \<Rightarrow> 's \<times> 'r option" where
  "call_without_gvl func = (\<lambda>(s, place). let (s', r) = func s in (s', Some r))"

definition nogvl :: "('s, 'r) c_call \<Rightarrow> ('s \<Rightarrow> 's \<times> 'r) \<Rightarrow> 's \<Rightarrow> ('s \<times> 'r) option" where
  "nogvl rb_thread_call_without_gvl func s =
     (case rb_thread_call_without_gvl (call_without_gvl func) (s, None) of
        (s', Some r) \<Rightarrow> Some (s', r)
      | (_, None) \<Rightarrow> None)"

text \<open>What Ruby documents of the call: it runs the callback once, and returns after it.\<close>

definition calls_once :: "('s, 'r) c_call \<Rightarrow> bool" where
  "calls_once call \<longleftrightarrow> (\<forall>f x. call f x = f x)"

lemma nogvl_result: "calls_once call \<Longrightarrow> nogvl call func s = Some (func s)"
  by (simp add: nogvl_def calls_once_def call_without_gvl_def split: prod.splits)

section \<open>Cells\<close>

datatype cell =
    Config_Cell | Work_Rx | Work_Tx | Runtime_Cell | Shutdown_Cell | Socket_Ident_Cell
  | Syslog_Work_Rx | Syslog_Work_Tx | Syslog_Runtime_Cell

datatype cell_op = Borrow cell | Borrow_Mut cell | Drop_Borrow cell | Drop_Mut cell | Switch

text \<open>The borrow flag of a cell: the number of shared borrows, or \<open>-1\<close> for an exclusive one.\<close>

type_synonym flags = "cell \<Rightarrow> int"

definition unborrowed :: flags where
  "unborrowed = (\<lambda>_. 0)"

text \<open>\<open>None\<close> is the panic of \<open>RefCell::borrow\<close> or \<open>RefCell::borrow_mut\<close>.\<close>

fun cell_step :: "cell_op \<Rightarrow> flags \<Rightarrow> flags option" where
  "cell_step (Borrow c) f = (if f c < 0 then None else Some (f(c := f c + 1)))"
| "cell_step (Borrow_Mut c) f = (if f c \<noteq> 0 then None else Some (f(c := - 1)))"
| "cell_step (Drop_Borrow c) f = Some (f(c := f c - 1))"
| "cell_step (Drop_Mut c) f = Some (f(c := 0))"
| "cell_step Switch f = Some f"

definition peek :: "cell \<Rightarrow> cell_op list" where
  "peek c = [Borrow c, Drop_Borrow c]"

definition set_cell :: "cell \<Rightarrow> cell_op list" where
  "set_cell c = [Borrow_Mut c, Drop_Mut c]"

section \<open>What the methods borrow\<close>

text \<open>
  The accesses of each method in the order of the source, with the temporaries dropped at the
  end of their statement. \<open>run_worker\<close> takes its channels and then lets other threads run at
  every turn of its loop, while it waits for work or calls the block.
\<close>

definition run_worker_cells :: "bool \<Rightarrow> bool \<Rightarrow> nat \<Rightarrow> cell_op list" where
  "run_worker_cells has_work_rx has_syslog_rx turns =
     peek Work_Rx
     @ (if \<not> has_work_rx then []
        else peek Syslog_Work_Rx
          @ (if \<not> has_syslog_rx then [] else peek Config_Cell @ replicate turns Switch))"

text \<open>The steps of \<open>start\<close>: how far it gets before an error, and which listeners are configured.\<close>

datatype start_progress = Build_Failed | Listen_Failed | Syslog_Failed | All_Started

definition start_cells :: "bool \<Rightarrow> bool \<Rightarrow> start_progress \<Rightarrow> cell_op list" where
  "start_cells unix syslog_enabled reached =
     peek Config_Cell @ set_cell Work_Rx @ set_cell Work_Tx @ set_cell Syslog_Work_Rx
     @ set_cell Syslog_Work_Tx @ set_cell Shutdown_Cell
     @ (if reached = Build_Failed then []
        else set_cell Runtime_Cell
          @ (if reached = Listen_Failed then []
             else (if unix then set_cell Socket_Ident_Cell else [])
               @ (if syslog_enabled \<and> reached = All_Started then set_cell Syslog_Runtime_Cell else [])))"

text \<open>
  \<open>stop\<close>: the guard of the shutdown sender lives as long as the signal is sent, and that of the
  socket identity as long as the file is looked at; the drain lets other threads run.
\<close>

definition stop_cells :: "bool \<Rightarrow> bool \<Rightarrow> bool \<Rightarrow> cell_op list" where
  "stop_cells has_runtime has_syslog unix =
     peek Runtime_Cell @ set_cell Syslog_Runtime_Cell
     @ (if has_runtime then peek Shutdown_Cell @ (if has_syslog then [Switch] else []) else [])
     @ set_cell Work_Tx @ set_cell Syslog_Work_Tx @ set_cell Runtime_Cell @ set_cell Shutdown_Cell
     @ peek Config_Cell @ (if unix then set_cell Socket_Ident_Cell else [])"

definition syslog_listening_cells :: "cell_op list" where
  "syslog_listening_cells = peek Syslog_Runtime_Cell"

text \<open>
  \<open>configure\<close> holds the configuration while it converts the values; a conversion of an object
  that is not yet a String or an Integer calls its \<open>to_str\<close> or \<open>to_int\<close>.
\<close>

definition configure_cells :: "bool list \<Rightarrow> cell_op list" where
  "configure_cells calls_ruby =
     [Borrow_Mut Config_Cell] @ concat (map (\<lambda>c. if c then [Switch] else []) calls_ruby) @ [Drop_Mut Config_Cell]"

datatype server_call =
    Call_Start bool bool start_progress
  | Call_Stop bool bool bool
  | Call_Run_Worker bool bool nat
  | Call_Syslog_Listening
  | Call_Configure "bool list"

fun call_cells :: "server_call \<Rightarrow> cell_op list" where
  "call_cells (Call_Start unix syslog_enabled reached) = start_cells unix syslog_enabled reached"
| "call_cells (Call_Stop has_runtime has_syslog unix) = stop_cells has_runtime has_syslog unix"
| "call_cells (Call_Run_Worker has_work_rx has_syslog_rx turns) = run_worker_cells has_work_rx has_syslog_rx turns"
| "call_cells Call_Syslog_Listening = syslog_listening_cells"
| "call_cells (Call_Configure calls_ruby) = configure_cells calls_ruby"

section \<open>Threads\<close>

text \<open>
  A thread with the lock runs up to its next switch; \<open>slice\<close> runs it and answers what it has
  left, or \<open>None\<close> for a panic. A schedule names the thread that gets the lock next.
\<close>

fun slice :: "cell_op list \<Rightarrow> flags \<Rightarrow> (cell_op list \<times> flags) option" where
  "slice [] f = Some ([], f)"
| "slice (Switch # ops) f = Some (ops, f)"
| "slice (opr # ops) f = (case cell_step opr f of None \<Rightarrow> None | Some f' \<Rightarrow> slice ops f')"

fun schedule_step :: "nat \<Rightarrow> cell_op list list \<times> flags \<Rightarrow> (cell_op list list \<times> flags) option" where
  "schedule_step t (threads, f) =
     (if t < length threads
      then case slice (threads ! t) f of None \<Rightarrow> None | Some (ops, f') \<Rightarrow> Some (threads[t := ops], f')
      else Some (threads, f))"

section \<open>No borrow outlives a switch\<close>

text \<open>A thread that, from unborrowed cells, never panics and holds nothing where it lets go.\<close>

fun well_behaved :: "flags \<Rightarrow> cell_op list \<Rightarrow> bool" where
  "well_behaved f [] \<longleftrightarrow> f = unborrowed"
| "well_behaved f (Switch # ops) \<longleftrightarrow> f = unborrowed \<and> well_behaved f ops"
| "well_behaved f (opr # ops) \<longleftrightarrow> (case cell_step opr f of None \<Rightarrow> False | Some f' \<Rightarrow> well_behaved f' ops)"

lemma well_behaved_slice:
  "well_behaved f ops \<Longrightarrow> \<exists>ops'. slice ops f = Some (ops', unborrowed) \<and> well_behaved unborrowed ops'"
  by (induction ops f rule: slice.induct) (auto split: option.splits if_splits)

definition threads_ok :: "cell_op list list \<times> flags \<Rightarrow> bool" where
  "threads_ok = (\<lambda>(threads, f). f = unborrowed \<and> list_all (well_behaved unborrowed) threads)"

lemma schedule_goes_on: "threads_ok w \<Longrightarrow> \<exists>w'. schedule_step t w = Some w' \<and> threads_ok w'"
proof (cases w)
  case (Pair threads f)
  assume ok: "threads_ok w"
  show ?thesis
  proof (cases "t < length threads")
    case True
    with ok Pair have "well_behaved unborrowed (threads ! t)" "f = unborrowed"
      by (auto simp: threads_ok_def list_all_length)
    with well_behaved_slice obtain ops where "slice (threads ! t) f = Some (ops, unborrowed)" "well_behaved unborrowed ops"
      by blast
    with ok Pair True show ?thesis
      by (auto simp: threads_ok_def list_all_length nth_list_update)
  qed (use ok Pair in simp)
qed

lemma schedule_runs: "threads_ok w \<Longrightarrow> \<exists>w'. runs schedule_step ts w = Some w' \<and> threads_ok w'"
proof (induction ts arbitrary: w)
  case (Cons t ts)
  with schedule_goes_on obtain w' where "schedule_step t w = Some w'" "threads_ok w'"
    by blast
  with Cons.IH show ?case
    by simp
qed simp

lemma peek_well_behaved [simp]: "well_behaved unborrowed (peek c @ ops) \<longleftrightarrow> well_behaved unborrowed ops"
  by (simp add: peek_def unborrowed_def fun_upd_idem)

lemma set_cell_well_behaved [simp]: "well_behaved unborrowed (set_cell c @ ops) \<longleftrightarrow> well_behaved unborrowed ops"
  by (simp add: set_cell_def unborrowed_def fun_upd_idem)

lemma switch_well_behaved [simp]: "well_behaved unborrowed (replicate n Switch @ ops) \<longleftrightarrow> well_behaved unborrowed ops"
  by (induction n) simp_all

text \<open>A call whose conversions do not enter Ruby code while the configuration is borrowed.\<close>

fun converts_plainly :: "server_call \<Rightarrow> bool" where
  "converts_plainly (Call_Configure calls_ruby) \<longleftrightarrow> True \<notin> set calls_ruby"
| "converts_plainly _ \<longleftrightarrow> True"

lemma no_switches: "True \<notin> set cs \<Longrightarrow> concat (map (\<lambda>c. if c then [Switch] else []) cs) = []"
  by (induction cs) auto

lemma call_well_behaved: "converts_plainly call \<Longrightarrow> well_behaved unborrowed (call_cells call)"
proof (cases call)
  case (Call_Start unix syslog_enabled reached)
  then show ?thesis
    using peek_well_behaved set_cell_well_behaved [of _ "[]"] by (simp add: start_cells_def)
next
  case (Call_Stop has_runtime has_syslog unix)
  then show ?thesis
    using set_cell_well_behaved [of _ "[]"] peek_well_behaved [of _ "[]"] by (simp add: stop_cells_def)
next
  case (Call_Run_Worker has_work_rx has_syslog_rx turns)
  then show ?thesis
    using peek_well_behaved [of _ "[]"] switch_well_behaved [of turns "[]"] by (simp add: run_worker_cells_def)
next
  case Call_Syslog_Listening
  then show ?thesis
    using peek_well_behaved [of _ "[]"] by (simp add: syslog_listening_cells_def)
next
  case (Call_Configure calls_ruby)
  then show "converts_plainly call \<Longrightarrow> ?thesis"
    by (simp add: configure_cells_def no_switches unborrowed_def fun_upd_idem)
qed

text \<open>
  C21. No method of a server panics on a borrowed field, whatever Ruby threads call \<open>start\<close>,
  \<open>stop\<close>, \<open>run_worker\<close>, \<open>syslog_listening\<close> and \<open>configure\<close> at the same time and however the
  interpreter lock passes between them, while \<open>stop\<close> drains or workers wait or run their block:
  nothing is borrowed where a method lets go of the lock. The exception is \<open>configure\<close>: when a value
  has to be converted by Ruby code, a worker that starts in the meantime panics.
\<close>

theorem borrows_never_conflict:
  "(list_all converts_plainly calls \<longrightarrow> runs schedule_step ts (map call_cells calls, unborrowed) \<noteq> None)
   \<and> runs schedule_step [0, 1] (map call_cells [Call_Configure (c # True # cs), Call_Run_Worker True True n], unborrowed) = None"
proof
  show "list_all converts_plainly calls \<longrightarrow> runs schedule_step ts (map call_cells calls, unborrowed) \<noteq> None"
  proof
    assume "list_all converts_plainly calls"
    then have "threads_ok (map call_cells calls, unborrowed)"
      by (simp add: threads_ok_def list_all_iff call_well_behaved)
    with schedule_runs show "runs schedule_step ts (map call_cells calls, unborrowed) \<noteq> None"
      by blast
  qed
  show "runs schedule_step [0, 1] (map call_cells [Call_Configure (c # True # cs), Call_Run_Worker True True n], unborrowed) = None"
    by (simp add: configure_cells_def run_worker_cells_def peek_def unborrowed_def)
qed

theorem borrows_never_conflict_witness:
  "runs schedule_step [0, 1, 2, 0, 1] (map call_cells [Call_Run_Worker True True 3, Call_Stop True True True,
     Call_Configure [False, False]], unborrowed) \<noteq> None"
  using borrows_never_conflict [of "[Call_Run_Worker True True 3, Call_Stop True True True, Call_Configure [False, False]]"
      "[0, 1, 2, 0, 1]"]
  by simp

end
