(* ===== verification/Bindings.thy ===== *)
theory Bindings
  imports Main
begin

text \<open>
  The Ruby interface of the extension: \<open>init\<close> of \<open>lib.rs\<close>, which defines the module, its classes
  and their methods, and the signatures of the Rust functions it binds.

  The Ruby VM is outside the repository. What it answers to a definition, an error or none, is
  the argument \<open>fails\<close>; what has been defined is the record \<open>ruby\<close>. Every definition in \<open>init\<close>
  is followed by \<open>?\<close>.
\<close>

section \<open>The functions\<close>

datatype param = P_RHash | P_RString | P_u16 | P_Value

record rust_function =
  fn_name :: string
  takes_self :: bool
  params :: "param list"

text \<open>A wrapped Rust type: the Ruby class named in its attribute, and its public functions.\<close>

record wrapped_type =
  wt_class :: string
  wt_functions :: "rust_function list"

definition assoc_fn :: "string \<Rightarrow> param list \<Rightarrow> rust_function" where
  "assoc_fn name ps = \<lparr>fn_name = name, takes_self = False, params = ps\<rparr>"

definition method_fn :: "string \<Rightarrow> param list \<Rightarrow> rust_function" where
  "method_fn name ps = \<lparr>fn_name = name, takes_self = True, params = ps\<rparr>"

definition Server_type :: wrapped_type where
  "Server_type =
     \<lparr>wt_class = ''HyperRuby::Server'',
      wt_functions =
        [assoc_fn ''new'' [], method_fn ''total_connections'' [], method_fn ''configure'' [P_RHash],
         method_fn ''run_worker'' [], method_fn ''start'' [], method_fn ''syslog_listening'' [],
         method_fn ''syslog_stats'' [], method_fn ''stop'' []]\<rparr>"

definition Response_type :: wrapped_type where
  "Response_type =
     \<lparr>wt_class = ''HyperRuby::Response'',
      wt_functions =
        [assoc_fn ''new'' [P_u16, P_RHash, P_RString], method_fn ''status'' [], method_fn ''headers'' [],
         method_fn ''body'' []]\<rparr>"

definition GrpcResponse_type :: wrapped_type where
  "GrpcResponse_type =
     \<lparr>wt_class = ''HyperRuby::GrpcResponse'',
      wt_functions =
        [assoc_fn ''new'' [P_u16, P_RString], assoc_fn ''error'' [P_Value, P_RString],
         method_fn ''status'' [], method_fn ''headers'' [], method_fn ''body'' []]\<rparr>"

definition SyslogMessage_type :: wrapped_type where
  "SyslogMessage_type =
     \<lparr>wt_class = ''HyperRuby::SyslogMessage'',
      wt_functions =
        [method_fn ''message'' [], method_fn ''transport_name'' [], method_fn ''peer_ip'' [],
         method_fn ''transport'' [], method_fn ''received_at_ns'' [], method_fn ''message_id'' [],
         method_fn ''attempt'' [], method_fn ''inspect'' []]\<rparr>"

definition Request_type :: wrapped_type where
  "Request_type =
     \<lparr>wt_class = ''HyperRuby::Request'',
      wt_functions =
        [method_fn ''method'' [], method_fn ''path'' [], method_fn ''host'' [],
         method_fn ''query_params'' [], method_fn ''query_param'' [P_RString],
         method_fn ''header'' [P_RString], method_fn ''headers'' [], method_fn ''body_size'' [],
         method_fn ''body'' [], method_fn ''fill_body'' [P_RString], method_fn ''inspect'' []]\<rparr>"

definition GrpcRequest_type :: wrapped_type where
  "GrpcRequest_type =
     \<lparr>wt_class = ''HyperRuby::GrpcRequest'',
      wt_functions =
        [method_fn ''service'' [], method_fn ''method'' [], method_fn ''header'' [P_RString],
         method_fn ''headers'' [], method_fn ''body_size'' [], method_fn ''body'' [],
         method_fn ''fill_body'' [P_RString], method_fn ''is_compressed'' [], method_fn ''inspect'' []]\<rparr>"

section \<open>The definitions\<close>

datatype method_kind = Singleton | Instance

record binding =
  b_kind :: method_kind
  b_class :: string
  b_name :: string
  b_type :: wrapped_type
  b_function :: string
  b_arity :: nat

datatype ruby_definition = Define_Module string | Define_Class string string | Define_Method binding

record ruby =
  modules :: "string list"
  classes :: "string list"
  bindings :: "binding list"

definition ruby_start :: ruby where
  "ruby_start = \<lparr>modules = [], classes = [], bindings = []\<rparr>"

fun define_in :: "ruby_definition \<Rightarrow> ruby \<Rightarrow> ruby" where
  "define_in (Define_Module m) r = r\<lparr>modules := modules r @ [m]\<rparr>"
| "define_in (Define_Class m c) r = r\<lparr>classes := classes r @ [m @ ''::'' @ c]\<rparr>"
| "define_in (Define_Method b) r = r\<lparr>bindings := bindings r @ [b]\<rparr>"

text \<open>Definitions with \<open>?\<close> after each: the first error ends them.\<close>

fun define_all :: "(ruby_definition \<Rightarrow> 'err option) \<Rightarrow> ruby_definition list \<Rightarrow> ruby \<Rightarrow> ('err + unit) \<times> ruby" where
  "define_all fails [] r = (Inr (), r)"
| "define_all fails (d # ds) r =
     (case fails d of Some e \<Rightarrow> (Inl e, r) | None \<Rightarrow> define_all fails ds (define_in d r))"

definition bind_function :: "string \<Rightarrow> string \<Rightarrow> wrapped_type \<Rightarrow> string \<Rightarrow> nat \<Rightarrow> ruby_definition" where
  "bind_function cls name t f n = Define_Method
     \<lparr>b_kind = Singleton, b_class = cls, b_name = name, b_type = t, b_function = f, b_arity = n\<rparr>"

definition bind_method :: "string \<Rightarrow> string \<Rightarrow> wrapped_type \<Rightarrow> string \<Rightarrow> nat \<Rightarrow> ruby_definition" where
  "bind_method cls name t f n = Define_Method
     \<lparr>b_kind = Instance, b_class = cls, b_name = name, b_type = t, b_function = f, b_arity = n\<rparr>"

definition init_definitions :: "ruby_definition list" where
  "init_definitions =
     [Define_Module ''HyperRuby'',
      Define_Class ''HyperRuby'' ''Server'',
      bind_function ''HyperRuby::Server'' ''new'' Server_type ''new'' 0,
      bind_method ''HyperRuby::Server'' ''configure'' Server_type ''configure'' 1,
      bind_method ''HyperRuby::Server'' ''start'' Server_type ''start'' 0,
      bind_method ''HyperRuby::Server'' ''stop'' Server_type ''stop'' 0,
      bind_method ''HyperRuby::Server'' ''run_worker'' Server_type ''run_worker'' 0,
      bind_method ''HyperRuby::Server'' ''total_connections'' Server_type ''total_connections'' 0,
      bind_method ''HyperRuby::Server'' ''syslog_listening?'' Server_type ''syslog_listening'' 0,
      bind_method ''HyperRuby::Server'' ''syslog_stats'' Server_type ''syslog_stats'' 0,
      Define_Class ''HyperRuby'' ''Response'',
      bind_function ''HyperRuby::Response'' ''new'' Response_type ''new'' 3,
      bind_method ''HyperRuby::Response'' ''status'' Response_type ''status'' 0,
      bind_method ''HyperRuby::Response'' ''headers'' Response_type ''headers'' 0,
      bind_method ''HyperRuby::Response'' ''body'' Response_type ''body'' 0,
      Define_Class ''HyperRuby'' ''GrpcResponse'',
      bind_function ''HyperRuby::GrpcResponse'' ''new'' GrpcResponse_type ''new'' 2,
      bind_function ''HyperRuby::GrpcResponse'' ''error'' GrpcResponse_type ''error'' 2,
      bind_method ''HyperRuby::GrpcResponse'' ''status'' GrpcResponse_type ''status'' 0,
      bind_method ''HyperRuby::GrpcResponse'' ''headers'' GrpcResponse_type ''headers'' 0,
      bind_method ''HyperRuby::GrpcResponse'' ''body'' GrpcResponse_type ''body'' 0,
      Define_Class ''HyperRuby'' ''SyslogMessage'',
      bind_method ''HyperRuby::SyslogMessage'' ''message'' SyslogMessage_type ''message'' 0,
      bind_method ''HyperRuby::SyslogMessage'' ''peer_ip'' SyslogMessage_type ''peer_ip'' 0,
      bind_method ''HyperRuby::SyslogMessage'' ''transport'' SyslogMessage_type ''transport'' 0,
      bind_method ''HyperRuby::SyslogMessage'' ''received_at_ns'' SyslogMessage_type ''received_at_ns'' 0,
      bind_method ''HyperRuby::SyslogMessage'' ''message_id'' SyslogMessage_type ''message_id'' 0,
      bind_method ''HyperRuby::SyslogMessage'' ''attempt'' SyslogMessage_type ''attempt'' 0,
      bind_method ''HyperRuby::SyslogMessage'' ''inspect'' SyslogMessage_type ''inspect'' 0,
      Define_Class ''HyperRuby'' ''Request'',
      bind_method ''HyperRuby::Request'' ''http_method'' Request_type ''method'' 0,
      bind_method ''HyperRuby::Request'' ''path'' Request_type ''path'' 0,
      bind_method ''HyperRuby::Request'' ''query_params'' Request_type ''query_params'' 0,
      bind_method ''HyperRuby::Request'' ''query_param'' Request_type ''query_param'' 1,
      bind_method ''HyperRuby::Request'' ''host'' Request_type ''host'' 0,
      bind_method ''HyperRuby::Request'' ''header'' Request_type ''header'' 1,
      bind_method ''HyperRuby::Request'' ''headers'' Request_type ''headers'' 0,
      bind_method ''HyperRuby::Request'' ''body'' Request_type ''body'' 0,
      bind_method ''HyperRuby::Request'' ''fill_body'' Request_type ''fill_body'' 1,
      bind_method ''HyperRuby::Request'' ''body_size'' Request_type ''body_size'' 0,
      bind_method ''HyperRuby::Request'' ''inspect'' Request_type ''inspect'' 0,
      Define_Class ''HyperRuby'' ''GrpcRequest'',
      bind_method ''HyperRuby::GrpcRequest'' ''service'' GrpcRequest_type ''service'' 0,
      bind_method ''HyperRuby::GrpcRequest'' ''method'' GrpcRequest_type ''method'' 0,
      bind_method ''HyperRuby::GrpcRequest'' ''header'' GrpcRequest_type ''header'' 1,
      bind_method ''HyperRuby::GrpcRequest'' ''headers'' GrpcRequest_type ''headers'' 0,
      bind_method ''HyperRuby::GrpcRequest'' ''body'' GrpcRequest_type ''body'' 0,
      bind_method ''HyperRuby::GrpcRequest'' ''fill_body'' GrpcRequest_type ''fill_body'' 1,
      bind_method ''HyperRuby::GrpcRequest'' ''body_size'' GrpcRequest_type ''body_size'' 0,
      bind_method ''HyperRuby::GrpcRequest'' ''compressed?'' GrpcRequest_type ''is_compressed'' 0,
      bind_method ''HyperRuby::GrpcRequest'' ''inspect'' GrpcRequest_type ''inspect'' 0]"

definition init :: "(ruby_definition \<Rightarrow> 'err option) \<Rightarrow> ('err + unit) \<times> ruby" where
  "init fails = define_all fails init_definitions ruby_start"

section \<open>What they promise\<close>

fun find_function :: "string \<Rightarrow> rust_function list \<Rightarrow> rust_function option" where
  "find_function name [] = None"
| "find_function name (f # fs) = (if fn_name f = name then Some f else find_function name fs)"

text \<open>
  A binding fits: the function exists in the Rust type wrapped as the class it is bound in, it
  takes a receiver just when it is bound as an instance method, and its parameters are as
  many as the arity says.
\<close>

definition binding_fits :: "binding \<Rightarrow> bool" where
  "binding_fits b =
     (wt_class (b_type b) = b_class b
      \<and> (case find_function (b_function b) (wt_functions (b_type b)) of
           None \<Rightarrow> False
         | Some f \<Rightarrow> takes_self f = (b_kind b = Instance) \<and> length (params f) = b_arity b))"

definition binding_key :: "binding \<Rightarrow> method_kind \<times> string \<times> string" where
  "binding_key b = (b_kind b, b_class b, b_name b)"

definition well_defined :: "ruby \<Rightarrow> bool" where
  "well_defined r \<longleftrightarrow>
     list_all binding_fits (bindings r) \<and> distinct (map binding_key (bindings r))
     \<and> list_all (\<lambda>b. b_class b \<in> set (classes r)) (bindings r)"

fun definable :: "ruby \<Rightarrow> ruby_definition \<Rightarrow> bool" where
  "definable r (Define_Method b) =
     (binding_fits b \<and> b_class b \<in> set (classes r) \<and> binding_key b \<notin> set (map binding_key (bindings r)))"
| "definable r _ = True"

fun definable_all :: "ruby \<Rightarrow> ruby_definition list \<Rightarrow> bool" where
  "definable_all r [] = True"
| "definable_all r (d # ds) = (definable r d \<and> definable_all (define_in d r) ds)"

lemma define_in_well_defined: "well_defined r \<Longrightarrow> definable r d \<Longrightarrow> well_defined (define_in d r)"
  by (cases d) (auto simp: well_defined_def list_all_iff)

lemma define_all_well_defined:
  "well_defined r \<Longrightarrow> definable_all r ds \<Longrightarrow> well_defined (snd (define_all fails ds r))"
  by (induction ds arbitrary: r) (auto simp: define_in_well_defined split: option.splits)

lemma define_all_prefix:
  "case define_all fails ds r of
     (Inr _, r') \<Rightarrow> list_all (\<lambda>d. fails d = None) ds \<and> r' = fold define_in ds r
   | (Inl e, r') \<Rightarrow> \<exists>k < length ds. fails (ds ! k) = Some e
       \<and> list_all (\<lambda>d. fails d = None) (take k ds) \<and> r' = fold define_in (take k ds) r"
proof (induction ds arbitrary: r)
  case (Cons d ds)
  show ?case
  proof (cases "fails d")
    case None
    with Cons.IH [of "define_in d r"] show ?thesis
      by (auto split: prod.splits sum.splits intro: exI [of _ "Suc _"])
  qed (auto intro: exI [of _ 0])
qed simp

lemma init_definable: "definable_all ruby_start init_definitions"
  by code_simp

section \<open>Property\<close>

text \<open>
  The Ruby interface is well typed. Whatever the VM answers, \<open>init\<close> has made the
  definitions up to the first one that failed, or all of them; and at every such point each
  method is bound in a class that is already defined, to a function that exists in the Rust
  type wrapped as that class, as an instance method just when the function takes a receiver,
  with an arity equal to the number of its parameters, and no method is bound twice.
\<close>

lemma init_well_typed:
  "well_defined (snd (init fails)) \<and>
   (case init fails of
      (Inr _, r) \<Rightarrow> list_all (\<lambda>d. fails d = None) init_definitions
        \<and> r = fold define_in init_definitions ruby_start
    | (Inl e, r) \<Rightarrow> \<exists>k < length init_definitions. fails (init_definitions ! k) = Some e
        \<and> list_all (\<lambda>d. fails d = None) (take k init_definitions)
        \<and> r = fold define_in (take k init_definitions) ruby_start)"
proof
  have "well_defined ruby_start"
    by (simp add: well_defined_def ruby_start_def)
  then show "well_defined (snd (init fails))"
    unfolding init_def by (rule define_all_well_defined [OF _ init_definable])
qed (use define_all_prefix [where fails = fails and ds = init_definitions and r = ruby_start] in \<open>simp only: init_def\<close>)

end
