(* ===== verification/Framing_Tests.thy ===== *)
theory Framing_Tests
  imports Framing_Streams Http_Types "HOL-Library.Code_Target_Nat"
begin

text \<open>
  The unit tests of \<open>syslog/framing.rs\<close> on the model: each test is the script of its calls and
  assertions, played on the framer with the line codec of the theory Line_Codec_Instance. They are
  evaluated in the kernel, so the definitions of the theory Framing and the tests of the source agree.
\<close>

section \<open>Scripts\<close>

datatype test_op =
    Put bytes
  | Decodes "FrameError + bytes option"
  | Decode_Ignored
  | Decodes_Eof "FrameError + bytes option"
  | Buffer_Is bytes
  | Decodes_All "(FrameError + bytes) list"

text \<open>Plays a script: \<open>put\<close>, a call with the result asserted, and assertions on the buffer.\<close>

fun play :: "test_op list \<Rightarrow> (nat \<times> bool) Framer \<Rightarrow> bytes \<Rightarrow> bool" where
  "play [] framer buffer = True"
| "play (Put bs # ops) framer buffer = play ops framer (buffer @ bs)"
| "play (Decodes expected # ops) framer buffer =
     (case decode True simple_lines framer buffer of
        None \<Rightarrow> False
      | Some (r, framer', buffer') \<Rightarrow> r = expected \<and> play ops framer' buffer')"
| "play (Decode_Ignored # ops) framer buffer =
     (case decode True simple_lines framer buffer of
        None \<Rightarrow> False
      | Some (r, framer', buffer') \<Rightarrow> play ops framer' buffer')"
| "play (Decodes_Eof expected # ops) framer buffer =
     (case decode_eof True simple_lines framer buffer of
        None \<Rightarrow> False
      | Some (r, framer', buffer') \<Rightarrow> r = expected \<and> play ops framer' buffer')"
| "play (Buffer_Is expected # ops) framer buffer = (buffer = expected \<and> play ops framer buffer)"
| "play (Decodes_All expected # ops) framer buffer =
     (case decode_all (decode_fuel buffer) True simple_lines framer buffer of
        None \<Rightarrow> False
      | Some (out, framer', buffer') \<Rightarrow> out = expected \<and> play ops framer' buffer')"

definition passes :: "nat \<Rightarrow> test_op list \<Rightarrow> bool" where
  "passes max_length ops = play ops (Framer_new simple_lines max_length) []"

section \<open>The tests\<close>

definition non_octet_decode_works_with_multiple_frames :: bool where
  "non_octet_decode_works_with_multiple_frames =
     passes 128
       [Put (as_bytes ''<57>Mar 25 21:47:46 host quaerat[2444]: There were ''),
        Decodes (Inr None),
        Put (as_bytes ''8 penguins in the shop.'' @ [10]),
        Decodes (Inr (Some (as_bytes ''<57>Mar 25 21:47:46 host quaerat[2444]: There were 8 penguins in the shop.'')))]"

definition newline_decode_strips_carriage_return :: bool where
  "newline_decode_strips_carriage_return =
     passes 128
       [Put (as_bytes ''<13>first'' @ [13, 10] @ as_bytes ''<13>second'' @ [10]),
        Decodes (Inr (Some (as_bytes ''<13>first''))),
        Decodes (Inr (Some (as_bytes ''<13>second''))),
        Decodes (Inr None)]"

definition octet_decode_works_with_multiple_frames :: bool where
  "octet_decode_works_with_multiple_frames =
     passes 30
       [Put (as_bytes ''28 abcdefghijklm''),
        Decodes (Inr None),
        Put (as_bytes ''3 nopqrstuvwxyz''),
        Decodes (Inr (Some (as_bytes ''abcdefghijklm3 nopqrstuvwxyz'')))]"

definition octet_decode_moves_past_invalid_length :: bool where
  "octet_decode_moves_past_invalid_length =
     passes 16
       [Put (as_bytes ''232>1 zork''),
        Decodes (Inl (FrameError_fatal InvalidLength)),
        Buffer_Is (as_bytes ''zork'')]"

definition octet_decode_moves_past_invalid_utf8 :: bool where
  "octet_decode_moves_past_invalid_utf8 =
     passes 16
       [Put [52, 32, 0xf0, 0x28, 0x8c, 0xbc],
        Decodes (Inl (FrameError_fatal InvalidUtf8)),
        Buffer_Is []]"

definition octet_decode_moves_past_exceeded_frame_length :: bool where
  "octet_decode_moves_past_exceeded_frame_length =
     passes 16
       [Put (as_bytes ''32thisshouldbelongerthanthmaxframeasizewhichmeansitwillnotbedecoded'' @ [10]),
        Decodes (Inl (FrameError_fatal Oversize)),
        Buffer_Is []]"

definition octet_decode_rejects_exceeded_frame_length :: bool where
  "octet_decode_rejects_exceeded_frame_length =
     passes 16
       [Put (as_bytes ''26 abcdefghijklmnopqrstuvwxyzand here we are''),
        Decodes (Inr None),
        Decodes (Inl (FrameError_fatal Oversize)),
        Buffer_Is (as_bytes ''and here we are'')]"

definition octet_decode_rejects_exceeded_frame_length_multiple_frames :: bool where
  "octet_decode_rejects_exceeded_frame_length_multiple_frames =
     passes 16
       [Put (as_bytes ''26 abc''),
        Decode_Ignored,
        Put (as_bytes ''defghijklmnopqrstuvwxyzand here we are''),
        Decodes (Inl (FrameError_fatal Oversize)),
        Buffer_Is (as_bytes ''and here we are'')]"

definition octet_decode_discards_oversize_body_arriving_in_pieces :: bool where
  "octet_decode_discards_oversize_body_arriving_in_pieces =
     passes 16
       ([Put (as_bytes ''26 abc''), Decodes (Inr None)]
        @ concat (replicate 10 [Put (as_bytes ''ab''), Decodes (Inr None)])
        @ [Put (as_bytes ''xyzrest''), Decodes (Inl (FrameError_fatal Oversize)), Buffer_Is (as_bytes ''rest'')])"

definition octet_decode_moves_past_exceeded_frame_length_multiple_frames :: bool where
  "octet_decode_moves_past_exceeded_frame_length_multiple_frames =
     passes 16
       [Put (as_bytes ''32thisshouldbelongerthanthmaxframeasizewhichmeansitwillnotbedecoded''),
        Decode_Ignored,
        Put (as_bytes ''wemustcontinuetodiscard'' @ [10] @ as_bytes ''32 something valid''),
        Decodes (Inl (FrameError_fatal Oversize)),
        Buffer_Is (as_bytes ''32 something valid'')]"

definition oversize_body_starting_with_a_digit_is_not_decoded_as_a_frame :: bool where
  "oversize_body_starting_with_a_digit_is_not_decoded_as_a_frame =
     passes 16
       [Put (as_bytes ''26 ''),
        Decodes (Inr None),
        Put (as_bytes ''9 abcdefghZ''),
        Decodes (Inr None),
        Buffer_Is [],
        Put (as_bytes ''aaaaaaaaaaaaaaa5 next''),
        Decodes (Inl (FrameError_fatal Oversize)),
        Buffer_Is (as_bytes ''5 next'')]"

definition newline_oversize_is_recoverable :: bool where
  "newline_oversize_is_recoverable =
     passes 16
       [Put (as_bytes ''<13>aaaaaaaaaaaaaaaaaaaaaaaaaaaa'' @ [10] @ as_bytes ''<13>ok'' @ [10]),
        Decodes_All [Inl (FrameError_recoverable Oversize), Inr (as_bytes ''<13>ok'')]]"

definition newline_invalid_utf8_is_fatal :: bool where
  "newline_invalid_utf8_is_fatal =
     passes 64
       [Put [60, 49, 51, 62, 0xf0, 0x28, 10],
        Decodes (Inl (FrameError_fatal InvalidUtf8))]"

definition decode_eof_releases_trailing_line :: bool where
  "decode_eof_releases_trailing_line =
     passes 64
       [Put (as_bytes ''<13>trailing''),
        Decodes (Inr None),
        Decodes_Eof (Inr (Some (as_bytes ''<13>trailing''))),
        Decodes_Eof (Inr None)]"

definition decode_eof_holds_back_incomplete_octet_frame :: bool where
  "decode_eof_holds_back_incomplete_octet_frame =
     passes 64
       [Put (as_bytes ''10 partial''),
        Decodes (Inr None),
        Decodes_Eof (Inr None)]"

text \<open>The results of decoding everything, read by read, and nothing left undecoded in between.\<close>

fun decode_reads ::
  "bytes list \<Rightarrow> (nat \<times> bool) Framer \<Rightarrow> bytes \<Rightarrow> (FrameError + bytes) list option" where
  "decode_reads [] framer buffer = Some []"
| "decode_reads (r # rs) framer buffer =
     (case decode_all (decode_fuel (buffer @ r)) True simple_lines framer (buffer @ r) of
        None \<Rightarrow> None
      | Some (out, framer', buffer') \<Rightarrow> map_option ((@) out) (decode_reads rs framer' buffer'))"

definition same_as_whole :: "bytes \<Rightarrow> bytes list \<Rightarrow> bool" where
  "same_as_whole input reads =
     (decode_reads reads (Framer_new simple_lines 64) []
        = decode_reads [input] (Framer_new simple_lines 64) [])"

definition same_at_split :: "bytes \<Rightarrow> nat \<Rightarrow> bool" where
  "same_at_split input split = same_as_whole input [take split input, drop split input]"

definition same_at_splits :: "bytes \<Rightarrow> bool" where
  "same_at_splits input = list_all (same_at_split input) [1..<length input]"

definition split_inputs :: "bytes list" where
  "split_inputs =
     [as_bytes ''11 hello there7 goodbye<13>newline'' @ [10] @ as_bytes ''<13>another'' @ [13, 10],
      as_bytes ''5 first<13>second'' @ [10] @ as_bytes ''6 third'' @ [10],
      as_bytes ''<13>only a line'' @ [10],
      as_bytes ''13 embedded'' @ [10] @ as_bytes ''line<13>after'' @ [10]]"

definition frames_decode_identically_at_every_split_point :: bool where
  "frames_decode_identically_at_every_split_point = list_all same_at_splits split_inputs"

definition bytewise_input :: bytes where
  "bytewise_input = as_bytes ''11 hello there<13>newline'' @ [10] @ as_bytes ''7 goodbye''"

definition frames_decode_identically_byte_at_a_time :: bool where
  "frames_decode_identically_byte_at_a_time =
     same_as_whole bytewise_input (map (\<lambda>b. [b]) bytewise_input)"

lemma test_non_octet_decode_works_with_multiple_frames: non_octet_decode_works_with_multiple_frames
  by code_simp

lemma test_newline_decode_strips_carriage_return: newline_decode_strips_carriage_return
  by code_simp

lemma test_octet_decode_works_with_multiple_frames: octet_decode_works_with_multiple_frames
  by code_simp

lemma test_octet_decode_moves_past_invalid_length: octet_decode_moves_past_invalid_length
  by code_simp

lemma test_octet_decode_moves_past_invalid_utf8: octet_decode_moves_past_invalid_utf8
  by code_simp

lemma test_octet_decode_moves_past_exceeded_frame_length: octet_decode_moves_past_exceeded_frame_length
  by code_simp

lemma test_octet_decode_rejects_exceeded_frame_length: octet_decode_rejects_exceeded_frame_length
  by code_simp

lemma test_octet_decode_rejects_exceeded_frame_length_multiple_frames: octet_decode_rejects_exceeded_frame_length_multiple_frames
  by code_simp

lemma test_octet_decode_discards_oversize_body_arriving_in_pieces: octet_decode_discards_oversize_body_arriving_in_pieces
  by code_simp

lemma test_octet_decode_moves_past_exceeded_frame_length_multiple_frames: octet_decode_moves_past_exceeded_frame_length_multiple_frames
  by code_simp

lemma test_oversize_body_starting_with_a_digit_is_not_decoded_as_a_frame: oversize_body_starting_with_a_digit_is_not_decoded_as_a_frame
  by code_simp

lemma test_newline_oversize_is_recoverable: newline_oversize_is_recoverable
  by code_simp

lemma test_newline_invalid_utf8_is_fatal: newline_invalid_utf8_is_fatal
  by code_simp

lemma test_decode_eof_releases_trailing_line: decode_eof_releases_trailing_line
  by code_simp

lemma test_decode_eof_holds_back_incomplete_octet_frame: decode_eof_holds_back_incomplete_octet_frame
  by code_simp

text \<open>
  The tests on split reads follow from the theorem on frames of any mixture: their inputs are
  such frames.
\<close>

lemma decode_reads_feed:
  "feed True simple_lines f b reads = Some (out, f', b') \<Longrightarrow> \<not> (\<exists>e. Inl e \<in> set out) \<Longrightarrow>
   decode_reads reads f b = Some out"
proof (induction reads arbitrary: f b out)
  case (Cons r rs)
  then obtain o1 f1 b1 where all: "decode_all (decode_fuel (b @ r)) True simple_lines f (b @ r) = Some (o1, f1, b1)"
    by (auto split: option.splits)
  have "\<not> ends_fatal o1"
  proof
    assume fatal: "ends_fatal o1"
    then have "out = o1"
      using Cons.prems(1) all by simp
    with fatal Cons.prems(2) show False
      by (cases o1 rule: rev_cases) (auto simp: ends_fatal_def split: sum.splits)
  qed
  with Cons.prems(1) all obtain o2 where "feed True simple_lines f1 b1 rs = Some (o2, f', b')" "out = o1 @ o2"
    by auto
  with Cons.IH [of f1 b1 o2] Cons.prems(2) all show ?case
    by auto
qed simp

lemma decode_reads_wire:
  assumes "\<forall>fr \<in> set frs. carried 64 fr" and "concat reads = wire frs"
  shows "decode_reads reads (Framer_new simple_lines 64) [] = Some (map (\<lambda>fr. Inr (frame_message fr)) frs)"
proof -
  have "[] = wire frs \<longrightarrow> frs = []"
    by (cases frs) (simp_all add: frame_bytes_nonempty)
  then have "\<exists>f. feed True simple_lines (Framer_new simple_lines 64) [] reads
      = Some (map (\<lambda>fr. Inr (frame_message fr)) frs, f, [])"
    using assms by (intro feed_wire [OF simple_lines_ok simple_lines_splits open_line_Nil assms(1)]
        Framer_new_between_calls [OF simple_lines_ok simple_lines_splits]) simp_all
  then obtain f where f: "feed True simple_lines (Framer_new simple_lines 64) [] reads
      = Some (map (\<lambda>fr. Inr (frame_message fr)) frs, f, [])" by blast
  show ?thesis
    by (rule decode_reads_feed [OF f]) auto
qed

lemma same_as_whole_wire:
  assumes "\<forall>fr \<in> set frs. carried 64 fr" and "input = wire frs" and "concat reads = input"
  shows "same_as_whole input reads"
  using decode_reads_wire [OF assms(1), of reads] decode_reads_wire [OF assms(1), of "[input]"] assms(2,3)
  by (simp add: same_as_whole_def)

lemma same_at_splits_wire:
  assumes "\<forall>fr \<in> set frs. carried 64 fr" and "input = wire frs"
  shows "same_at_splits input"
  using same_as_whole_wire [OF assms] by (simp add: same_at_splits_def list_all_iff same_at_split_def)

definition split_frames :: "frame list list" where
  "split_frames =
     [[Octet (as_bytes ''hello there''), Octet (as_bytes ''goodbye''), Line False (as_bytes ''<13>newline''),
       Line True (as_bytes ''<13>another'')],
      [Octet (as_bytes ''first''), Line False (as_bytes ''<13>second''), Octet (as_bytes ''third'' @ [10])],
      [Line False (as_bytes ''<13>only a line'')],
      [Octet (as_bytes ''embedded'' @ [10] @ as_bytes ''line''), Line False (as_bytes ''<13>after'')]]"

lemma split_frames_wire: "map wire split_frames = split_inputs"
  by code_simp

lemma split_frames_carried: "list_all (list_all (carried 64)) split_frames"
  by code_simp

lemma test_frames_decode_identically_at_every_split_point: frames_decode_identically_at_every_split_point
proof -
  have "\<forall>frs \<in> set split_frames. same_at_splits (wire frs)"
    using split_frames_carried by (auto simp: list_all_iff intro: same_at_splits_wire)
  then show ?thesis
    by (simp add: frames_decode_identically_at_every_split_point_def list_all_iff
        split_frames_wire [symmetric])
qed

definition bytewise_frames :: "frame list" where
  "bytewise_frames =
     [Octet (as_bytes ''hello there''), Line False (as_bytes ''<13>newline''), Octet (as_bytes ''goodbye'')]"

lemma bytewise_frames_wire: "wire bytewise_frames = bytewise_input"
  by code_simp

lemma bytewise_frames_carried: "list_all (carried 64) bytewise_frames"
  by code_simp

lemma concat_singletons: "concat (map (\<lambda>b. [b]) xs) = xs"
  by (induction xs) simp_all

lemma test_frames_decode_identically_byte_at_a_time: frames_decode_identically_byte_at_a_time
  unfolding frames_decode_identically_byte_at_a_time_def
  using bytewise_frames_carried
  by (intro same_as_whole_wire [of bytewise_frames])
    (simp_all add: bytewise_frames_wire list_all_iff concat_singletons)

lemmas framer_tests =
  test_non_octet_decode_works_with_multiple_frames test_newline_decode_strips_carriage_return
  test_octet_decode_works_with_multiple_frames test_octet_decode_moves_past_invalid_length
  test_octet_decode_moves_past_invalid_utf8 test_octet_decode_moves_past_exceeded_frame_length
  test_octet_decode_rejects_exceeded_frame_length
  test_octet_decode_rejects_exceeded_frame_length_multiple_frames
  test_octet_decode_discards_oversize_body_arriving_in_pieces
  test_octet_decode_moves_past_exceeded_frame_length_multiple_frames
  test_oversize_body_starting_with_a_digit_is_not_decoded_as_a_frame
  test_newline_oversize_is_recoverable test_newline_invalid_utf8_is_fatal
  test_decode_eof_releases_trailing_line test_decode_eof_holds_back_incomplete_octet_frame
  test_frames_decode_identically_at_every_split_point
  test_frames_decode_identically_byte_at_a_time

section \<open>All of them\<close>

definition framing_tests :: bool where
  "framing_tests \<longleftrightarrow>
   non_octet_decode_works_with_multiple_frames \<and>
   newline_decode_strips_carriage_return \<and>
   octet_decode_works_with_multiple_frames \<and>
   octet_decode_moves_past_invalid_length \<and>
   octet_decode_moves_past_invalid_utf8 \<and>
   octet_decode_moves_past_exceeded_frame_length \<and>
   octet_decode_rejects_exceeded_frame_length \<and>
   octet_decode_rejects_exceeded_frame_length_multiple_frames \<and>
   octet_decode_discards_oversize_body_arriving_in_pieces \<and>
   octet_decode_moves_past_exceeded_frame_length_multiple_frames \<and>
   oversize_body_starting_with_a_digit_is_not_decoded_as_a_frame \<and>
   newline_oversize_is_recoverable \<and>
   newline_invalid_utf8_is_fatal \<and>
   decode_eof_releases_trailing_line \<and>
   decode_eof_holds_back_incomplete_octet_frame \<and>
   frames_decode_identically_at_every_split_point \<and>
   frames_decode_identically_byte_at_a_time"

text \<open>Every unit test of the framer passes on the model, in a build with overflow checks.\<close>

lemma framing_tests_hold: framing_tests
  unfolding framing_tests_def by (intro conjI framer_tests)

end
