(* ===== verification/Proxy_Tests.thy ===== *)
theory Proxy_Tests
  imports Syslog_Proxy Http_Types "HOL-Library.Code_Target_Nat"
begin

unbundle bit_operations_syntax

text \<open>
  The unit tests of \<open>syslog/proxy.rs\<close> on the model: each test is the conjunction of its
  assertions.
\<close>

section \<open>The tests\<close>

definition ipv4_address :: "bytes \<Rightarrow> bytes" where
  "ipv4_address source = source @ [10, 0, 0, 1] @ u16_to_be 514 @ u16_to_be 6514"

definition parses_ipv4_source :: bool where
  "parses_ipv4_source =
     (let header = v2_header 0x11 0x1 (ipv4_address [192, 0, 2, 7]) in
      parse header 1024 = Some (Inr (Complete (Some (V4 [192, 0, 2, 7])) (length header))))"

definition parses_ipv6_source :: bool where
  "parses_ipv6_source =
     (let address = (replicate 36 0)[15 := 1]; header = v2_header 0x21 0x1 address in
      parse header 1024 = Some (Inr (Complete (Some (V6 (replicate 15 0 @ [1]))) (length header))))"

definition ignores_trailing_payload_and_tlvs :: bool where
  "ignores_trailing_payload_and_tlvs =
     (let address = ipv4_address [198, 51, 100, 3] @ [0x03, 0x00, 0x04, 1, 2, 3, 4];
          header = v2_header 0x11 0x1 address;
          prefix_len = length header;
          buf = header @ as_bytes ''<13>a message'' @ [10]
      in parse buf 1024 = Some (Inr (Complete (Some (V4 [198, 51, 100, 3])) prefix_len)))"

definition unix_and_unspecified_families_have_no_source :: bool where
  "unix_and_unspecified_families_have_no_source =
     list_all (\<lambda>family.
         let header = v2_header family 0x1 (replicate 216 0) in
         parse header 1024 = Some (Inr (Complete None (length header)))) [0x00, 0x31, 0x32]"

definition local_command_has_no_source :: bool where
  "local_command_has_no_source =
     (let header = v2_header 0x00 0x0 [] in
      parse header 1024 = Some (Inr (Complete None (length header))))"

definition rejects_v1_header :: bool where
  "rejects_v1_header =
     (parse (as_bytes ''PROXY TCP4 192.0.2.1 10.0.0.1 514 6514'' @ [13, 10]) 1024 = Some (Inl Version)
      \<and> parse (as_bytes ''PRO'') 1024 = Some (Inl Version))"

definition rejects_missing_header :: bool where
  "rejects_missing_header =
     (parse (as_bytes ''<13>a message'' @ [10]) 1024 = Some (Inl Signature))"

definition rejects_bad_version_command_and_family :: bool where
  "rejects_bad_version_command_and_family =
     (let header = v2_header 0x11 0x1 (ipv4_address [192, 0, 2, 7]) in
      parse (header[12 := 0x31]) 1024 = Some (Inl Version)
      \<and> parse (header[12 := 0x27]) 1024 = Some (Inl Command)
      \<and> parse (v2_header 0x41 0x1 (ipv4_address [192, 0, 2, 7])) 1024 = Some (Inl Family)
      \<and> parse (v2_header 0x11 0x1 (replicate 4 0)) 1024 = Some (Inl Family))"

definition rejects_oversize_header :: bool where
  "rejects_oversize_header =
     (parse (v2_header 0x11 0x1 (replicate 600 0)) 256 = Some (Inl TooLong))"

definition parses_identically_at_every_split_point :: bool where
  "parses_identically_at_every_split_point =
     (let header = v2_header 0x11 0x1 (ipv4_address [203, 0, 113, 9]);
          prefix_len = length header;
          buf = header @ as_bytes ''7 hello!'';
          expected = Complete (Some (V4 [203, 0, 113, 9])) prefix_len
      in list_all (\<lambda>split.
           parse (take split buf) 1024
             = (if split < prefix_len then Some (Inr Incomplete) else Some (Inr expected))) [0..<length buf])"

definition detects_garbled_signature_as_soon_as_it_differs :: bool where
  "detects_garbled_signature_as_soon_as_it_differs =
     (let buf = (v2_header 0x11 0x1 (ipv4_address [203, 0, 113, 9]))[5 := 0xff] in
      list_all (\<lambda>split. parse (take split buf) 1024 = Some (Inl Signature)) [6..<length buf])"

section \<open>They pass\<close>

lemma test_parses_ipv4_source: parses_ipv4_source
  by code_simp

lemma test_parses_ipv6_source: parses_ipv6_source
  by code_simp

lemma test_ignores_trailing_payload_and_tlvs: ignores_trailing_payload_and_tlvs
  by code_simp

lemma test_unix_and_unspecified_families_have_no_source: unix_and_unspecified_families_have_no_source
  by code_simp

lemma test_local_command_has_no_source: local_command_has_no_source
  by code_simp

lemma test_rejects_v1_header: rejects_v1_header
  by code_simp

lemma test_rejects_missing_header: rejects_missing_header
  by code_simp

lemma test_rejects_bad_version_command_and_family: rejects_bad_version_command_and_family
  by code_simp

lemma test_rejects_oversize_header: rejects_oversize_header
  by code_simp

lemma test_parses_identically_at_every_split_point: parses_identically_at_every_split_point
  by code_simp

lemma test_detects_garbled_signature_as_soon_as_it_differs: detects_garbled_signature_as_soon_as_it_differs
  by code_simp

lemmas parser_tests =
  test_parses_ipv4_source test_parses_ipv6_source test_ignores_trailing_payload_and_tlvs
  test_unix_and_unspecified_families_have_no_source test_local_command_has_no_source
  test_rejects_v1_header test_rejects_missing_header test_rejects_bad_version_command_and_family
  test_rejects_oversize_header test_parses_identically_at_every_split_point
  test_detects_garbled_signature_as_soon_as_it_differs

section \<open>All of them\<close>

definition proxy_tests :: bool where
  "proxy_tests \<longleftrightarrow>
   parses_ipv4_source \<and>
   parses_ipv6_source \<and>
   ignores_trailing_payload_and_tlvs \<and>
   unix_and_unspecified_families_have_no_source \<and>
   local_command_has_no_source \<and>
   rejects_v1_header \<and>
   rejects_missing_header \<and>
   rejects_bad_version_command_and_family \<and>
   rejects_oversize_header \<and>
   parses_identically_at_every_split_point \<and>
   detects_garbled_signature_as_soon_as_it_differs"

text \<open>Every unit test of the PROXY header parser passes on the model.\<close>

lemma proxy_tests_hold: proxy_tests
  unfolding proxy_tests_def by (intro conjI parser_tests)

end
