(* ===== verification/Spec2Isabelle.thy ===== *)
theory Spec2Isabelle
  imports Http_System Connections Service Drain Server Gvl Bindings Framing_Tests Proxy_Tests
begin

text \<open>
  A verification library for HyperRuby, a Ruby extension in Rust (\<open>src/ext/hyper_ruby/src\<close>) that
  serves HTTP and gRPC requests and receives syslog messages, and hands both to Ruby threads.

  \<^bold>\<open>The program.\<close> Ruby creates a \<open>Server\<close>, configures and starts it (\<open>lib.rs\<close>). HTTP requests
  arrive through hyper: \<open>handle_request\<close> collects the body, puts the request on a bounded queue
  and waits on a one-shot channel for the response. Syslog messages arrive on a Unix or TCP
  stream or as datagrams (\<open>syslog.rs\<close>): a connection may begin with a PROXY header
  (\<open>syslog/proxy.rs\<close>), its bytes are cut into messages (\<open>syslog/framing.rs\<close>), each message takes
  a permit, and a delivery task per connection puts the messages on a second queue in order
  and repeats those a handler refuses. Ruby threads in \<open>run_worker\<close> take work from both queues,
  call the Ruby block with a request or message object (\<open>request.rs\<close>, \<open>grpc.rs\<close>) and send its
  response (\<open>response.rs\<close>) or verdict back. \<open>stop\<close> ends the listeners and drains what is under way.

  \<^bold>\<open>Conventions.\<close> Rust's \<open>Result\<close> is a sum with \<open>Inl\<close> the error; a panic is \<open>None\<close>; integers that
  may wrap are words of their width, and \<open>usize\<close> is a natural number with the wrapping additions
  written out; a flag \<open>chk\<close> says whether the crate is built with overflow checks. What tokio,
  hyper, crossbeam, the \<open>http\<close> crate, \<open>LinesCodec\<close>, the kernel and Ruby answer are arguments:
  outcomes in the order in which they are asked for, or records of operations with their
  documented behaviour as a named hypothesis (\<open>lines_codec_ok\<close> and \<open>lines_codec_splits\<close>, \<open>http_ok\<close>,
  \<open>rb_ok\<close>, \<open>calls_once\<close>). Each of these hypotheses is shown to hold of a concrete instance.

  \<^bold>\<open>The theories.\<close>
  \<^item> Prelude, Rust_Std: integers, bytes, fact collections; the parts of the Rust standard
    library the sources use, with their round trips. Std_Net: addresses, their text and the
    parser of that text; a printed address is read back, so different addresses have different texts.
  \<^item> Transitions: systems that run by steps; the locales \<open>step_invariant\<close>, \<open>simulation\<close> (on the
    events that a run shows) and \<open>draining\<close> carry what follows for whole runs.
  \<^item> Framing, Line_Codec_Instance, Framing_Streams: the framer. A stream of frames, octet
    counted and lines in any mixture, is delivered as sent wherever the reads end; oversize
    frames are discarded whole; the decode loop returns.
  \<^item> Proxy, Syslog_Proxy: the header parser and the loop that reads a header. The parser is an
    \<open>incremental_parser\<close>: wherever the reads end a complete header is found with the bytes after it,
    and input that is no header is rejected at the first read that shows it.
  \<^item> Framing_Tests, Proxy_Tests: the unit tests of these two files.
  \<^item> Counters, Config, Messages: the counters as 64-bit words, the configuration with its
    limits, messages and deliveries with what Ruby sees of them.
  \<^item> Delivery, Stream, Datagrams: one attempt, the retries and the delivery task; a whole
    connection from its first byte to its close; the datagram listener. Messages arrive
    unchanged, in order and once, and the books balance.
  \<^item> System and its invariants (System_Invariants, System_Messages, System_Order,
    System_Safety): all listeners, connections and tasks as interleaved steps on the shared
    dispatcher, with the limits on connections and pending messages in every reachable state.
  \<^item> Service: the specification of the listeners, a service with limits that shows the connections
    opened and ended and each message admitted, numbered, handed over and finished; the events of
    every run of the system are a run of it. Drain: after
    \<open>stop_accepting\<close> everything ends.
  \<^item> Http_Types, Response_Body, Grpc, Request, Response: HTTP messages over a parameter for the
    \<open>http\<close> crate; the request and response objects of Ruby; the gRPC frame as a \<open>frame_codec\<close>,
    the two request bodies as \<open>fill_source\<close>.
  \<^item> Worker, Http_Handler: which queue a worker takes from, what it replies, and \<open>handle_request\<close>
    on every branch. Http_System: any number of requests, the queue, the workers and \<open>stop\<close>
    interleaved. It refines \<open>handle_request\<close> request by request, so no response goes to
    another request, and queued requests are answered, except while \<open>stop\<close> holds the GVL: it does so
    while it waits for the server task and drops the runtime, but not while it drains the listeners.
  \<^item> Connections: the task of the HTTP server, its connections and the shutdown signal
    interleaved; which connections are asked to close, awaited and cut off. \<open>stop\<close> waits for the
    task only if \<open>start\<close> stored its handle.
  \<^item> Sockets, Server: socket files, \<open>start\<close> and \<open>stop\<close> on every branch. The property of this theory
    joins Server with Connections.
  \<^item> Gvl: \<open>nogvl\<close>, and the borrows of the server's cells under any passing of the interpreter
    lock. Bindings: the definitions of \<open>init\<close> and the signatures of what it binds.

  \<^bold>\<open>Correspondence.\<close> A Rust struct is a record and an enum a datatype with the same names, a
  function \<open>T::f\<close> is \<open>f\<close> or \<open>T_f\<close>. An async function is modelled twice where it runs beside
  others: as a function of everything it awaits (Stream, Delivery, Datagrams, Http_Handler), and
  as steps between its await points (System, Http_System). Fields that the sources do not have
  are observations: \<open>full_at\<close> of an exchange, and the messages a task has handed over.

  \<^bold>\<open>Bounds and fuel.\<close> The loop that empties a buffer has fuel \<open>2 * length src + 2\<close>: every call
  either consumes a byte, or reports an overlong line once before its bytes are skipped, or
  ends the loop; \<open>decode_loop_returns\<close> proves that this is enough. The polling loop of
  \<open>handle_request\<close> sleeps ten milliseconds a turn, so \<open>send_timeout div 10 + 2\<close> turns are enough, which
  \<open>handle_request_answers\<close> proves. All other loops run over the list of outcomes they are given.

  \<^bold>\<open>Not modelled.\<close> Logging and the setting up of the logger; the global allocator; hyper's HTTP
  parsing and its handling of connections, of which the models see collected bodies and the end
  of a connection; a work queue of capacity zero, where crossbeam hands work over without storing
  it; memory orderings weaker than sequential consistency (the counters use relaxed operations on
  one location each); the limits of \<open>http::HeaderMap\<close>, which panics beyond its largest size, and of
  the length of header names; overflow checks on the attempt number of a delivery, which wraps as in
  a release build; a restarted server, whose counters go on from their last values where System
  begins with zeros; a server that is started again or collected by Ruby without \<open>stop\<close>; the Ruby file that loads the extension and the Ruby tests, which drive a
  running server over sockets.
\<close>

section \<open>Starting and stopping\<close>

text \<open>
  C39. How \<open>start\<close> went decides what \<open>stop\<close> does to open connections. After a start that succeeded the
  server has the handle of its task, and in every interleaving a connection is cut off only when the task
  has ended, and then only if it has a maximum age or the wait timed out. A start that raised because of
  the syslog listeners leaves the HTTP task running without a handle: a connection it accepts can be
  cut off by \<open>stop\<close> without having been asked to close.
\<close>

theorem start_decides_stop:
  assumes "Server_start env pid self w = (res, self1, w1)" and "stopped self" and "Http_Task \<in> set (spawned self1)"
  shows "if res = Started
    then \<forall>(acts :: 'e task_action list) s. \<forall>c \<in> set (st_conns s).
      runs (task_step listener (max_connection_age (server_config self))) acts (task_start (server_handle self1) t) = Some s
      \<longrightarrow> status c = Conn_Cut
      \<longrightarrow> st_phase s = Task_Done \<and> (max_connection_age (server_config self) \<noteq> None \<or> st_timed_out s)
    else \<exists>(acts :: 'e task_action list) s. \<exists>c \<in> set (st_conns s).
      runs (task_step listener (max_connection_age (server_config self))) acts (task_start (server_handle self1) t) = Some s
      \<and> status c = Conn_Cut \<and> goaways c = 0 \<and> st_phase s \<noteq> Task_Done"
proof (cases "res = Started")
  case True
  then have "server_handle self1"
    using start_handle [OF assms(1,2)] by simp
  with True cut_off [of listener "max_connection_age (server_config self)" _ True t] show ?thesis
    by auto
next
  case False
  then have "\<not> server_handle self1"
    using start_handle [OF assms(1,2)] by simp
  with False stop_without_handle [where listener = listener and 'e = 'e] show ?thesis
    by (simp only: if_False) (metis task_phase.distinct(5))
qed

theorem start_decides_stop_witness:
  "\<exists>e self1 w1. Server_start sample_server_env 7 sample_failing sample_world = (Raised_Error e, self1, w1)
    \<and> (\<exists>(acts :: string task_action list) s. \<exists>c \<in> set (st_conns s).
        runs (task_step Listener_Unix None) acts (task_start (server_handle self1) 0) = Some s
        \<and> status c = Conn_Cut \<and> goaways c = 0)"
proof -
  obtain e self1 w1 where s: "Server_start sample_server_env 7 sample_failing sample_world = (Raised_Error e, self1, w1)"
      "Http_Task \<in> set (spawned self1)"
    using sample_failing_starts by blast
  have config: "stopped sample_failing" "max_connection_age (server_config sample_failing) = None"
    by (simp_all add: sample_failing_def sample_server_def Server_new_def ServerConfig_new_def stopped_def)
  from start_decides_stop [OF s(1) config(1) s(2), where listener = Listener_Unix and t = 0] show ?thesis
    using s(1) unfolding config(2) by auto
qed

end
